(* ===== verification/Prelude.thy ===== *)
theory Prelude
  imports Main "HOL-Library.Word"
begin

text \<open>
  Shared vocabulary of the development: the machine integers and byte strings of the Rust
  sources, \<open>Result\<close> as a sum type with the \<open>?\<close> operator as \<open>and_then\<close>, big-endian
  integer encodings, and the list lemmas that several components use.
\<close>

unbundle bit_operations_syntax

section \<open>Machine types\<close>

type_synonym u8 = "8 word"
type_synonym u16 = "16 word"
type_synonym u32 = "32 word"
type_synonym u64 = "64 word"
type_synonym bytes = "u8 list"

section \<open>Results\<close>

text \<open>\<open>Result<A, E>\<close> is \<open>'e + 'a\<close>: \<open>Inl\<close> is \<open>Err\<close>, \<open>Inr\<close> is \<open>Ok\<close>.\<close>

type_synonym ('e, 'a) result = "'e + 'a"

named_theorems result_simps \<open>unfolding of the operations on results\<close>

fun and_then :: "('e, 'a) result \<Rightarrow> ('a \<Rightarrow> ('e, 'b) result) \<Rightarrow> ('e, 'b) result" where
  "and_then (Inl e) f = Inl e"
| "and_then (Inr a) f = f a"

fun map_err :: "('e \<Rightarrow> 'f) \<Rightarrow> ('e, 'a) result \<Rightarrow> ('f, 'a) result" where
  "map_err g (Inl e) = Inl (g e)"
| "map_err g (Inr a) = Inr a"

definition ok_or :: "'e \<Rightarrow> 'a option \<Rightarrow> ('e, 'a) result" where
  "ok_or e x = (case x of None \<Rightarrow> Inl e | Some a \<Rightarrow> Inr a)"

lemma and_then_Inr_iff:
  "and_then r f = Inr b \<longleftrightarrow> (\<exists>a. r = Inr a \<and> f a = Inr b)"
  by (cases r) auto

lemma and_then_Inl_iff:
  "and_then r f = Inl e \<longleftrightarrow> r = Inl e \<or> (\<exists>a. r = Inr a \<and> f a = Inl e)"
  by (cases r) auto

lemma map_err_Inr_iff: "map_err g r = Inr a \<longleftrightarrow> r = Inr a"
  by (cases r) auto

lemma map_err_Inl_iff: "map_err g r = Inl f \<longleftrightarrow> (\<exists>e. r = Inl e \<and> f = g e)"
  by (cases r) auto

lemma ok_or_Inr_iff: "ok_or e x = Inr a \<longleftrightarrow> x = Some a"
  by (auto simp: ok_or_def split: option.splits)

lemma ok_or_simps [simp]: "ok_or e None = Inl e" "ok_or e (Some a) = Inr a"
  by (simp_all add: ok_or_def)

declare and_then_Inr_iff [result_simps] and_then_Inl_iff [result_simps]
  map_err_Inr_iff [result_simps] map_err_Inl_iff [result_simps] ok_or_Inr_iff [result_simps]

section \<open>Big-endian integers\<close>

text \<open>\<open>be n v\<close> is \<open>to_be_bytes\<close> of the low \<open>n\<close> bytes of \<open>v\<close>.\<close>

fun be :: "nat \<Rightarrow> nat \<Rightarrow> bytes" where
  "be 0 v = []"
| "be (Suc n) v = be n (v div 256) @ [word_of_nat v]"

lemma length_be [simp]: "length (be n v) = n"
  by (induction n arbitrary: v) auto

lemma word_of_nat_u8_eq_iff: "(word_of_nat a :: u8) = word_of_nat b \<longleftrightarrow> a mod 256 = b mod 256"
  by (simp add: word_of_nat_eq_iff take_bit_eq_mod)

lemma be_inject:
  assumes "v < 256 ^ n" and "w < 256 ^ n" and "be n v = be n w"
  shows "v = w"
  using assms
proof (induction n arbitrary: v w)
  case 0
  then show ?case by simp
next
  case (Suc n)
  have lo: "v mod 256 = w mod 256"
    using Suc.prems(3) by (simp add: word_of_nat_u8_eq_iff)
  have "v div 256 < 256 ^ n" "w div 256 < 256 ^ n"
    using Suc.prems(1,2) by (simp_all add: less_mult_imp_div_less mult.commute)
  moreover have "be n (v div 256) = be n (w div 256)"
    using Suc.prems(3) by simp
  ultimately have "v div 256 = w div 256"
    by (rule Suc.IH)
  with lo show ?case
    by (metis div_mult_mod_eq)
qed

text \<open>Fields with an eight-byte length in front, as several digests encode them.\<close>

definition length_prefixed :: "bytes list \<Rightarrow> bytes" where
  "length_prefixed ps = concat (map (\<lambda>p. be 8 (length p) @ p) ps)"

lemma length_prefixed_simps [simp]:
  "length_prefixed [] = []"
  "length_prefixed (p # ps) = be 8 (length p) @ p @ length_prefixed ps"
  by (simp_all add: length_prefixed_def)

lemma length_prefixed_inject:
  assumes "length_prefixed ps = length_prefixed qs"
    and "\<forall>p\<in>set ps. length p < 2 ^ 64" and "\<forall>p\<in>set qs. length p < 2 ^ 64"
  shows "ps = qs"
  using assms
proof (induction ps arbitrary: qs)
  case Nil
  then show ?case
    by (cases qs) (auto dest: arg_cong [where f = length])
next
  case (Cons p ps)
  show ?case
  proof (cases qs)
    case Nil
    with Cons.prems(1) show ?thesis
      by (auto dest: arg_cong [where f = length])
  next
    case (Cons q qs')
    with Cons.prems(1) have "be 8 (length p) = be 8 (length q)"
      and rest: "p @ length_prefixed ps = q @ length_prefixed qs'"
      by (simp_all del: be.simps)
    moreover have "length p < 256 ^ 8" "length q < 256 ^ 8"
      using Cons.prems(2,3) Cons by simp_all
    ultimately have "length p = length q"
      using be_inject by blast
    with rest Cons Cons.IH [of qs'] Cons.prems(2,3) show ?thesis
      by simp
  qed
qed

section \<open>Signed 64-bit integers\<close>

text \<open>An \<open>i64\<close> is an \<open>int\<close> in \<open>i64_range\<close>; the saturating operations of the standard library, and the
  subtraction operator of a release build, which wraps.\<close>

definition i64_range :: "int \<Rightarrow> bool" where
  "i64_range x \<longleftrightarrow> - (2 ^ 63) \<le> x \<and> x < 2 ^ 63"

definition saturating_add_i64 :: "int \<Rightarrow> int \<Rightarrow> int" where
  "saturating_add_i64 a b = max (- (2 ^ 63)) (min (2 ^ 63 - 1) (a + b))"

definition saturating_sub_i64 :: "int \<Rightarrow> int \<Rightarrow> int" where
  "saturating_sub_i64 a b = max (- (2 ^ 63)) (min (2 ^ 63 - 1) (a - b))"

definition wrapping_sub_i64 :: "int \<Rightarrow> int \<Rightarrow> int" where
  "wrapping_sub_i64 a b = (a - b + 2 ^ 63) mod 2 ^ 64 - 2 ^ 63"

lemma wrapping_sub_i64_nonneg:
  "0 \<le> a \<Longrightarrow> 0 \<le> b \<Longrightarrow> i64_range a \<Longrightarrow> i64_range b \<Longrightarrow> wrapping_sub_i64 a b = a - b"
  by (simp add: wrapping_sub_i64_def i64_range_def)

lemma saturating_add_i64_mono: "a \<le> a' \<Longrightarrow> saturating_add_i64 a b \<le> saturating_add_i64 a' b"
  by (auto simp: saturating_add_i64_def)

section \<open>Searching lists\<close>

lemma find_append: "List.find Q (xs @ ys) = (case List.find Q xs of None \<Rightarrow> List.find Q ys | Some x \<Rightarrow> Some x)"
  by (induction xs) auto

lemma find_unique:
  assumes "x \<in> set xs" "Q x" and "\<And>y. y \<in> set xs \<Longrightarrow> Q y \<Longrightarrow> y = x"
  shows "List.find Q xs = Some x"
proof (cases "List.find Q xs")
  case None
  with assms(1,2) show ?thesis by (auto simp: find_None_iff)
next
  case (Some y)
  then have "y \<in> set xs \<and> Q y" unfolding find_Some_iff by auto
  with assms(3) Some show ?thesis by simp
qed

end
