(* ===== verification/Merkle.thy ===== *)
theory Merkle
  imports Prelude "HOL-Library.While_Combinator"
begin

text \<open>
  \<open>crates/ferro-audit/src/merkle.rs\<close>: the RFC 6962 hash tree of the audit log. SHA3-384 is the
  argument \<open>H\<close>. The generators (\<open>mth\<close>, \<open>path\<close>, \<open>subproof\<close>) split a list of leaf hashes at
  the largest power of two below its length; the verifiers walk from the leaf to the root over
  the binary representation of the index. The first part of the theory translates both; the
  second relates the two directions (\<open>walk_split\<close>), from which completeness and soundness of
  both proofs follow by induction on the tree.
\<close>

section \<open>The code\<close>

subsection \<open>Hashing\<close>

definition LEAF_PREFIX :: u8 where
  "LEAF_PREFIX = 0x00"

definition NODE_PREFIX :: u8 where
  "NODE_PREFIX = 0x01"

definition HASH_LEN :: nat where
  "HASH_LEN = 48"

definition leaf_hash :: "(bytes \<Rightarrow> bytes) \<Rightarrow> bytes \<Rightarrow> bytes" where
  "leaf_hash H data = H (LEAF_PREFIX # data)"

definition node_hash :: "(bytes \<Rightarrow> bytes) \<Rightarrow> bytes \<Rightarrow> bytes \<Rightarrow> bytes" where
  "node_hash H left right = H (NODE_PREFIX # left @ right)"

definition largest_pow2_below :: "nat \<Rightarrow> nat" where
  "largest_pow2_below n = while (\<lambda>k. k * 2 < n) (\<lambda>k. k * 2) 1"

lemma largest_pow2_below_spec:
  assumes "2 \<le> n"
  shows "\<exists>e. largest_pow2_below n = 2 ^ e \<and> 2 ^ e < n \<and> n \<le> 2 * 2 ^ e"
  unfolding largest_pow2_below_def
proof (rule while_rule [where P = "\<lambda>k. \<exists>e. k = 2 ^ e \<and> k < n" and r = "measure (\<lambda>k. n - k)"])
  show "\<exists>e. 1 = 2 ^ e \<and> 1 < n" using assms by (intro exI [of _ 0]) simp
next
  fix k assume "\<exists>e. k = 2 ^ e \<and> k < n" and "k * 2 < n"
  then show "\<exists>e. k * 2 = 2 ^ e \<and> k * 2 < n" by (metis power_Suc2)
next
  fix k assume "\<exists>e. k = 2 ^ e \<and> k < n" and "k * 2 < n"
  then show "(k * 2, k) \<in> measure (\<lambda>k. n - k)" by (auto intro: diff_less_mono2)
qed auto

lemma largest_pow2_below_bounds:
  "2 \<le> n \<Longrightarrow> 0 < largest_pow2_below n" "2 \<le> n \<Longrightarrow> largest_pow2_below n < n"
  using largest_pow2_below_spec [of n] by auto

subsection \<open>Generators\<close>

text \<open>The three recursions are called on nonempty slices only (\<open>root\<close>, \<open>inclusion_proof\<close> and
  \<open>consistency_proof\<close> check it), and split those into nonempty slices. The value on the empty
  slice, where the indexing of the source panics, is immaterial; so is \<open>subproof 0\<close>.\<close>

function mth :: "(bytes \<Rightarrow> bytes) \<Rightarrow> bytes list \<Rightarrow> bytes" where
  "mth H d =
     (if length d \<le> 1 then (case d of [] \<Rightarrow> [] | x # _ \<Rightarrow> x)
      else let k = largest_pow2_below (length d)
           in node_hash H (mth H (take k d)) (mth H (drop k d)))"
  by pat_completeness auto
termination
  by (relation "measure (\<lambda>(H, d). length d)") (auto intro!: diff_less largest_pow2_below_bounds min.strict_coboundedI2)

function path :: "(bytes \<Rightarrow> bytes) \<Rightarrow> nat \<Rightarrow> bytes list \<Rightarrow> bytes list" where
  "path H m d =
     (let n = length d
      in if n \<le> 1 then []
         else let k = largest_pow2_below n
              in if m < k then path H m (take k d) @ [mth H (drop k d)]
                 else path H (m - k) (drop k d) @ [mth H (take k d)])"
  by pat_completeness auto
termination
  by (relation "measure (\<lambda>(H, m, d). length d)") (auto intro!: diff_less largest_pow2_below_bounds min.strict_coboundedI2)

function subproof :: "(bytes \<Rightarrow> bytes) \<Rightarrow> nat \<Rightarrow> bytes list \<Rightarrow> bool \<Rightarrow> bytes list" where
  "subproof H m d b =
     (let n = length d
      in if m = n then (if b then [] else [mth H d])
         else if n \<le> 1 then []
         else let k = largest_pow2_below n
              in if m \<le> k then subproof H m (take k d) b @ [mth H (drop k d)]
                 else subproof H (m - k) (drop k d) False @ [mth H (take k d)])"
  by pat_completeness auto
termination
  by (relation "measure (\<lambda>(H, m, d, b). length d)") (auto intro!: diff_less largest_pow2_below_bounds min.strict_coboundedI2)

declare mth.simps [simp del] path.simps [simp del] subproof.simps [simp del]

definition consistency_path :: "(bytes \<Rightarrow> bytes) \<Rightarrow> nat \<Rightarrow> bytes list \<Rightarrow> bytes list" where
  "consistency_path H m d = subproof H m d True"

subsection \<open>The tree\<close>

record merkle_tree =
  leaves :: "bytes list"

definition tree_new :: merkle_tree where
  "tree_new = \<lparr>leaves = []\<rparr>"

definition tree_append :: "merkle_tree \<Rightarrow> bytes \<Rightarrow> nat \<times> merkle_tree" where
  "tree_append t leaf = (length (leaves t), t\<lparr>leaves := leaves t @ [leaf]\<rparr>)"

definition tree_len :: "merkle_tree \<Rightarrow> nat" where
  "tree_len t = length (leaves t)"

definition tree_is_empty :: "merkle_tree \<Rightarrow> bool" where
  "tree_is_empty t \<longleftrightarrow> leaves t = []"

definition tree_leaf :: "merkle_tree \<Rightarrow> nat \<Rightarrow> bytes option" where
  "tree_leaf t i = (if i < length (leaves t) then Some (leaves t ! i) else None)"

definition tree_root :: "(bytes \<Rightarrow> bytes) \<Rightarrow> merkle_tree \<Rightarrow> bytes option" where
  "tree_root H t = (if leaves t = [] then None else Some (mth H (leaves t)))"

definition tree_inclusion_proof :: "(bytes \<Rightarrow> bytes) \<Rightarrow> merkle_tree \<Rightarrow> nat \<Rightarrow> bytes list option" where
  "tree_inclusion_proof H t index =
     (if index \<ge> length (leaves t) then None else Some (path H index (leaves t)))"

definition tree_consistency_proof ::
  "(bytes \<Rightarrow> bytes) \<Rightarrow> merkle_tree \<Rightarrow> nat \<Rightarrow> nat \<Rightarrow> bytes list option" where
  "tree_consistency_proof H t old_size new_size =
     (if old_size = 0 \<or> old_size > new_size \<or> new_size \<noteq> length (leaves t) then None
      else Some (consistency_path H old_size (take new_size (leaves t))))"

subsection \<open>Verifiers\<close>

text \<open>The inner loop of \<open>verify_inclusion\<close> runs until the index is odd. At index \<open>0\<close> it would
  not stop, hence the option: \<open>None\<close> is divergence, and \<open>verify_inclusion_total\<close> shows that it
  never happens.\<close>

partial_function (option) strip_zeros :: "nat \<Rightarrow> nat \<Rightarrow> (nat \<times> nat) option" where
  "strip_zeros f s = (if even f then strip_zeros (f div 2) (s div 2) else Some (f, s))"

fun inclusion_loop ::
  "(bytes \<Rightarrow> bytes) \<Rightarrow> bytes \<Rightarrow> nat \<Rightarrow> nat \<Rightarrow> bytes \<Rightarrow> bytes list \<Rightarrow> bool option" where
  "inclusion_loop H root f s r [] = (if s > 0 then Some False else Some (r = root))"
| "inclusion_loop H root f s r (p # ps) =
     (if s > 0
      then if odd f \<or> f = s
           then case (if even f then strip_zeros f s else Some (f, s)) of
                  None \<Rightarrow> None
                | Some (f', s') \<Rightarrow> inclusion_loop H root (f' div 2) (s' div 2) (node_hash H p r) ps
           else inclusion_loop H root (f div 2) (s div 2) (node_hash H r p) ps
      else Some False)"

definition verify_inclusion ::
  "(bytes \<Rightarrow> bytes) \<Rightarrow> bytes \<Rightarrow> nat \<Rightarrow> nat \<Rightarrow> bytes \<Rightarrow> bytes list \<Rightarrow> bool option" where
  "verify_inclusion H leaf leaf_index tree_size root ps =
     (if leaf_index \<ge> tree_size then Some False
      else inclusion_loop H root leaf_index (tree_size - 1) leaf ps)"

fun strip_ones :: "nat \<Rightarrow> nat \<Rightarrow> nat \<times> nat" where
  "strip_ones f s = (if f mod 2 = 1 then strip_ones (f div 2) (s div 2) else (f, s))"

fun strip_zeros_nonzero :: "nat \<Rightarrow> nat \<Rightarrow> nat \<times> nat" where
  "strip_zeros_nonzero f s =
     (if even f \<and> f \<noteq> 0 then strip_zeros_nonzero (f div 2) (s div 2) else (f, s))"

declare strip_ones.simps [simp del] strip_zeros_nonzero.simps [simp del]

fun consistency_loop ::
  "(bytes \<Rightarrow> bytes) \<Rightarrow> bytes \<Rightarrow> bytes \<Rightarrow> nat \<Rightarrow> nat \<Rightarrow> bytes \<Rightarrow> bytes \<Rightarrow> bytes list \<Rightarrow> bool" where
  "consistency_loop H old_root new_root f s fr sr [] =
     (if s > 0 then False else fr = old_root \<and> sr = new_root)"
| "consistency_loop H old_root new_root f s fr sr (c # cs) =
     (if s > 0
      then if odd f \<or> f = s
           then let (f', s') = (if even f then strip_zeros_nonzero f s else (f, s))
                in consistency_loop H old_root new_root (f' div 2) (s' div 2)
                     (node_hash H c fr) (node_hash H c sr) cs
           else consistency_loop H old_root new_root (f div 2) (s div 2) fr (node_hash H sr c) cs
      else False)"

definition is_power_of_two :: "nat \<Rightarrow> bool" where
  "is_power_of_two n \<longleftrightarrow> (\<exists>e < Suc n. n = 2 ^ e)"

definition verify_consistency ::
  "(bytes \<Rightarrow> bytes) \<Rightarrow> nat \<Rightarrow> nat \<Rightarrow> bytes \<Rightarrow> bytes \<Rightarrow> bytes list \<Rightarrow> bool" where
  "verify_consistency H old_size new_size old_root new_root ps =
     (if old_size = 0 \<or> old_size > new_size then False
      else if old_size = new_size then ps = [] \<and> old_root = new_root
      else
        let (f, s) = strip_ones (old_size - 1) (new_size - 1)
        in if is_power_of_two old_size \<and> old_size \<le> new_size
           then consistency_loop H old_root new_root f s old_root old_root ps
           else (case ps of
                   [] \<Rightarrow> False
                 | p # rest \<Rightarrow> consistency_loop H old_root new_root f s p p rest))"

section \<open>Walking up, level by level\<close>

text \<open>Both verifiers are one walk over different accumulators: \<open>L p a\<close> absorbs a left sibling,
  \<open>R p a\<close> a right sibling. A rightmost node without a sibling is passed on to the next level.\<close>

function walk :: "('p \<Rightarrow> 'a \<Rightarrow> 'a) \<Rightarrow> ('p \<Rightarrow> 'a \<Rightarrow> 'a) \<Rightarrow> nat \<Rightarrow> nat \<Rightarrow> 'a \<Rightarrow> 'p list \<Rightarrow> ('a \<times> 'p list) option" where
  "walk L R f s a ps =
     (if s = 0 then Some (a, ps)
      else if odd f then (case ps of [] \<Rightarrow> None | p # ps' \<Rightarrow> walk L R (f div 2) (s div 2) (L p a) ps')
      else if f = s then walk L R (f div 2) (s div 2) a ps
      else (case ps of [] \<Rightarrow> None | p # ps' \<Rightarrow> walk L R (f div 2) (s div 2) (R p a) ps'))"
  by pat_completeness auto
termination
  by (relation "measure (\<lambda>(L, R, f, s, a, ps). s)") auto

declare walk.simps [simp del]

lemma walk_0 [simp]: "walk L R f 0 a ps = Some (a, ps)"
  by (simp add: walk.simps)

definition absorb :: "('p \<Rightarrow> 'a \<Rightarrow> 'a) \<Rightarrow> ('a \<times> 'p list) option \<Rightarrow> ('a \<times> 'p list) option" where
  "absorb F w = (case w of Some (a, p # ps) \<Rightarrow> Some (F p a, ps) | _ \<Rightarrow> None)"

lemma absorb_simps [simp]:
  "absorb F None = None" "absorb F (Some (a, [])) = None" "absorb F (Some (a, p # ps)) = Some (F p a, ps)"
  by (simp_all add: absorb_def)

lemma absorb_SomeE:
  assumes "w' = absorb F w" "w' = Some (b, ps)"
  obtains a p where "w = Some (a, p # ps)" "b = F p a"
  using assms by (auto simp: absorb_def split: option.splits list.splits)

text \<open>The walk in a tree of \<open>s + 1\<close> leaves is the walk in the left or the right subtree followed by
  one more step.\<close>

lemma walk_split_left:
  assumes "f < 2 ^ e" "2 ^ e \<le> s" "s < 2 * 2 ^ e"
  shows "walk L R f s a ps = absorb R (walk L R f (2 ^ e - 1) a ps)"
  using assms
proof (induction e arbitrary: f s a ps)
  case 0
  then have "f = 0" "s = 1" by auto
  then show ?case by (subst walk.simps) (simp split: list.splits)
next
  case (Suc e)
  have s: "s \<noteq> 0" "f \<noteq> s" using Suc.prems by auto
  have k: "(2 :: nat) ^ Suc e - 1 \<noteq> 0" "odd ((2 :: nat) ^ Suc e - 1)" "((2 :: nat) ^ Suc e - 1) div 2 = 2 ^ e - 1"
    using one_le_power [of "2 :: nat" e] by (simp_all, linarith)
  have IH: "walk L R (f div 2) (s div 2) a' ps' = absorb R (walk L R (f div 2) (2 ^ e - 1) a' ps')" for a' ps'
    using Suc.prems by (intro Suc.IH) auto
  show ?case
  proof (cases "odd f")
    case True
    then show ?thesis
      by (subst walk.simps, subst (2) walk.simps) (use s k IH in \<open>simp split: list.splits\<close>)
  next
    case False
    then have "f \<noteq> 2 ^ Suc e - 1" using k(2) by metis
    then show ?thesis using False
      by (subst walk.simps, subst (2) walk.simps) (use s k IH in \<open>simp split: list.splits\<close>)
  qed
qed

lemma walk_split_right:
  assumes "2 ^ e \<le> f" "f \<le> s" "s < 2 * 2 ^ e"
  shows "walk L R f s a ps = absorb L (walk L R (f - 2 ^ e) (s - 2 ^ e) a ps)"
  using assms
proof (induction e arbitrary: f s a ps)
  case 0
  then have "f = 1" "s = 1" by auto
  then show ?case by (subst walk.simps) (simp split: list.splits)
next
  case (Suc e)
  let ?f = "f - 2 ^ Suc e" and ?s = "s - 2 ^ Suc e"
  have s: "s \<noteq> 0" using Suc.prems by auto
  have d: "?f div 2 = f div 2 - 2 ^ e" "?s div 2 = s div 2 - 2 ^ e" "odd ?f \<longleftrightarrow> odd f" "?f = ?s \<longleftrightarrow> f = s"
    using Suc.prems by auto
  have IH: "walk L R (f div 2) (s div 2) a' ps' = absorb L (walk L R (?f div 2) (?s div 2) a' ps')" for a' ps'
    unfolding d using Suc.prems by (intro Suc.IH) auto
  show ?case
  proof (cases "?s = 0")
    case True
    then have fs: "f = 2 ^ Suc e" "f = s" using Suc.prems by auto
    then have "even f" by simp
    then show ?thesis using fs(2) True IH [of a ps] s by (subst walk.simps) simp
  next
    case False
    show ?thesis
    proof (cases "f = s")
      case True
      show ?thesis
        by (subst walk.simps, subst (2) walk.simps)
          (use s False d(3) True IH [unfolded True] in \<open>simp split: list.splits\<close>)
    next
      case f: False
      then show ?thesis
        by (subst walk.simps, subst (2) walk.simps)
          (use s False d(3,4) IH in \<open>simp split: list.splits\<close>)
    qed
  qed
qed

section \<open>The loops are walks\<close>

lemma strip_equal:
  assumes "0 < f"
  shows "\<exists>g. odd g \<and> strip_zeros_nonzero f f = (g, g) \<and> (\<forall>a ps. walk L R f f a ps = walk L R g g a ps)"
  using assms
proof (induction f rule: less_induct)
  case (less f)
  show ?case
  proof (cases "even f")
    case True
    with less.prems have "0 < f div 2" "f div 2 < f" by auto
    from less.IH [OF this(2,1)] obtain g where g: "odd g" "strip_zeros_nonzero (f div 2) (f div 2) = (g, g)"
      "\<forall>a ps. walk L R (f div 2) (f div 2) a ps = walk L R g g a ps" by blast
    have "strip_zeros_nonzero f f = (g, g)"
      using True less.prems g(2) by (subst strip_zeros_nonzero.simps) simp
    moreover have "walk L R f f a ps = walk L R g g a ps" for a ps
      using True less.prems g(3) by (subst walk.simps) simp
    ultimately show ?thesis using g(1) by blast
  next
    case False
    then have "strip_zeros_nonzero f f = (f, f)" by (subst strip_zeros_nonzero.simps) simp
    with False show ?thesis by blast
  qed
qed

lemma strip_zeros_eq: "0 < f \<Longrightarrow> strip_zeros f s = Some (strip_zeros_nonzero f s)"
proof (induction f arbitrary: s rule: less_induct)
  case (less f)
  show ?case
  proof (cases "even f")
    case True
    with less.prems have "strip_zeros (f div 2) (s div 2) = Some (strip_zeros_nonzero (f div 2) (s div 2))"
      by (intro less.IH) auto
    with True less.prems show ?thesis
      by (subst strip_zeros.simps, subst strip_zeros_nonzero.simps) simp
  next
    case False
    then show ?thesis by (subst strip_zeros.simps, subst strip_zeros_nonzero.simps) simp
  qed
qed

lemma walk_Nil: "0 < s \<Longrightarrow> walk L R f s a [] = None"
proof (induction s arbitrary: f rule: less_induct)
  case (less s)
  show ?case
  proof (cases "f = s \<and> even f")
    case True
    with less.prems have "walk L R (s div 2) (s div 2) a [] = None" by (intro less.IH) auto
    with True less.prems show ?thesis by (subst walk.simps) simp
  next
    case False
    then show ?thesis using less.prems by (subst walk.simps) auto
  qed
qed

lemma inclusion_loop_walk:
  "inclusion_loop H root f s r ps =
     Some (walk (node_hash H) (\<lambda>p r. node_hash H r p) f s r ps = Some (root, []))"
proof (induction ps arbitrary: f s r)
  case Nil
  then show ?case using walk_Nil [of s "node_hash H"] by auto
next
  case (Cons p ps)
  consider (stop) "s = 0" | (odd) "0 < s" "odd f" | (last) "0 < s" "even f" "f = s" | (right) "0 < s" "even f" "f \<noteq> s"
    by auto
  then show ?case
  proof cases
    case last
    obtain g where "odd g" "strip_zeros_nonzero s s = (g, g)"
      "\<forall>a ps. walk (node_hash H) (\<lambda>p r. node_hash H r p) s s a ps =
        walk (node_hash H) (\<lambda>p r. node_hash H r p) g g a ps"
      using strip_equal [OF last(1)] by blast
    then show ?thesis
      using last by (simp add: strip_zeros_eq Cons.IH) (subst (2) walk.simps, auto)
  qed (simp_all add: Cons.IH, subst (2) walk.simps, simp, subst (2) walk.simps, simp)
qed

abbreviation both_left :: "(bytes \<Rightarrow> bytes) \<Rightarrow> bytes \<Rightarrow> bytes \<times> bytes \<Rightarrow> bytes \<times> bytes" where
  "both_left H \<equiv> (\<lambda>c (fr, sr). (node_hash H c fr, node_hash H c sr))"

abbreviation new_right :: "(bytes \<Rightarrow> bytes) \<Rightarrow> bytes \<Rightarrow> bytes \<times> bytes \<Rightarrow> bytes \<times> bytes" where
  "new_right H \<equiv> (\<lambda>c (fr, sr). (fr, node_hash H sr c))"

lemma consistency_loop_walk:
  "consistency_loop H old_root new_root f s fr sr ps =
     (walk (both_left H) (new_right H) f s (fr, sr) ps = Some ((old_root, new_root), []))"
proof (induction ps arbitrary: f s fr sr)
  case Nil
  then show ?case using walk_Nil [of s "both_left H"] by auto
next
  case (Cons p ps)
  consider (stop) "s = 0" | (odd) "0 < s" "odd f" | (last) "0 < s" "even f" "f = s" | (right) "0 < s" "even f" "f \<noteq> s"
    by auto
  then show ?case
  proof cases
    case last
    obtain g where "odd g" "strip_zeros_nonzero s s = (g, g)"
      "\<forall>a ps. walk (both_left H) (new_right H) s s a ps = walk (both_left H) (new_right H) g g a ps"
      using strip_equal [OF last(1)] by blast
    then show ?thesis
      using last by (simp add: Cons.IH) (subst (2) walk.simps, auto)
  qed (simp_all add: Cons.IH, subst (2) walk.simps, simp, subst (2) walk.simps, simp)
qed

section \<open>Trees\<close>

lemma largest_pow2_below_eq:
  assumes "2 ^ e < n" "n \<le> 2 * 2 ^ e"
  shows "largest_pow2_below n = 2 ^ e"
proof -
  have "2 \<le> n" using assms(1) one_le_power [of "2 :: nat" e] by linarith
  then obtain e' where e': "largest_pow2_below n = 2 ^ e'" "2 ^ e' < n" "n \<le> 2 * 2 ^ e'"
    using largest_pow2_below_spec by blast
  then have "(2 :: nat) ^ e < 2 ^ Suc e'" "(2 :: nat) ^ e' < 2 ^ Suc e" using assms by auto
  then have "e < Suc e'" "e' < Suc e" by (auto simp only: power_strict_increasing_iff one_less_numeral_iff semiring_norm)
  then show ?thesis using e'(1) by simp
qed

text \<open>How a list of two or more leaves splits.\<close>

lemma split_cases:
  assumes "2 \<le> length d"
  obtains e where "largest_pow2_below (length d) = 2 ^ e" "2 ^ e < length d" "length d \<le> 2 * 2 ^ e"
    "length (take (2 ^ e) d) = 2 ^ e" "length (drop (2 ^ e) d) = length d - 2 ^ e"
  using largest_pow2_below_spec [OF assms] by auto

lemma mth_single [simp]: "mth H [x] = x"
  by (simp add: mth.simps)

lemma mth_split:
  assumes "2 ^ e < length d" "length d \<le> 2 * 2 ^ e"
  shows "mth H d = node_hash H (mth H (take (2 ^ e) d)) (mth H (drop (2 ^ e) d))"
proof -
  have "\<not> length d \<le> 1" using assms(1) one_le_power [of "2 :: nat" e] by linarith
  then show ?thesis
    by (subst mth.simps) (simp add: largest_pow2_below_eq [OF assms] Let_def)
qed

lemma path_split:
  assumes "2 ^ e < length d" "length d \<le> 2 * 2 ^ e"
  shows "path H m d = (if m < 2 ^ e then path H m (take (2 ^ e) d) @ [mth H (drop (2 ^ e) d)]
    else path H (m - 2 ^ e) (drop (2 ^ e) d) @ [mth H (take (2 ^ e) d)])"
proof -
  have "\<not> length d \<le> 1" using assms(1) one_le_power [of "2 :: nat" e] by linarith
  then show ?thesis
    by (subst path.simps) (simp add: largest_pow2_below_eq [OF assms] Let_def)
qed

lemma subproof_split:
  assumes "2 ^ e < length d" "length d \<le> 2 * 2 ^ e" "m < length d"
  shows "subproof H m d b = (if m \<le> 2 ^ e then subproof H m (take (2 ^ e) d) b @ [mth H (drop (2 ^ e) d)]
    else subproof H (m - 2 ^ e) (drop (2 ^ e) d) False @ [mth H (take (2 ^ e) d)])"
proof -
  have "\<not> length d \<le> 1" using assms(1) one_le_power [of "2 :: nat" e] by linarith
  then show ?thesis
    using assms(3) by (subst subproof.simps) (simp add: largest_pow2_below_eq [OF assms(1,2)] Let_def)
qed

text \<open>Induction along the split.\<close>

lemma tree_induct [consumes 1, case_names single split]:
  assumes "d \<noteq> []"
    and single: "\<And>x. P [x]"
    and split: "\<And>e d. 2 ^ e < length d \<Longrightarrow> length d \<le> 2 * 2 ^ e \<Longrightarrow>
      P (take (2 ^ e) d) \<Longrightarrow> P (drop (2 ^ e) d) \<Longrightarrow> P d"
  shows "P d"
  using \<open>d \<noteq> []\<close>
proof (induction d rule: length_induct)
  case (1 d)
  show ?case
  proof (cases "2 \<le> length d")
    case True
    then obtain e where e: "2 ^ e < length d" "length d \<le> 2 * 2 ^ e"
      by (rule split_cases)
    have "P (take (2 ^ e) d)" "P (drop (2 ^ e) d)" using 1 e(1) by simp_all
    with e show ?thesis by (rule split)
  next
    case False
    with 1(2) obtain x where "d = [x]" by (cases d) (auto simp: not_le)
    then show ?thesis using single by simp
  qed
qed

section \<open>Inclusion proofs\<close>

lemma path_walk:
  assumes "m < length d"
  shows "walk (node_hash H) (\<lambda>p r. node_hash H r p) m (length d - 1) (d ! m) (path H m d @ ps) =
    Some (mth H d, ps)"
proof -
  have "d \<noteq> []" using assms by auto
  then show ?thesis using assms
  proof (induction d arbitrary: m ps rule: tree_induct)
    case (single x)
    then show ?case by (simp add: path.simps)
  next
    case (split e d)
    note sp = split.hyps
    show ?case
    proof (cases "m < 2 ^ e")
      case True
      have "walk (node_hash H) (\<lambda>p r. node_hash H r p) m (length d - 1) (d ! m) (path H m d @ ps) =
          absorb (\<lambda>p r. node_hash H r p)
            (walk (node_hash H) (\<lambda>p r. node_hash H r p) m (2 ^ e - 1) (d ! m) (path H m d @ ps))"
        using sp True by (intro walk_split_left) auto
      also have "walk (node_hash H) (\<lambda>p r. node_hash H r p) m (2 ^ e - 1) (d ! m) (path H m d @ ps) =
          Some (mth H (take (2 ^ e) d), mth H (drop (2 ^ e) d) # ps)"
        using split.IH(1) [of m "mth H (drop (2 ^ e) d) # ps"] sp True by (simp add: path_split [OF sp])
      finally show ?thesis by (simp add: mth_split [OF sp])
    next
      case False
      have "walk (node_hash H) (\<lambda>p r. node_hash H r p) m (length d - 1) (d ! m) (path H m d @ ps) =
          absorb (node_hash H) (walk (node_hash H) (\<lambda>p r. node_hash H r p)
            (m - 2 ^ e) (length d - 1 - 2 ^ e) (d ! m) (path H m d @ ps))"
        using sp False split.prems by (intro walk_split_right) auto
      also have "walk (node_hash H) (\<lambda>p r. node_hash H r p) (m - 2 ^ e) (length d - 1 - 2 ^ e) (d ! m)
          (path H m d @ ps) = Some (mth H (drop (2 ^ e) d), mth H (take (2 ^ e) d) # ps)"
        using split.IH(2) [of "m - 2 ^ e" "mth H (take (2 ^ e) d) # ps"] sp False split.prems
        by (simp add: path_split [OF sp] diff_commute)
      finally show ?thesis by (simp add: mth_split [OF sp])
    qed
  qed
qed

section \<open>Consistency proofs\<close>

lemma strip_ones_full: "strip_ones (2 ^ e - 1) (2 ^ e - 1) = (0, 0)"
proof (induction e)
  case 0
  then show ?case by (simp add: strip_ones.simps)
next
  case (Suc e)
  have "odd ((2 :: nat) ^ Suc e - 1)" by simp
  then have k: "((2 :: nat) ^ Suc e - 1) mod 2 = 1" by (simp only: odd_iff_mod_2_eq_one)
  have h: "((2 :: nat) ^ Suc e - 1) div 2 = 2 ^ e - 1" by simp
  show ?case by (subst strip_ones.simps, unfold h k) (simp add: Suc [simplified])
qed

lemma strip_ones_left:
  assumes "f < 2 ^ e" "2 ^ e \<le> s" "s < 2 * 2 ^ e"
  shows "\<exists>g e' s'. strip_ones f s = (g, s') \<and> strip_ones f (2 ^ e - 1) = (g, 2 ^ e' - 1) \<and>
    g < 2 ^ e' \<and> 2 ^ e' \<le> s' \<and> s' < 2 * 2 ^ e'"
  using assms
proof (induction e arbitrary: f s)
  case 0
  then show ?case by (intro exI [of _ 0] exI [of _ s]) (auto simp: strip_ones.simps)
next
  case (Suc e)
  show ?case
  proof (cases "f mod 2 = 1")
    case True
    have half: "((2 :: nat) ^ Suc e - 1) div 2 = 2 ^ e - 1" by simp
    have half': "f div 2 < 2 ^ e" "2 ^ e \<le> s div 2" "s div 2 < 2 * 2 ^ e" using Suc.prems by auto
    obtain g e' s' where "strip_ones (f div 2) (s div 2) = (g, s')" "strip_ones (f div 2) (2 ^ e - 1) = (g, 2 ^ e' - 1)"
      "g < 2 ^ e'" "2 ^ e' \<le> s'" "s' < 2 * 2 ^ e'"
      using Suc.IH [OF half'] by (elim exE conjE) blast
    with True show ?thesis
      by (subst strip_ones.simps, subst (2) strip_ones.simps, unfold half) auto
  next
    case False
    then show ?thesis using Suc.prems
      by (intro exI [of _ f] exI [of _ "Suc e"] exI [of _ s]) (simp add: strip_ones.simps [of f])
  qed
qed

lemma strip_ones_right:
  assumes "2 ^ e \<le> f" "f < s" "s < 2 * 2 ^ e"
  shows "\<exists>g e' s'. strip_ones f s = (g, s') \<and> strip_ones (f - 2 ^ e) (s - 2 ^ e) = (g - 2 ^ e', s' - 2 ^ e') \<and>
    2 ^ e' \<le> g \<and> g \<le> s' \<and> s' < 2 * 2 ^ e'"
  using assms
proof (induction e arbitrary: f s)
  case 0
  then show ?case by simp
next
  case (Suc e)
  show ?case
  proof (cases "f mod 2 = 1")
    case True
    have half: "(f - 2 ^ Suc e) div 2 = f div 2 - 2 ^ e" "(s - 2 ^ Suc e) div 2 = s div 2 - 2 ^ e"
      using Suc.prems by auto
    have "odd (f - 2 ^ Suc e) \<longleftrightarrow> odd f" using Suc.prems by auto
    then have half1: "(f - 2 ^ Suc e) mod 2 = 1" using True by (simp only: odd_iff_mod_2_eq_one)
    have half': "2 ^ e \<le> f div 2" "s div 2 < 2 * 2 ^ e" using Suc.prems by auto
    have "f div 2 < s div 2" using True Suc.prems(2) by presburger
    from Suc.IH [OF half'(1) this half'(2)] obtain g e' s' where g: "strip_ones (f div 2) (s div 2) = (g, s')"
      "strip_ones (f div 2 - 2 ^ e) (s div 2 - 2 ^ e) = (g - 2 ^ e', s' - 2 ^ e')"
      "2 ^ e' \<le> g" "g \<le> s'" "s' < 2 * 2 ^ e'"
      by (elim exE conjE) blast
    have "strip_ones f s = (g, s')" using True g(1) by (subst strip_ones.simps) simp
    moreover have "strip_ones (f - 2 ^ Suc e) (s - 2 ^ Suc e) = (g - 2 ^ e', s' - 2 ^ e')"
      by (subst strip_ones.simps, unfold half half1) (simp add: g(2))
    ultimately show ?thesis using g(3-5) by blast
  next
    case False
    have "strip_ones f s = (f, s)" using False by (subst strip_ones.simps) simp
    moreover have "strip_ones (f - 2 ^ Suc e) (s - 2 ^ Suc e) = (f - 2 ^ Suc e, s - 2 ^ Suc e)"
      using False Suc.prems(1) by (subst strip_ones.simps) (auto simp flip: odd_iff_mod_2_eq_one)
    ultimately show ?thesis using Suc.prems by (meson less_imp_le)
  qed
qed

text \<open>The walk of the consistency verifier for sizes \<open>m\<close> and \<open>n\<close>, and how it splits.\<close>

definition cwalk :: "('p \<Rightarrow> 'a \<Rightarrow> 'a) \<Rightarrow> ('p \<Rightarrow> 'a \<Rightarrow> 'a) \<Rightarrow> nat \<Rightarrow> nat \<Rightarrow> 'a \<Rightarrow> 'p list \<Rightarrow> ('a \<times> 'p list) option" where
  "cwalk L R m n a ps = (let (f, s) = strip_ones (m - 1) (n - 1) in walk L R f s a ps)"

lemma cwalk_full: "cwalk L R (2 ^ e) (2 ^ e) a ps = Some (a, ps)"
  using strip_ones_full [of e] by (simp add: cwalk_def)

lemma cwalk_left:
  assumes "1 \<le> m" "m \<le> 2 ^ e" "2 ^ e < n" "n \<le> 2 * 2 ^ e"
  shows "cwalk L R m n a ps = absorb R (cwalk L R m (2 ^ e) a ps)"
proof -
  have b: "m - 1 < 2 ^ e" "2 ^ e \<le> n - 1" "n - 1 < 2 * 2 ^ e" using assms by auto
  obtain g e' s' where "strip_ones (m - 1) (n - 1) = (g, s')" "strip_ones (m - 1) (2 ^ e - 1) = (g, 2 ^ e' - 1)"
    "g < 2 ^ e'" "2 ^ e' \<le> s'" "s' < 2 * 2 ^ e'"
    using strip_ones_left [OF b] by (elim exE conjE) blast
  then show ?thesis by (simp add: cwalk_def walk_split_left)
qed

lemma cwalk_right:
  assumes "2 ^ e < m" "m < n" "n \<le> 2 * 2 ^ e"
  shows "cwalk L R m n a ps = absorb L (cwalk L R (m - 2 ^ e) (n - 2 ^ e) a ps)"
proof -
  have b: "2 ^ e \<le> m - 1" "m - 1 < n - 1" "n - 1 < 2 * 2 ^ e" using assms by auto
  have "m - 1 - 2 ^ e = m - 2 ^ e - 1" "n - 1 - 2 ^ e = n - 2 ^ e - 1" by simp_all
  then obtain g e' s' where "strip_ones (m - 1) (n - 1) = (g, s')"
    "strip_ones (m - 2 ^ e - 1) (n - 2 ^ e - 1) = (g - 2 ^ e', s' - 2 ^ e')"
    "2 ^ e' \<le> g" "g \<le> s'" "s' < 2 * 2 ^ e'"
    using strip_ones_right [OF b] by (elim exE conjE) (metis (no_types))
  then show ?thesis by (simp add: cwalk_def walk_split_right)
qed

lemma is_power_of_two_iff: "is_power_of_two n \<longleftrightarrow> (\<exists>e. n = 2 ^ e)"
  unfolding is_power_of_two_def by (auto simp: less_Suc_eq_le intro: less_imp_le [OF less_exp])

lemma not_power_of_two_between:
  assumes "2 ^ e < m" "m < 2 * 2 ^ e"
  shows "\<not> is_power_of_two m"
proof
  assume "is_power_of_two m"
  then obtain e' where "m = 2 ^ e'" by (auto simp: is_power_of_two_iff)
  with assms have "(2 :: nat) ^ e < 2 ^ e'" "(2 :: nat) ^ e' < 2 ^ Suc e" by auto
  then have "e < e'" "e' < Suc e" by (auto simp only: power_strict_increasing_iff one_less_numeral_iff semiring_norm)
  then show False by simp
qed

lemma mth_take_split:
  assumes "2 ^ e < m" "m \<le> 2 * 2 ^ e" "m \<le> length d"
  shows "mth H (take m d) = node_hash H (mth H (take (2 ^ e) d)) (mth H (take (m - 2 ^ e) (drop (2 ^ e) d)))"
  using mth_split [of e "take m d" H] assms by (simp add: min_def drop_take)

text \<open>The sizes the recursion of \<open>subproof\<close> reaches.\<close>

abbreviation old_size_ok :: "nat \<Rightarrow> nat \<Rightarrow> bool" where
  "old_size_ok m n \<equiv> 1 \<le> m \<and> (m < n \<or> m = n \<and> is_power_of_two n)"

lemma subproof_all: "m = length d \<Longrightarrow> subproof H m d b = (if b then [] else [mth H d])"
  by (subst subproof.simps) (simp add: Let_def)

lemma subproof_walk:
  assumes "d \<noteq> []" "old_size_ok m (length d)"
  shows "\<exists>x rest. subproof H m d False = x # rest \<and>
    (\<forall>ys. cwalk (both_left H) (new_right H) m (length d) (x, x) (rest @ ys) =
      Some ((mth H (take m d), mth H d), ys))"
  using assms
proof (induction d arbitrary: m rule: tree_induct)
  case (single x)
  then have "m = 1" by auto
  then show ?case using cwalk_full [of "both_left H" "new_right H" 0] by (simp add: subproof_all)
next
  case (split e d)
  note sp = split.hyps
  show ?case
  proof (cases "m = length d")
    case True
    then obtain e' where "length d = 2 ^ e'" using split.prems by (auto simp: is_power_of_two_iff)
    then show ?thesis using True by (simp add: subproof_all cwalk_full)
  next
    case False
    then have m: "m < length d" "1 \<le> m" using split.prems by auto
    show ?thesis
    proof (cases "m \<le> 2 ^ e")
      case True
      have "old_size_ok m (length (take (2 ^ e) d))" using m True sp by (auto simp: is_power_of_two_iff)
      from split.IH(1) [OF this] obtain x rest where IH: "subproof H m (take (2 ^ e) d) False = x # rest"
        "\<And>ys. cwalk (both_left H) (new_right H) m (2 ^ e) (x, x) (rest @ ys) =
          Some ((mth H (take m d), mth H (take (2 ^ e) d)), ys)"
        using sp True by (auto simp: min_def)
      then show ?thesis using sp m True
        by (simp add: subproof_split [OF sp] cwalk_left [OF m(2) True sp] mth_split [OF sp, symmetric])
    next
      case False
      have "old_size_ok (m - 2 ^ e) (length (drop (2 ^ e) d))" using m False sp by auto
      from split.IH(2) [OF this] obtain x rest where IH: "subproof H (m - 2 ^ e) (drop (2 ^ e) d) False = x # rest"
        "\<And>ys. cwalk (both_left H) (new_right H) (m - 2 ^ e) (length d - 2 ^ e) (x, x) (rest @ ys) =
          Some ((mth H (take (m - 2 ^ e) (drop (2 ^ e) d)), mth H (drop (2 ^ e) d)), ys)"
        by auto
      have "mth H (take m d) = node_hash H (mth H (take (2 ^ e) d)) (mth H (take (m - 2 ^ e) (drop (2 ^ e) d)))"
        using m sp False by (intro mth_take_split) auto
      then show ?thesis using sp m False IH
        by (simp add: subproof_split [OF sp] cwalk_right [of e m "length d"] mth_split [OF sp, symmetric])
    qed
  qed
qed

lemma subproof_True:
  assumes "d \<noteq> []" "old_size_ok m (length d)"
  shows "subproof H m d False =
    (if is_power_of_two m then mth H (take m d) # subproof H m d True else subproof H m d True)"
  using assms
proof (induction d arbitrary: m rule: tree_induct)
  case (single x)
  then have "m = 1" by auto
  moreover have "is_power_of_two 1" by (auto simp: is_power_of_two_iff intro: exI [of _ 0])
  ultimately show ?case by (simp add: subproof_all)
next
  case (split e d)
  note sp = split.hyps
  show ?case
  proof (cases "m = length d")
    case True
    then show ?thesis using split.prems by (simp add: subproof_all)
  next
    case False
    then have m: "m < length d" "1 \<le> m" using split.prems by auto
    show ?thesis
    proof (cases "m \<le> 2 ^ e")
      case True
      have "old_size_ok m (length (take (2 ^ e) d))" using m True sp by (auto simp: is_power_of_two_iff)
      from split.IH(1) [OF this] show ?thesis using sp m True
        by (simp add: subproof_split [OF sp] min_def)
    next
      case False
      then have "\<not> is_power_of_two m" using sp m by (intro not_power_of_two_between [of e]) auto
      then show ?thesis using False m by (simp add: subproof_split [OF sp])
    qed
  qed
qed

lemma verify_consistency_complete:
  assumes "1 \<le> m" "m \<le> length d"
  shows "verify_consistency H m (length d) (mth H (take m d)) (mth H d) (consistency_path H m d)"
proof (cases "m = length d")
  case True
  then show ?thesis using assms by (auto simp: verify_consistency_def consistency_path_def subproof_all)
next
  case False
  then have d: "d \<noteq> []" "old_size_ok m (length d)" using assms by auto
  obtain x rest where x: "subproof H m d False = x # rest"
    "\<And>ys. cwalk (both_left H) (new_right H) m (length d) (x, x) (rest @ ys) =
      Some ((mth H (take m d), mth H d), ys)" using subproof_walk [OF d, of H] by blast
  obtain f s where fs: "strip_ones (m - 1) (length d - 1) = (f, s)" by fastforce
  then have w: "walk (both_left H) (new_right H) f s (x, x) rest = Some ((mth H (take m d), mth H d), [])"
    using x(2) [of "[]"] by (simp add: cwalk_def)
  show ?thesis
  proof (cases "is_power_of_two m")
    case True
    then have "x = mth H (take m d)" "rest = consistency_path H m d"
      using subproof_True [OF d, of H] x(1) by (auto simp: consistency_path_def)
    with w fs True False assms show ?thesis
      by (simp add: verify_consistency_def consistency_loop_walk)
  next
    case np: False
    then have "consistency_path H m d = x # rest"
      using subproof_True [OF d, of H] x(1) by (auto simp: consistency_path_def)
    with w fs np False assms show ?thesis
      by (simp add: verify_consistency_def consistency_loop_walk)
  qed
qed

lemma verify_inclusion_walk:
  "verify_inclusion H leaf m n root ps = Some (m < n \<and>
    walk (node_hash H) (\<lambda>p r. node_hash H r p) m (n - 1) leaf ps = Some (root, []))"
  by (simp add: verify_inclusion_def inclusion_loop_walk)

lemma verify_consistency_walk:
  assumes "verify_consistency H m n old_root new_root ps" "m < n"
  obtains x ps' where "ps = (if is_power_of_two m then ps' else x # ps')" "is_power_of_two m \<longrightarrow> x = old_root"
    "1 \<le> m" "cwalk (both_left H) (new_right H) m n (x, x) ps' = Some ((old_root, new_root), [])"
  using assms
  by (cases "is_power_of_two m"; cases "strip_ones (m - 1) (n - 1)")
    (auto simp: verify_consistency_def consistency_loop_walk cwalk_def split: if_splits list.splits)

section \<open>Soundness\<close>

text \<open>Soundness rests on the absence of collisions, and only among the strings that are really
  hashed: those the tree hash of the log hashes (\<open>tree_queries\<close>) and those the verifier hashes,
  recorded by a walk that carries them along.\<close>

function tree_queries :: "(bytes \<Rightarrow> bytes) \<Rightarrow> bytes list \<Rightarrow> bytes list" where
  "tree_queries H d =
     (if length d \<le> 1 then []
      else let k = largest_pow2_below (length d)
           in (NODE_PREFIX # mth H (take k d) @ mth H (drop k d)) #
              tree_queries H (take k d) @ tree_queries H (drop k d))"
  by pat_completeness auto
termination
  by (relation "measure (\<lambda>(H, d). length d)") (auto intro!: diff_less largest_pow2_below_bounds min.strict_coboundedI2)

declare tree_queries.simps [simp del]

lemma tree_queries_split:
  assumes "2 ^ e < length d" "length d \<le> 2 * 2 ^ e"
  shows "tree_queries H d = (NODE_PREFIX # mth H (take (2 ^ e) d) @ mth H (drop (2 ^ e) d)) #
    tree_queries H (take (2 ^ e) d) @ tree_queries H (drop (2 ^ e) d)"
proof -
  have "\<not> length d \<le> 1" using assms(1) one_le_power [of "2 :: nat" e] by linarith
  then show ?thesis
    by (subst tree_queries.simps) (simp add: largest_pow2_below_eq [OF assms] Let_def)
qed

text \<open>A walk with a log of its queries: \<open>Q\<close> gives the strings one step hashes.\<close>

abbreviation logged :: "('p \<Rightarrow> 'a \<Rightarrow> 'a) \<Rightarrow> ('p \<Rightarrow> 'a \<Rightarrow> bytes list) \<Rightarrow> 'p \<Rightarrow> 'a \<times> bytes list \<Rightarrow> 'a \<times> bytes list" where
  "logged F Q \<equiv> (\<lambda>p (a, q). (F p a, Q p a @ q))"

lemma walk_hom:
  assumes "\<And>p a. h (L' p a) = L p (h a)" "\<And>p a. h (R' p a) = R p (h a)"
  shows "walk L R f s (h a) ps = map_option (apfst h) (walk L' R' f s a ps)"
  using assms
proof (induction L' R' f s a ps rule: walk.induct)
  case (1 L' R' f s a ps)
  show ?case
    by (subst walk.simps, subst (2) walk.simps)
      (use 1(1) [OF _ _ _ 1(4,5)] 1(2) [OF _ _ _ 1(4,5)] 1(3) [OF _ _ _ _ 1(4,5)]
        in \<open>auto simp flip: 1(4,5) split: list.splits\<close>)
qed

lemma walk_logged:
  assumes "walk L R f s a ps = Some (b, rest)"
  obtains q where "walk (logged L P) (logged R Q) f s (a, []) ps = Some ((b, q), rest)"
proof -
  have "walk L R f s (fst (a, [] :: bytes list)) ps = map_option (apfst fst) (walk (logged L P) (logged R Q) f s (a, []) ps)"
    by (rule walk_hom [where h = fst]) auto
  then show ?thesis using assms that
    by (cases "walk (logged L P) (logged R Q) f s (a, []) ps") auto
qed

lemma cwalk_logged:
  assumes "cwalk L R m n a ps = Some (b, rest)"
  obtains q where "cwalk (logged L P) (logged R Q) m n (a, []) ps = Some ((b, q), rest)"
  using assms by (auto simp: cwalk_def split: prod.splits elim: walk_logged)

lemma walk_inv:
  assumes "walk L R f s a ps = Some (b, rest)" "I a" "\<forall>p \<in> set ps. J p"
    and "\<And>p a. I a \<Longrightarrow> J p \<Longrightarrow> I (L p a)" "\<And>p a. I a \<Longrightarrow> J p \<Longrightarrow> I (R p a)"
  shows "I b \<and> (\<forall>p \<in> set rest. J p)"
  using assms
proof (induction L R f s a ps rule: walk.induct)
  case (1 L R f s a ps)
  from 1(4) consider "s = 0" "b = a" "rest = ps"
    | p ps' where "s \<noteq> 0" "odd f" "ps = p # ps'" "walk L R (f div 2) (s div 2) (L p a) ps' = Some (b, rest)"
    | "s \<noteq> 0" "even f" "f = s" "walk L R (f div 2) (s div 2) a ps = Some (b, rest)"
    | p ps' where "s \<noteq> 0" "even f" "f \<noteq> s" "ps = p # ps'" "walk L R (f div 2) (s div 2) (R p a) ps' = Some (b, rest)"
    by (subst (asm) walk.simps) (auto split: if_splits list.splits)
  then show ?case
  proof cases
    case 2
    with 1(5-8) show ?thesis by (intro 1(1)) auto
  next
    case 3
    with 1(5-8) show ?thesis by (intro 1(2)) auto
  next
    case 4
    with 1(5-8) show ?thesis by (intro 1(3)) auto
  qed (use 1 in simp)
qed

text \<open>The strings hashed by \<open>verify_inclusion\<close> and by \<open>verify_consistency\<close>.\<close>

abbreviation incl_left :: "(bytes \<Rightarrow> bytes) \<Rightarrow> bytes \<Rightarrow> bytes \<times> bytes list \<Rightarrow> bytes \<times> bytes list" where
  "incl_left H \<equiv> logged (node_hash H) (\<lambda>p r. [NODE_PREFIX # p @ r])"

abbreviation incl_right :: "(bytes \<Rightarrow> bytes) \<Rightarrow> bytes \<Rightarrow> bytes \<times> bytes list \<Rightarrow> bytes \<times> bytes list" where
  "incl_right H \<equiv> logged (\<lambda>p r. node_hash H r p) (\<lambda>p r. [NODE_PREFIX # r @ p])"

definition inclusion_queries :: "(bytes \<Rightarrow> bytes) \<Rightarrow> bytes \<Rightarrow> nat \<Rightarrow> nat \<Rightarrow> bytes list \<Rightarrow> bytes list" where
  "inclusion_queries H leaf m n ps =
     (case walk (incl_left H) (incl_right H) m (n - 1) (leaf, []) ps of None \<Rightarrow> [] | Some ((_, q), _) \<Rightarrow> q)"

abbreviation cons_left :: "(bytes \<Rightarrow> bytes) \<Rightarrow> bytes \<Rightarrow> (bytes \<times> bytes) \<times> bytes list \<Rightarrow> (bytes \<times> bytes) \<times> bytes list" where
  "cons_left H \<equiv> logged (both_left H) (\<lambda>c (fr, sr). [NODE_PREFIX # c @ fr, NODE_PREFIX # c @ sr])"

abbreviation cons_right :: "(bytes \<Rightarrow> bytes) \<Rightarrow> bytes \<Rightarrow> (bytes \<times> bytes) \<times> bytes list \<Rightarrow> (bytes \<times> bytes) \<times> bytes list" where
  "cons_right H \<equiv> logged (new_right H) (\<lambda>c (fr, sr). [NODE_PREFIX # sr @ c])"

definition consistency_queries ::
  "(bytes \<Rightarrow> bytes) \<Rightarrow> bytes \<Rightarrow> nat \<Rightarrow> nat \<Rightarrow> bytes list \<Rightarrow> bytes list" where
  "consistency_queries H old_root m n ps =
     (let (x, ps') = (if is_power_of_two m then (old_root, ps) else (hd ps, tl ps))
      in case cwalk (cons_left H) (cons_right H) m n ((x, x), []) ps' of None \<Rightarrow> [] | Some ((_, q), _) \<Rightarrow> q)"

definition no_collision :: "(bytes \<Rightarrow> bytes) \<Rightarrow> bytes list \<Rightarrow> bool" where
  "no_collision H qs \<longleftrightarrow> (\<forall>x \<in> set qs. \<forall>y \<in> set qs. H x = H y \<longrightarrow> x = y)"

lemma no_collision_mono: "no_collision H q' \<Longrightarrow> set q \<subseteq> set q' \<Longrightarrow> no_collision H q"
  by (auto simp: no_collision_def)

lemma no_collision_node:
  assumes "no_collision H qs" "node_hash H a b = node_hash H c d"
    and "NODE_PREFIX # a @ b \<in> set qs" "NODE_PREFIX # c @ d \<in> set qs" "length a = length c"
  shows "a = c" "b = d"
proof -
  have "NODE_PREFIX # a @ b = NODE_PREFIX # c @ d"
    using assms(1-4) unfolding no_collision_def node_hash_def by metis
  then show "a = c" "b = d" using assms(5) by auto
qed

lemma length_node_hash: "(\<And>x. length (H x) = n) \<Longrightarrow> length (node_hash H a b) = n"
  by (simp add: node_hash_def)

lemma length_mth:
  assumes "\<And>x. length (H x) = n" "d \<noteq> []" "\<forall>x \<in> set d. length x = n"
  shows "length (mth H d) = n"
  using assms(2,3)
proof (induction rule: tree_induct)
  case (split e d)
  then show ?case by (simp add: mth_split length_node_hash [OF assms(1)])
qed simp

lemma walk_sound:
  assumes H: "\<And>x. length (H x) = n" and d: "d \<noteq> []" "\<forall>x \<in> set d. length x = n"
    and ps: "\<forall>p \<in> set ps. length p = n" and "length a = n" "m < length d"
    and "walk (incl_left H) (incl_right H) m (length d - 1) (a, q\<^sub>0) ps = Some ((mth H d, q), rest)"
    and "no_collision H (q @ tree_queries H d)"
  shows "a = d ! m"
  using d assms(6-8)
proof (induction d arbitrary: m q rest rule: tree_induct)
  case (single x)
  then show ?case by simp
next
  case (split e d)
  note sp = split.hyps
  have lens: "length (mth H (take (2 ^ e) d)) = n" "length (mth H (drop (2 ^ e) d)) = n"
    using sp split.prems(1) by (auto intro!: length_mth H dest: in_set_takeD in_set_dropD)
  have inv: "length r = n" "\<forall>p \<in> set ps'. length p = n"
    if "walk (incl_left H) (incl_right H) f s (a, q\<^sub>0) ps = Some ((r, q'), ps')" for f s r q' ps'
    using walk_inv [OF that, of "\<lambda>(r, _). length r = n" "\<lambda>p. length p = n"] ps \<open>length a = n\<close>
    by (auto simp: length_node_hash [OF H])
  show ?case
  proof (cases "m < 2 ^ e")
    case True
    have "walk (incl_left H) (incl_right H) m (length d - 1) (a, q\<^sub>0) ps =
        absorb (incl_right H) (walk (incl_left H) (incl_right H) m (2 ^ e - 1) (a, q\<^sub>0) ps)"
      using sp True by (intro walk_split_left) auto
    then obtain r q' p where w: "walk (incl_left H) (incl_right H) m (2 ^ e - 1) (a, q\<^sub>0) ps = Some ((r, q'), p # rest)"
      "mth H d = node_hash H r p" "q = (NODE_PREFIX # r @ p) # q'"
      using split.prems(3) by (elim absorb_SomeE) auto
    have "r = mth H (take (2 ^ e) d)"
      using split.prems(4) w inv [OF w(1)] lens
      by (intro no_collision_node(1) [of H "q @ tree_queries H d" r p _ "mth H (drop (2 ^ e) d)"])
        (auto simp: tree_queries_split [OF sp] mth_split [OF sp])
    with w(1) have "a = take (2 ^ e) d ! m"
      using sp True split.prems(1) no_collision_mono [OF split.prems(4), of "q' @ tree_queries H (take (2 ^ e) d)"]
      by (intro split.IH(1) [of m q' "p # rest"]) (auto simp: w(3) tree_queries_split [OF sp] dest: in_set_takeD)
    then show ?thesis using True by simp
  next
    case False
    have "walk (incl_left H) (incl_right H) m (length d - 1) (a, q\<^sub>0) ps =
        absorb (incl_left H) (walk (incl_left H) (incl_right H) (m - 2 ^ e) (length d - 1 - 2 ^ e) (a, q\<^sub>0) ps)"
      using sp False split.prems by (intro walk_split_right) auto
    then obtain r q' p where w: "walk (incl_left H) (incl_right H) (m - 2 ^ e) (length d - 1 - 2 ^ e) (a, q\<^sub>0) ps = Some ((r, q'), p # rest)"
      "mth H d = node_hash H p r" "q = (NODE_PREFIX # p @ r) # q'"
      using split.prems(3) by (elim absorb_SomeE) auto
    have "r = mth H (drop (2 ^ e) d)"
      using split.prems(4) w inv [OF w(1)] lens
      by (intro no_collision_node(2) [of H "q @ tree_queries H d" p r "mth H (take (2 ^ e) d)"])
        (auto simp: tree_queries_split [OF sp] mth_split [OF sp])
    with w(1) have "a = drop (2 ^ e) d ! (m - 2 ^ e)"
      using sp False split.prems(1,2) no_collision_mono [OF split.prems(4), of "q' @ tree_queries H (drop (2 ^ e) d)"]
      by (intro split.IH(2) [of "m - 2 ^ e" q' "p # rest"])
        (auto simp: w(3) tree_queries_split [OF sp] diff_commute dest: in_set_dropD)
    then show ?thesis using False split.prems(2) by simp
  qed
qed

lemma cwalk_inv:
  assumes "cwalk L R m n a ps = Some (b, rest)" "I a" "\<forall>p \<in> set ps. J p"
    and "\<And>p a. I a \<Longrightarrow> J p \<Longrightarrow> I (L p a)" "\<And>p a. I a \<Longrightarrow> J p \<Longrightarrow> I (R p a)"
  shows "I b \<and> (\<forall>p \<in> set rest. J p)"
  using assms(1) walk_inv [of L R _ _ a ps b rest I J, OF _ assms(2-5)]
  by (auto simp: cwalk_def split: prod.splits)

lemma cwalk_sound:
  assumes H: "\<And>x. length (H x) = n" and d: "d \<noteq> []" "\<forall>x \<in> set d. length x = n"
    and ps: "\<forall>p \<in> set ps. length p = n" and "length a = n" "old_size_ok m (length d)"
    and "cwalk (cons_left H) (cons_right H) m (length d) ((a, a), q\<^sub>0) ps = Some (((fr, mth H d), q), rest)"
    and "no_collision H (q @ tree_queries H d)"
  shows "fr = mth H (take m d)"
  using d assms(6-8)
proof (induction d arbitrary: m fr q rest rule: tree_induct)
  case (single x)
  then have "m = 1" by auto
  then show ?case using single(3) cwalk_full [of "cons_left H" "cons_right H" 0 "((a, a), q\<^sub>0)" ps] by simp
next
  case (split e d)
  note sp = split.hyps
  have lens: "length (mth H (take (2 ^ e) d)) = n" "length (mth H (drop (2 ^ e) d)) = n"
    using sp split.prems(1) by (auto intro!: length_mth H dest: in_set_takeD in_set_dropD)
  have inv: "length sr = n" "\<forall>p \<in> set ps'. length p = n"
    if "cwalk (cons_left H) (cons_right H) k l ((a, a), q\<^sub>0) ps = Some (((fr, sr), q'), ps')" for k l fr sr q' ps'
    using cwalk_inv [OF that, of "\<lambda>((_, sr), _). length sr = n" "\<lambda>p. length p = n"] ps \<open>length a = n\<close>
    by (auto simp: length_node_hash [OF H])
  show ?case
  proof (cases "m = length d")
    case True
    then have "is_power_of_two (length d)" using split.prems(2) by simp
    then obtain e' where "length d = 2 ^ e'" unfolding is_power_of_two_iff by (rule exE)
    then have "Some (((a, a), q\<^sub>0), ps) = Some (((fr, mth H d), q), rest)"
      using split.prems(3) True by (simp only: cwalk_full)
    then have "fr = mth H d" by (elim option.inject [THEN iffD1, elim_format] Pair_inject) simp
    then show ?thesis using True by simp
  next
    case False
    then have m: "m < length d" "1 \<le> m" using split.prems by auto
    show ?thesis
    proof (cases "m \<le> 2 ^ e")
      case True
      note cwalk_left [OF m(2) True sp, of "cons_left H" "cons_right H" "((a, a), q\<^sub>0)" ps]
      then obtain sr q' c where w: "cwalk (cons_left H) (cons_right H) m (2 ^ e) ((a, a), q\<^sub>0) ps = Some (((fr, sr), q'), c # rest)"
        "mth H d = node_hash H sr c" "q = (NODE_PREFIX # sr @ c) # q'"
        using split.prems(3) by (elim absorb_SomeE) auto
      have "sr = mth H (take (2 ^ e) d)"
        using split.prems(4) w inv [OF w(1)] lens
        by (intro no_collision_node(1) [of H "q @ tree_queries H d" sr c _ "mth H (drop (2 ^ e) d)"])
          (auto simp: tree_queries_split [OF sp] mth_split [OF sp])
      moreover have "old_size_ok m (length (take (2 ^ e) d))" using m True sp by (auto simp: is_power_of_two_iff)
      ultimately have "fr = mth H (take m (take (2 ^ e) d))"
        using w(1) sp split.prems(1) no_collision_mono [OF split.prems(4), of "q' @ tree_queries H (take (2 ^ e) d)"]
        by (intro split.IH(1) [of m fr q' "c # rest"]) (auto simp: w(3) tree_queries_split [OF sp] dest: in_set_takeD)
      then show ?thesis using True by (simp add: min_def)
    next
      case False
      then have m': "2 ^ e < m" by simp
      obtain x c where x: "cwalk (cons_left H) (cons_right H) (m - 2 ^ e) (length d - 2 ^ e) ((a, a), q\<^sub>0) ps = Some (x, c # rest)"
        "((fr, mth H d), q) = cons_left H c x"
        by (rule absorb_SomeE [OF cwalk_right [OF m' m(1) sp(2)] split.prems(3)])
      obtain fr' sr q' where "x = ((fr', sr), q')" by (cases x) auto
      with x have w: "cwalk (cons_left H) (cons_right H) (m - 2 ^ e) (length d - 2 ^ e) ((a, a), q\<^sub>0) ps = Some (((fr', sr), q'), c # rest)"
        "fr = node_hash H c fr'" "mth H d = node_hash H c sr" "q = (NODE_PREFIX # c @ fr') # (NODE_PREFIX # c @ sr) # q'"
        by simp_all
      have nc: "no_collision H (q @ tree_queries H d)" by (rule split.prems(4))
      have mem: "NODE_PREFIX # c @ sr \<in> set (q @ tree_queries H d)"
        "NODE_PREFIX # mth H (take (2 ^ e) d) @ mth H (drop (2 ^ e) d) \<in> set (q @ tree_queries H d)"
        by (simp_all add: w(4) tree_queries_split [OF sp])
      have "length c = length (mth H (take (2 ^ e) d))" using inv(2) [OF w(1)] lens(1) by simp
      note eqs = no_collision_node [OF nc trans [OF w(3) [symmetric] mth_split [OF sp]] mem this]
      have "set (q' @ tree_queries H (drop (2 ^ e) d)) \<subseteq> set (q @ tree_queries H d)"
        by (auto simp: w(4) tree_queries_split [OF sp])
      note nc' = no_collision_mono [OF nc this]
      have "fr' = mth H (take (m - 2 ^ e) (drop (2 ^ e) d))"
      proof (rule split.IH(2) [OF _ _ _ nc'])
        show "\<forall>x \<in> set (drop (2 ^ e) d). length x = n" using split.prems(1) by (auto dest: in_set_dropD)
        show "old_size_ok (m - 2 ^ e) (length (drop (2 ^ e) d))" using m m' by auto
        show "cwalk (cons_left H) (cons_right H) (m - 2 ^ e) (length (drop (2 ^ e) d)) ((a, a), q\<^sub>0) ps =
            Some (((fr', mth H (drop (2 ^ e) d)), q'), c # rest)"
          using w(1) by (simp only: eqs(2) length_drop)
      qed
      then show ?thesis
        using mth_take_split [of e m d H] m m' sp by (simp only: w(2) eqs(1))
    qed
  qed
qed

lemma verify_inclusion_sound_aux:
  assumes H: "\<And>x. length (H x) = HASH_LEN" and d: "\<forall>x \<in> set d. length x = HASH_LEN"
    and ps: "\<forall>p \<in> set ps. length p = HASH_LEN" and leaf: "length leaf = HASH_LEN"
    and ok: "verify_inclusion H leaf m (length d) (mth H d) ps = Some True"
    and nc: "no_collision H (inclusion_queries H leaf m (length d) ps @ tree_queries H d)"
  shows "m < length d \<and> leaf = d ! m"
proof -
  have m: "m < length d" and w: "walk (node_hash H) (\<lambda>p r. node_hash H r p) m (length d - 1) leaf ps = Some (mth H d, [])"
    using ok by (auto simp: verify_inclusion_walk)
  obtain q where q: "walk (incl_left H) (incl_right H) m (length d - 1) (leaf, []) ps = Some ((mth H d, q), [])"
    by (rule walk_logged [OF w])
  then have "no_collision H (q @ tree_queries H d)" using nc by (simp add: inclusion_queries_def)
  moreover have "d \<noteq> []" using m by auto
  ultimately show ?thesis using walk_sound [OF H _ d ps leaf m q] m by blast
qed

lemma verify_consistency_sound_aux:
  assumes H: "\<And>x. length (H x) = HASH_LEN" and d: "\<forall>x \<in> set d. length x = HASH_LEN"
    and ps: "\<forall>p \<in> set ps. length p = HASH_LEN" and old: "length old_root = HASH_LEN"
    and ok: "verify_consistency H m (length d) old_root (mth H d) ps"
    and nc: "no_collision H (consistency_queries H old_root m (length d) ps @ tree_queries H d)"
  shows "1 \<le> m \<and> m \<le> length d \<and> old_root = mth H (take m d)"
proof (cases "m < length d")
  case True
  obtain x ps' where x: "ps = (if is_power_of_two m then ps' else x # ps')" "is_power_of_two m \<longrightarrow> x = old_root"
    "1 \<le> m" and w: "cwalk (both_left H) (new_right H) m (length d) (x, x) ps' = Some ((old_root, mth H d), [])"
    by (rule verify_consistency_walk [OF ok True])
  obtain q where q: "cwalk (cons_left H) (cons_right H) m (length d) ((x, x), []) ps' = Some (((old_root, mth H d), q), [])"
    by (rule cwalk_logged [OF w])
  then have "no_collision H (q @ tree_queries H d)"
    using nc x(1,2) by (cases "is_power_of_two m") (simp_all add: consistency_queries_def)
  moreover have "length x = HASH_LEN" "\<forall>p \<in> set ps'. length p = HASH_LEN"
    using x(1,2) ps old by (auto split: if_splits)
  ultimately have "old_root = mth H (take m d)"
    using True x(3) by (intro cwalk_sound [OF H _ d _ _ _ q]) auto
  then show ?thesis using True x(3) by simp
next
  case False
  then show ?thesis using ok by (auto simp: verify_consistency_def split: if_splits)
qed

section \<open>Properties\<close>

text \<open>C19. The inclusion verifier terminates on every input, and accepts the proof generated for
  every leaf of a tree against the root of that tree.\<close>

theorem inclusion_complete:
  "(\<exists>b. verify_inclusion H leaf i n root ps = Some b) \<and>
   (case tree_inclusion_proof H t m of
      None \<Rightarrow> tree_leaf t m = None
    | Some prf \<Rightarrow> \<exists>x r. tree_leaf t m = Some x \<and> tree_root H t = Some r \<and>
        verify_inclusion H x m (tree_len t) r prf = Some True)"
  using path_walk [of m "leaves t" H "[]"]
  by (auto simp: tree_inclusion_proof_def tree_leaf_def tree_root_def tree_len_def verify_inclusion_walk)

text \<open>C8. An accepted inclusion proof names the leaf at that index: when no two of the strings hashed
  by the log and by the verifier collide, a proof accepted against the root of a log is a proof of
  the leaf hash the log has at this index.\<close>

theorem inclusion_sound:
  assumes "\<And>x. length (H x) = HASH_LEN"
    and "\<forall>x \<in> set d. length x = HASH_LEN" "\<forall>p \<in> set ps. length p = HASH_LEN" "length leaf = HASH_LEN"
    and "no_collision H (inclusion_queries H leaf m (length d) ps @ tree_queries H d)"
    and "verify_inclusion H leaf m (length d) (mth H d) ps = Some True"
  shows "tree_leaf \<lparr>leaves = d\<rparr> m = Some leaf"
  using verify_inclusion_sound_aux [OF assms(1-4,6,5)] by (simp add: tree_leaf_def)

text \<open>C20. The consistency verifier accepts the proof generated between the root of a tree and the
  root of any of its nonempty prefixes.\<close>

theorem consistency_complete:
  assumes "tree_consistency_proof H t m n = Some prf"
  shows "\<exists>new_root. tree_root H t = Some new_root \<and>
    verify_consistency H m n (mth H (take m (leaves t))) new_root prf"
  using assms verify_consistency_complete [of m "leaves t" H]
  by (auto simp: tree_consistency_proof_def tree_root_def split: if_splits)

text \<open>C5. An accepted consistency proof shows append-only growth: when no two of the strings hashed by
  the log and by the verifier collide, an old root accepted against the root of a log of \<open>n\<close> leaves
  is the root of the first \<open>m\<close> leaves of that log.\<close>

theorem consistency_sound:
  assumes "\<And>x. length (H x) = HASH_LEN"
    and "\<forall>x \<in> set d. length x = HASH_LEN" "\<forall>p \<in> set ps. length p = HASH_LEN" "length old_root = HASH_LEN"
    and "no_collision H (consistency_queries H old_root m (length d) ps @ tree_queries H d)"
    and "verify_consistency H m (length d) old_root (mth H d) ps"
  shows "tree_root H \<lparr>leaves = take m d\<rparr> = Some old_root \<and> m \<le> length d"
  using verify_consistency_sound_aux [OF assms(1-4,6,5)] by (auto simp: tree_root_def)

text \<open>A log of at least one leaf never loses a leaf when it grows: the leaf appended last is
  at the index returned by \<open>append\<close>, older leaves keep their index, and the old root stays provable.\<close>

theorem append_keeps:
  assumes "tree_append t leaf = (i, t')"
  shows "i = tree_len t \<and> tree_leaf t' i = Some leaf \<and> tree_len t' = Suc i \<and>
    (\<forall>j. j \<noteq> i \<longrightarrow> tree_leaf t' j = tree_leaf t j) \<and>
    (\<forall>r. tree_root H t = Some r \<longrightarrow>
       (\<exists>prf r'. tree_consistency_proof H t' (tree_len t) (tree_len t') = Some prf \<and>
          tree_root H t' = Some r' \<and> verify_consistency H (tree_len t) (tree_len t') r r' prf))"
  using assms verify_consistency_complete [of "length (leaves t)" "leaves t'" H]
  by (auto simp: tree_append_def tree_len_def tree_leaf_def tree_root_def tree_consistency_proof_def
      nth_append Suc_le_eq)

section \<open>Witnesses\<close>

text \<open>The last 48 bytes of the input reversed, as a concrete argument for the digest.\<close>

definition toy_hash :: "bytes \<Rightarrow> bytes" where
  "toy_hash xs = take HASH_LEN (rev xs @ replicate HASH_LEN 0)"

definition toy_leaf :: "u8 \<Rightarrow> bytes" where
  "toy_leaf b = replicate HASH_LEN b"

lemma length_toy [simp]: "length (toy_hash xs) = HASH_LEN" "length (toy_leaf b) = HASH_LEN"
  by (simp_all add: toy_hash_def toy_leaf_def)

lemma toy_simps:
  "largest_pow2_below 2 = 1" "largest_pow2_below 3 = 2"
  using largest_pow2_below_eq [of 0 2] largest_pow2_below_eq [of 1 3] by simp_all

lemma toy_node [simp]: "node_hash toy_hash a (toy_leaf b) = toy_leaf b"
  by (simp add: node_hash_def toy_hash_def toy_leaf_def)

lemma toy_leaf_inject [simp]: "toy_leaf a = toy_leaf b \<longleftrightarrow> a = b"
  by (simp add: toy_leaf_def HASH_LEN_def)

lemma toy_mth:
  "mth toy_hash [toy_leaf 1, toy_leaf 2, toy_leaf 3] = toy_leaf 3" "mth toy_hash [toy_leaf 1, toy_leaf 2] = toy_leaf 2"
  by (simp_all add: mth.simps toy_simps Let_def numeral_2_eq_2 [symmetric] numeral_3_eq_3 [symmetric])


lemma toy_queries:
  "tree_queries toy_hash [toy_leaf 1, toy_leaf 2, toy_leaf 3] =
     [NODE_PREFIX # toy_leaf 2 @ toy_leaf 3, NODE_PREFIX # toy_leaf 1 @ toy_leaf 2]"
  by (simp add: tree_queries.simps mth.simps toy_simps Let_def numeral_2_eq_2 [symmetric] numeral_3_eq_3 [symmetric])

lemma toy_no_collision:
  "set qs = {NODE_PREFIX # toy_leaf 2 @ toy_leaf 3, NODE_PREFIX # toy_leaf 1 @ toy_leaf 2} \<Longrightarrow> no_collision toy_hash qs"
  using toy_node [of "toy_leaf 2" 3] toy_node [of "toy_leaf 1" 2] by (simp add: no_collision_def node_hash_def)

theorem inclusion_sound_witness:
  "tree_leaf \<lparr>leaves = [toy_leaf 1, toy_leaf 2, toy_leaf 3]\<rparr> 1 = Some (toy_leaf 2) \<and>
   verify_inclusion toy_hash (toy_leaf 2) 1 3 (toy_leaf 3) [toy_leaf 1, toy_leaf 3] = Some True"
proof
  have v: "verify_inclusion toy_hash (toy_leaf 2) 1 3 (toy_leaf 3) [toy_leaf 1, toy_leaf 3] = Some True"
    by (simp add: verify_inclusion_def)
  then show "verify_inclusion toy_hash (toy_leaf 2) 1 3 (toy_leaf 3) [toy_leaf 1, toy_leaf 3] = Some True" .
  have "inclusion_queries toy_hash (toy_leaf 2) 1 3 [toy_leaf 1, toy_leaf 3] =
      [NODE_PREFIX # toy_leaf 2 @ toy_leaf 3, NODE_PREFIX # toy_leaf 1 @ toy_leaf 2]"
    by (simp add: inclusion_queries_def walk.simps)
  then show "tree_leaf \<lparr>leaves = [toy_leaf 1, toy_leaf 2, toy_leaf 3]\<rparr> 1 = Some (toy_leaf 2)"
    using v by (intro inclusion_sound [where H = toy_hash and ps = "[toy_leaf 1, toy_leaf 3]"])
      (auto simp: toy_mth toy_queries numeral_3_eq_3 [symmetric] intro!: toy_no_collision)
qed

theorem consistency_complete_witness:
  "\<exists>new_root. tree_root toy_hash \<lparr>leaves = [toy_leaf 1, toy_leaf 2, toy_leaf 3]\<rparr> = Some new_root \<and>
     verify_consistency toy_hash 2 3 (mth toy_hash (take 2 [toy_leaf 1, toy_leaf 2, toy_leaf 3])) new_root [toy_leaf 3]"
  using consistency_complete [of toy_hash "\<lparr>leaves = [toy_leaf 1, toy_leaf 2, toy_leaf 3]\<rparr>" 2 3 "[toy_leaf 3]"]
  by (simp add: tree_consistency_proof_def consistency_path_def subproof.simps toy_simps Let_def
      numeral_2_eq_2 [symmetric] numeral_3_eq_3 [symmetric])

lemma toy_strip: "strip_ones (Suc 0) 2 = (0, 1)"
  by (simp add: strip_ones.simps)

lemma toy_power: "is_power_of_two 2"
  unfolding is_power_of_two_iff by (intro exI [of _ 1]) simp

theorem consistency_sound_witness:
  "tree_root toy_hash \<lparr>leaves = take 2 [toy_leaf 1, toy_leaf 2, toy_leaf 3]\<rparr> = Some (toy_leaf 2) \<and>
   2 \<le> length [toy_leaf 1, toy_leaf 2, toy_leaf 3]"
proof -
  have "verify_consistency toy_hash 2 3 (toy_leaf 2) (toy_leaf 3) [toy_leaf 3]"
    by (simp add: verify_consistency_def toy_strip toy_power)
  moreover have "consistency_queries toy_hash (toy_leaf 2) 2 3 [toy_leaf 3] = [NODE_PREFIX # toy_leaf 2 @ toy_leaf 3]"
    by (simp add: consistency_queries_def cwalk_def toy_strip toy_power walk.simps)
  ultimately show ?thesis
    by (intro consistency_sound [where H = toy_hash and ps = "[toy_leaf 3]"])
      (auto simp: toy_mth toy_queries numeral_3_eq_3 [symmetric] intro!: toy_no_collision)
qed

theorem append_keeps_witness:
  "(let t = \<lparr>leaves = [toy_leaf 1]\<rparr>; t' = \<lparr>leaves = [toy_leaf 1, toy_leaf 2]\<rparr> in
    tree_leaf t' 1 = Some (toy_leaf 2) \<and> tree_leaf t' 0 = tree_leaf t 0 \<and>
    (\<exists>prf. tree_consistency_proof toy_hash t' 1 2 = Some prf \<and>
       verify_consistency toy_hash 1 2 (toy_leaf 1) (toy_leaf 2) prf))"
  using append_keeps [of "\<lparr>leaves = [toy_leaf 1]\<rparr>" "toy_leaf 2" 1 "\<lparr>leaves = [toy_leaf 1, toy_leaf 2]\<rparr>" toy_hash]
  by (simp add: tree_append_def tree_root_def tree_len_def toy_mth numeral_2_eq_2 [symmetric])

lemma strip_zeros_nonzero_le: "snd (strip_zeros_nonzero f s) \<le> s"
proof (induction f s rule: strip_zeros_nonzero.induct)
  case (1 f s)
  show ?case
  proof (cases "even f \<and> f \<noteq> 0")
    case True
    with 1 have "snd (strip_zeros_nonzero (f div 2) (s div 2)) \<le> s div 2" by simp
    with True show ?thesis by (subst strip_zeros_nonzero.simps) simp
  next
    case False
    then show ?thesis by (subst strip_zeros_nonzero.simps) auto
  qed
qed

lemma inclusion_loop_length:
  "inclusion_loop H root f s r ps = Some True \<Longrightarrow> ps \<noteq> [] \<Longrightarrow> 2 ^ (length ps - 1) \<le> s"
proof (induction ps arbitrary: f s r)
  case (Cons p ps)
  then have s: "0 < s" by (auto split: if_splits)
  obtain f' s' r' where rec: "inclusion_loop H root f' (s' div 2) r' ps = Some True" and le: "s' \<le> s"
  proof -
    obtain g t where g: "strip_zeros_nonzero f s = (g, t)" by fastforce
    consider "odd f" | "even f" "f = s" | "even f" "f \<noteq> s" by blast
    then show ?thesis
    proof cases
      case 1
      then show ?thesis using Cons.prems(1) s by (intro that [of "f div 2" s]) auto
    next
      case 2
      then show ?thesis
        using Cons.prems(1) s g strip_zeros_nonzero_le [of f s] by (intro that [of "g div 2" t]) (auto simp: strip_zeros_eq)
    next
      case 3
      then show ?thesis using Cons.prems(1) s by (intro that [of "f div 2" s]) auto
    qed
  qed
  show ?case
  proof (cases "ps = []")
    case False
    with Cons.IH [OF rec] have "2 ^ (length ps - 1) \<le> s' div 2" by simp
    moreover have "(2 :: nat) ^ length ps = 2 * 2 ^ (length ps - 1)"
      using False by (cases ps) simp_all
    ultimately show ?thesis using le by simp
  qed (use s in simp)
qed simp

text \<open>
  C35. Verification of an inclusion proof always returns, for any leaf, index, size, root and path, the
  loop over the trailing zeros of the index included; it accepts only indices inside the tree and paths
  not longer than the tree is deep.
\<close>

theorem verify_inclusion_total:
  "\<exists>b. verify_inclusion H leaf m n root ps = Some b \<and>
     (b \<longrightarrow> m < n \<and> (ps = [] \<or> 2 ^ (length ps - 1) < n))"
proof -
  obtain b where b: "verify_inclusion H leaf m n root ps = Some b"
    unfolding verify_inclusion_walk by blast
  have "m < n \<and> (ps = [] \<or> 2 ^ (length ps - 1) < n)" if b
    using b that inclusion_loop_length [of H root m "n - 1" leaf ps]
    by (cases "ps = []") (auto simp: verify_inclusion_def split: if_splits)
  with b show ?thesis by blast
qed

theorem verify_inclusion_total_witness:
  "\<exists>b. verify_inclusion toy_hash [1] 0 2 (node_hash toy_hash [1] [2]) [[2]] = Some b \<and> b \<and> 2 ^ (length [[2 :: u8]] - 1) < (2 :: nat)"
proof -
  have "verify_inclusion toy_hash [1] 0 2 (node_hash toy_hash [1] [2]) [[2]] = Some True"
    by (simp add: verify_inclusion_def)
  with verify_inclusion_total [of toy_hash "[1]" 0 2 "node_hash toy_hash [1] [2]" "[[2]]"] show ?thesis
    by auto
qed

end
