(* ===== verification/Decimal.thy ===== *)
theory Decimal
  imports Prelude
begin

text \<open>
  The decimal formatting and parsing of the standard library that file names and time stamps go
  through: \<open>to_string\<close>, \<open>{:020}\<close>, \<open>str::parse::<u64>\<close> and \<open>str::parse::<i64>\<close>, with
  their round trips.
\<close>

section \<open>Formatting\<close>

fun dec :: "nat \<Rightarrow> string" where
  "dec n = (if n < 10 then [char_of (48 + n)] else dec (n div 10) @ [char_of (48 + n mod 10)])"

declare dec.simps [simp del]

definition pad20 :: "nat \<Rightarrow> string" where
  "pad20 n = replicate (20 - length (dec n)) (CHR ''0'') @ dec n"

definition dec_int :: "int \<Rightarrow> string" where
  "dec_int i = (if i < 0 then CHR ''-'' # dec (nat (- i)) else dec (nat i))"

section \<open>Parsing\<close>

definition digit_val :: "char \<Rightarrow> nat option" where
  "digit_val c = (let n = of_char c in if 48 \<le> n \<and> n \<le> 57 then Some (n - 48) else None)"

fun parse_digits :: "nat \<Rightarrow> string \<Rightarrow> nat option" where
  "parse_digits acc [] = Some acc"
| "parse_digits acc (c # cs) =
     (case digit_val c of None \<Rightarrow> None | Some d \<Rightarrow> parse_digits (acc * 10 + d) cs)"

definition parse_nat :: "string \<Rightarrow> nat option" where
  "parse_nat s = (if s = [] then None else parse_digits 0 s)"

definition parse_u64 :: "string \<Rightarrow> nat option" where
  "parse_u64 s =
     (let ds = (case s of c # cs \<Rightarrow> if c = CHR ''+'' then cs else s | [] \<Rightarrow> [])
      in case parse_nat ds of None \<Rightarrow> None | Some n \<Rightarrow> if n < 2 ^ 64 then Some n else None)"

definition parse_i64 :: "string \<Rightarrow> int option" where
  "parse_i64 s =
     (case s of
        [] \<Rightarrow> None
      | c # cs \<Rightarrow>
          if c = CHR ''-''
          then (case parse_nat cs of None \<Rightarrow> None | Some n \<Rightarrow> if n \<le> 2 ^ 63 then Some (- int n) else None)
          else (case parse_nat (if c = CHR ''+'' then cs else s) of
                  None \<Rightarrow> None | Some n \<Rightarrow> if n < 2 ^ 63 then Some (int n) else None))"

section \<open>Round trips\<close>

lemma digit_val_digit [simp]: "d < 10 \<Longrightarrow> digit_val (char_of (48 + d)) = Some d"
  by (simp add: digit_val_def)

lemma parse_digits_append:
  "parse_digits a (xs @ ys) = (case parse_digits a xs of None \<Rightarrow> None | Some b \<Rightarrow> parse_digits b ys)"
  by (induction xs arbitrary: a) (auto split: option.splits)

lemma parse_digits_zeros [simp]: "parse_digits 0 (replicate k (CHR ''0'') @ xs) = parse_digits 0 xs"
  by (induction k) (auto simp: digit_val_def)

lemma parse_digits_dec [simp]: "parse_digits 0 (dec n) = Some n"
proof (induction n rule: dec.induct)
  case (1 n)
  show ?case
    by (subst dec.simps) (use 1 in \<open>auto simp: parse_digits_append\<close>)
qed

lemma dec_Nil [simp]: "dec n \<noteq> []"
  by (subst dec.simps) auto

lemma dec_inject [simp]: "dec m = dec n \<longleftrightarrow> m = n"
  by (metis option.inject parse_digits_dec)

lemma length_dec:
  assumes "n < 10 ^ Suc k"
  shows "length (dec n) \<le> Suc k"
  using assms
proof (induction k arbitrary: n)
  case 0
  then show ?case by (subst dec.simps) simp
next
  case (Suc k)
  then have "length (dec (n div 10)) \<le> Suc k" by (intro Suc.IH) auto
  then show ?case by (subst dec.simps) simp
qed

lemma hd_dec: "(48 :: nat) \<le> of_char (hd (dec n)) \<and> of_char (hd (dec n)) \<le> (57 :: nat)"
proof (induction n rule: dec.induct)
  case (1 n)
  show ?case
    by (subst (1 2) dec.simps) (use 1 in auto)
qed

lemma hd_dec_not_sign [simp]: "hd (dec n) \<noteq> CHR ''+''" "hd (dec n) \<noteq> CHR ''-''"
  using hd_dec [of n] by auto

lemma parse_nat_dec [simp]: "parse_nat (dec n) = Some n"
  by (simp add: parse_nat_def)

lemma length_pad20: "n < 2 ^ 64 \<Longrightarrow> length (pad20 n) = 20"
  using length_dec [of n 19] by (simp add: pad20_def)

lemma parse_u64_pad20_eq: "parse_u64 (pad20 n) = (if n < 2 ^ 64 then Some n else None)"
proof -
  obtain c cs where s: "pad20 n = c # cs" by (cases "pad20 n") (auto simp: pad20_def)
  moreover have "c \<noteq> CHR ''+''"
    using s hd_dec_not_sign(1) [of n]
    by (cases "20 - length (dec n)") (auto simp: pad20_def hd_append split: if_splits dest!: arg_cong [of _ _ hd])
  moreover have "parse_nat (pad20 n) = Some n" by (simp add: parse_nat_def pad20_def)
  ultimately show ?thesis by (simp add: parse_u64_def)
qed

lemma parse_u64_pad20: "n < 2 ^ 64 \<Longrightarrow> parse_u64 (pad20 n) = Some n"
  by (simp add: parse_u64_pad20_eq)

lemma pad20_inject [simp]: "pad20 m = pad20 n \<longleftrightarrow> m = n"
proof
  assume "pad20 m = pad20 n"
  then have "parse_digits 0 (pad20 m) = parse_digits 0 (pad20 n)" by simp
  then show "m = n" by (simp add: pad20_def)
qed simp

lemma parse_i64_dec_int:
  assumes "- (2 ^ 63) \<le> i" "i < 2 ^ 63"
  shows "parse_i64 (dec_int i) = Some i"
proof (cases "i < 0")
  case True
  then show ?thesis using assms by (auto simp: parse_i64_def dec_int_def)
next
  case False
  obtain c cs where "dec (nat i) = c # cs" by (cases "dec (nat i)") auto
  then show ?thesis
    using False assms hd_dec_not_sign [of "nat i"] parse_nat_dec [of "nat i"]
    by (auto simp: parse_i64_def dec_int_def)
qed

text \<open>\<open>str::trim\<close> on ASCII strings.\<close>

definition ascii_space :: "char \<Rightarrow> bool" where
  "ascii_space c = (let n = (of_char c :: nat) in n = 32 \<or> (9 \<le> n \<and> n \<le> 13))"

definition trim :: "string \<Rightarrow> string" where
  "trim s = rev (dropWhile ascii_space (rev (dropWhile ascii_space s)))"

end
