(* ===== verification/Disk.thy ===== *)
theory Disk
  imports Decimal
begin

text \<open>
  The operations of \<open>std::fs\<close> that the audit store and the anchor queue use. A file is named by
  its directory below the root and its name; a disk is an association list, whose order stands
  for the unspecified order of \<open>read_dir\<close>. \<open>create_new\<close> takes a fault oracle: the operating
  system may refuse to open the new file, or fail after part of the bytes was written.
\<close>

type_synonym fpath = "string \<times> string"
type_synonym disk = "(fpath \<times> bytes) list"

datatype io_error = NotFound | OtherIo

datatype fault = Open_fails | Write_stops nat

datatype create_error = Exists | Failed io_error

definition disk_create_new ::
  "(fpath \<Rightarrow> fault option) \<Rightarrow> fpath \<Rightarrow> bytes \<Rightarrow> disk \<Rightarrow> (create_error, unit) result \<times> disk" where
  "disk_create_new F p bs d =
     (if map_of d p \<noteq> None then (Inl Exists, d)
      else case F p of
             None \<Rightarrow> (Inr (), (p, bs) # d)
           | Some Open_fails \<Rightarrow> (Inl (Failed OtherIo), d)
           | Some (Write_stops n) \<Rightarrow> (Inl (Failed OtherIo), (p, take n bs) # d))"

definition disk_read :: "disk \<Rightarrow> fpath \<Rightarrow> (io_error, bytes) result" where
  "disk_read d p = (case map_of d p of None \<Rightarrow> Inl NotFound | Some bs \<Rightarrow> Inr bs)"

definition disk_exists :: "disk \<Rightarrow> fpath \<Rightarrow> bool" where
  "disk_exists d p \<longleftrightarrow> map_of d p \<noteq> None"

definition disk_remove :: "fpath \<Rightarrow> disk \<Rightarrow> disk" where
  "disk_remove p d = filter (\<lambda>(q, _). q \<noteq> p) d"

definition disk_read_dir :: "disk \<Rightarrow> string \<Rightarrow> string list" where
  "disk_read_dir d dir = map (\<lambda>((_, name), _). name) (filter (\<lambda>((x, _), _). x = dir) d)"

definition strip_suffix :: "string \<Rightarrow> string \<Rightarrow> string option" where
  "strip_suffix suf s =
     (if length suf \<le> length s \<and> drop (length s - length suf) s = suf
      then Some (take (length s - length suf) s) else None)"

section \<open>Laws\<close>

lemma strip_suffix_append [simp]: "strip_suffix suf (s @ suf) = Some s"
  by (simp add: strip_suffix_def)

lemma strip_suffix_Some: "strip_suffix suf s = Some t \<longleftrightarrow> s = t @ suf"
  by (auto simp: strip_suffix_def) (metis append_take_drop_id)

text \<open>A created file holds its bytes, no other file changes, and an existing file is never touched.\<close>

lemma disk_create_new_map:
  assumes "disk_create_new F p bs d = (r, d')"
  shows "q \<noteq> p \<Longrightarrow> map_of d' q = map_of d q"
    and "r = Inr () \<Longrightarrow> map_of d' p = Some bs \<and> map_of d p = None"
    and "map_of d p = Some old \<Longrightarrow> r = Inl Exists \<and> d' = d"
    and "r = Inl Exists \<Longrightarrow> d' = d"
  using assms by (auto simp: disk_create_new_def split: if_splits option.splits fault.splits)

lemma disk_create_new_refused:
  assumes "disk_create_new (\<lambda>p. if refuse p then Some Open_fails else None) p bs d = (r, d')"
  obtains "r = Inr ()" "d' = (p, bs) # d" "map_of d p = None"
  | "r \<noteq> Inr ()" "d' = d"
  using assms by (auto simp: disk_create_new_def split: if_splits)

lemma disk_remove_map [simp]: "map_of (disk_remove p d) q = (if q = p then None else map_of d q)"
  by (induction d) (auto simp: disk_remove_def)

lemma disk_remove_distinct: "distinct (map fst d) \<Longrightarrow> distinct (map fst (disk_remove p d))"
  by (induction d) (auto simp: disk_remove_def)

lemma set_disk_read_dir: "set (disk_read_dir d dir) = {name. (dir, name) \<in> fst ` set d}"
  by (force simp: disk_read_dir_def)

lemma in_read_dir_iff: "name \<in> set (disk_read_dir d dir) \<longleftrightarrow> map_of d (dir, name) \<noteq> None"
  by (simp add: set_disk_read_dir map_of_eq_None_iff)

lemma disk_read_dir_Cons [simp]:
  "disk_read_dir (((x, name), bs) # d) dir = (if x = dir then name # disk_read_dir d dir else disk_read_dir d dir)"
  by (simp add: disk_read_dir_def)

end
