(* ===== verification/Composite.thy ===== *)
theory Composite
  imports Decimal
begin

text \<open>
  \<open>crates/ferro-crypto/src/composite.rs\<close>: composite Ed25519 + ML-DSA-65 signatures. The
  primitives of the crates \<open>sha3\<close>, \<open>sha2\<close>, \<open>ed25519-dalek\<close>, \<open>fips204\<close>,
  \<open>der\<close>, \<open>hex\<close> and \<open>base64\<close> are the fields of the record \<open>prims\<close>, an argument of
  every operation that uses them; keys are represented by their byte encodings. A hedged
  signature takes the 32 random bytes as an argument.
\<close>

section \<open>Primitives\<close>

record prims =
  sha3_384 :: "bytes \<Rightarrow> bytes"
  sha3_256 :: "bytes \<Rightarrow> bytes"
  sha384 :: "bytes \<Rightarrow> bytes"
  hex_encode :: "bytes \<Rightarrow> string"
  b64url_encode :: "bytes \<Rightarrow> string"
  b64url_decode :: "string \<Rightarrow> (string, bytes) result"
  ed_verifying_key :: "bytes \<Rightarrow> bytes"
  ed_sign :: "bytes \<Rightarrow> bytes \<Rightarrow> bytes"
  ed_from_bytes :: "bytes \<Rightarrow> (string, bytes) result"
  ed_verify_strict :: "bytes \<Rightarrow> bytes \<Rightarrow> bytes \<Rightarrow> bool"
  ml_keygen :: "bytes \<Rightarrow> bytes \<times> bytes"
  ml_sign :: "bytes \<Rightarrow> bytes \<Rightarrow> bytes \<Rightarrow> bytes \<Rightarrow> (string, bytes) result"
  ml_from_bytes :: "bytes \<Rightarrow> (string, bytes) result"
  ml_verify :: "bytes \<Rightarrow> bytes \<Rightarrow> bytes \<Rightarrow> bytes \<Rightarrow> bool"

text \<open>\<open>str_bytes\<close> is a byte-string literal: the code points of an ASCII string.\<close>

definition str_bytes :: "string \<Rightarrow> bytes" where
  "str_bytes s = map of_char s"

section \<open>Constants and errors\<close>

definition COMPOSITE_JOSE_ALG :: string where
  "COMPOSITE_JOSE_ALG = ''MLDSA65+Ed25519''"

definition COMPOSITE_OID :: string where
  "COMPOSITE_OID = ''2.16.840.1.114027.80.8.1.7''"

definition DOMAIN_TAG :: bytes where
  "DOMAIN_TAG = str_bytes ''FERROGATE-COMPOSITE-v1''"

definition ED25519_PK_LEN :: nat where
  "ED25519_PK_LEN = 32"

definition ED25519_SIG_LEN :: nat where
  "ED25519_SIG_LEN = 64"

definition MLDSA65_PK_LEN :: nat where
  "MLDSA65_PK_LEN = 1952"

definition MLDSA65_SIG_LEN :: nat where
  "MLDSA65_SIG_LEN = 3309"

definition COMPOSITE_PK_LEN :: nat where
  "COMPOSITE_PK_LEN = ED25519_PK_LEN + MLDSA65_PK_LEN"

definition COMPOSITE_SIG_LEN :: nat where
  "COMPOSITE_SIG_LEN = ED25519_SIG_LEN + MLDSA65_SIG_LEN"

definition TRANSCRIPT_HASH_LEN :: nat where
  "TRANSCRIPT_HASH_LEN = 48"

datatype CompositeError =
    ClassicalFailed
  | PqcFailed
  | KeyGen string
  | Sign string
  | Decode string
  | Encode string
  | InteropDomainCollision nat
  | Pkcs8 string

fun CompositeError_display :: "CompositeError \<Rightarrow> string" where
  "CompositeError_display ClassicalFailed = ''classical signature did not verify''"
| "CompositeError_display PqcFailed = ''pqc signature did not verify''"
| "CompositeError_display (KeyGen e) = ''ML-DSA keygen failed: '' @ e"
| "CompositeError_display (Sign e) = ''ML-DSA sign failed: '' @ e"
| "CompositeError_display (Decode e) = ''malformed encoded form: '' @ e"
| "CompositeError_display (Encode e) = ''encoder failed: '' @ e"
| "CompositeError_display (InteropDomainCollision n) =
     ''interop signing refused: message is '' @ dec n @ '' bytes, the composite transcript-hash length''"
| "CompositeError_display (Pkcs8 e) = ''malformed Ed25519 PKCS#8: '' @ e"

section \<open>Transcripts\<close>

text \<open>The bytes fed to the hash. The length of a slice fits a \<open>u64\<close>.\<close>

definition transcript_input :: "bytes \<Rightarrow> bytes \<Rightarrow> bytes" where
  "transcript_input ctx msg = DOMAIN_TAG @ be 8 (length ctx) @ ctx @ msg"

definition transcript_hash :: "prims \<Rightarrow> bytes \<Rightarrow> bytes \<Rightarrow> bytes" where
  "transcript_hash P ctx msg = sha3_384 P (transcript_input ctx msg)"

definition derive_subseed :: "prims \<Rightarrow> bytes \<Rightarrow> bytes \<Rightarrow> bytes" where
  "derive_subseed P seed tag = sha3_256 P (tag @ seed)"

definition reject_transcript_sized :: "bytes \<Rightarrow> (CompositeError, unit) result" where
  "reject_transcript_sized msg =
     (if length msg = TRANSCRIPT_HASH_LEN then Inl (InteropDomainCollision (length msg)) else Inr ())"

section \<open>PKCS#8\<close>

definition ED25519_PKCS8_PREFIX :: bytes where
  "ED25519_PKCS8_PREFIX =
     [0x30, 0x2e, 0x02, 0x01, 0x00, 0x30, 0x05, 0x06, 0x03, 0x2b, 0x65, 0x70, 0x04, 0x22, 0x04, 0x20]"

definition ED25519_PKCS8_LEN :: nat where
  "ED25519_PKCS8_LEN = length ED25519_PKCS8_PREFIX + ED25519_PK_LEN"

definition ed25519_pkcs8_from_seed :: "bytes \<Rightarrow> bytes" where
  "ed25519_pkcs8_from_seed seed = ED25519_PKCS8_PREFIX @ seed"

definition ed25519_public_from_pkcs8 :: "prims \<Rightarrow> bytes \<Rightarrow> (CompositeError, bytes) result" where
  "ed25519_public_from_pkcs8 P der =
     (if length der \<noteq> ED25519_PKCS8_LEN
      then Inl (Pkcs8 (''expected '' @ dec ED25519_PKCS8_LEN @ '' bytes, got '' @ dec (length der)))
      else if take (length ED25519_PKCS8_PREFIX) der \<noteq> ED25519_PKCS8_PREFIX
      then Inl (Pkcs8 ''not an RFC 8410 Ed25519 PKCS#8 v1 header'')
      else Inr (ed_verifying_key P (drop (length ED25519_PKCS8_PREFIX) der)))"

section \<open>Keys and signatures\<close>

record composite_public_key =
  pk_ed25519 :: bytes
  pk_mldsa65 :: bytes

record composite_secret_key =
  sk_ed25519 :: bytes
  sk_mldsa65 :: bytes

record composite_signature =
  classical :: bytes
  pqc :: bytes

definition pk_to_concat_bytes :: "composite_public_key \<Rightarrow> bytes" where
  "pk_to_concat_bytes pk = pk_ed25519 pk @ pk_mldsa65 pk"

definition fingerprint_hex :: "prims \<Rightarrow> composite_public_key \<Rightarrow> string" where
  "fingerprint_hex P pk = hex_encode P (sha384 P (pk_to_concat_bytes pk))"

definition pk_from_concat_bytes :: "prims \<Rightarrow> bytes \<Rightarrow> (CompositeError, composite_public_key) result" where
  "pk_from_concat_bytes P bs =
     (if length bs \<noteq> COMPOSITE_PK_LEN
      then Inl (Decode (''composite public key must be '' @ dec COMPOSITE_PK_LEN @ '' bytes, got '' @ dec (length bs)))
      else
        and_then (map_err (\<lambda>e. Decode (''ed25519 pk: '' @ e)) (ed_from_bytes P (take ED25519_PK_LEN bs))) (\<lambda>vk.
        and_then (map_err (\<lambda>e. Decode (''ml-dsa-65 pk: '' @ e)) (ml_from_bytes P (drop ED25519_PK_LEN bs))) (\<lambda>pq.
        Inr \<lparr>pk_ed25519 = vk, pk_mldsa65 = pq\<rparr>)))"

definition composite_verify ::
  "prims \<Rightarrow> composite_public_key \<Rightarrow> bytes \<Rightarrow> bytes \<Rightarrow> composite_signature \<Rightarrow> (CompositeError, unit) result" where
  "composite_verify P pk ctx msg sig =
     (let h = transcript_hash P ctx msg
      in if \<not> ed_verify_strict P (pk_ed25519 pk) h (classical sig) then Inl ClassicalFailed
         else if length (pqc sig) \<noteq> MLDSA65_SIG_LEN then Inl PqcFailed
         else if \<not> ml_verify P (pk_mldsa65 pk) h (pqc sig) [] then Inl PqcFailed
         else Inr ())"

definition verify_interop_ed25519 ::
  "prims \<Rightarrow> composite_public_key \<Rightarrow> bytes \<Rightarrow> bytes \<Rightarrow> (CompositeError, unit) result" where
  "verify_interop_ed25519 P pk msg sig =
     and_then (reject_transcript_sized msg) (\<lambda>_.
     if ed_verify_strict P (pk_ed25519 pk) msg sig then Inr () else Inl ClassicalFailed)"

definition verify_interop_mldsa65 ::
  "prims \<Rightarrow> composite_public_key \<Rightarrow> bytes \<Rightarrow> bytes \<Rightarrow> bytes \<Rightarrow> (CompositeError, unit) result" where
  "verify_interop_mldsa65 P pk ctx msg sig =
     and_then (reject_transcript_sized msg) (\<lambda>_.
     if length sig \<noteq> MLDSA65_SIG_LEN then Inl PqcFailed
     else if \<not> ml_verify P (pk_mldsa65 pk) msg sig ctx then Inl PqcFailed
     else Inr ())"

text \<open>\<open>generate\<close> draws the two seeds from the operating system.\<close>

definition composite_generate ::
  "prims \<Rightarrow> bytes \<Rightarrow> (string, bytes \<times> bytes) result \<Rightarrow>
   (CompositeError, composite_secret_key \<times> composite_public_key) result" where
  "composite_generate P ed_seed keygen =
     and_then (map_err KeyGen keygen) (\<lambda>(pqc_public, pqc_secret).
     Inr (\<lparr>sk_ed25519 = ed_seed, sk_mldsa65 = pqc_secret\<rparr>,
          \<lparr>pk_ed25519 = ed_verifying_key P ed_seed, pk_mldsa65 = pqc_public\<rparr>))"

definition from_seed :: "prims \<Rightarrow> bytes \<Rightarrow> composite_secret_key \<times> composite_public_key" where
  "from_seed P seed =
     (let ed_seed = derive_subseed P seed (str_bytes ''ferrogate-composite-seed/ed25519'');
          ml_seed = derive_subseed P seed (str_bytes ''ferrogate-composite-seed/ml-dsa-65'');
          (pqc_public, pqc_secret) = ml_keygen P ml_seed
      in (\<lparr>sk_ed25519 = ed_seed, sk_mldsa65 = pqc_secret\<rparr>,
          \<lparr>pk_ed25519 = ed_verifying_key P ed_seed, pk_mldsa65 = pqc_public\<rparr>))"

definition composite_sign ::
  "prims \<Rightarrow> bytes \<Rightarrow> composite_secret_key \<Rightarrow> bytes \<Rightarrow> bytes \<Rightarrow> (CompositeError, composite_signature) result" where
  "composite_sign P rnd sk ctx msg =
     (let h = transcript_hash P ctx msg
      in and_then (map_err Sign (ml_sign P (sk_mldsa65 sk) rnd h [])) (\<lambda>sig.
         Inr \<lparr>classical = ed_sign P (sk_ed25519 sk) h, pqc = sig\<rparr>))"

definition to_ed25519_pkcs8_der :: "composite_secret_key \<Rightarrow> bytes" where
  "to_ed25519_pkcs8_der sk = ed25519_pkcs8_from_seed (sk_ed25519 sk)"

definition sign_interop_ed25519 ::
  "prims \<Rightarrow> composite_secret_key \<Rightarrow> bytes \<Rightarrow> (CompositeError, bytes) result" where
  "sign_interop_ed25519 P sk msg =
     and_then (reject_transcript_sized msg) (\<lambda>_. Inr (ed_sign P (sk_ed25519 sk) msg))"

definition sign_interop_mldsa65 ::
  "prims \<Rightarrow> bytes \<Rightarrow> composite_secret_key \<Rightarrow> bytes \<Rightarrow> bytes \<Rightarrow> (CompositeError, bytes) result" where
  "sign_interop_mldsa65 P rnd sk ctx msg =
     and_then (reject_transcript_sized msg) (\<lambda>_. map_err Sign (ml_sign P (sk_mldsa65 sk) rnd msg ctx))"

definition sign_interop_mldsa65_deterministic ::
  "prims \<Rightarrow> composite_secret_key \<Rightarrow> bytes \<Rightarrow> bytes \<Rightarrow> (CompositeError, bytes) result" where
  "sign_interop_mldsa65_deterministic P sk ctx msg =
     and_then (reject_transcript_sized msg) (\<lambda>_.
     map_err Sign (ml_sign P (sk_mldsa65 sk) (replicate 32 0) msg ctx))"

definition sig_to_concat_bytes :: "composite_signature \<Rightarrow> bytes" where
  "sig_to_concat_bytes sig = classical sig @ pqc sig"

definition sig_from_concat_bytes :: "bytes \<Rightarrow> (CompositeError, composite_signature) result" where
  "sig_from_concat_bytes bs =
     (if length bs \<noteq> COMPOSITE_SIG_LEN
      then Inl (Decode (''composite signature must be '' @ dec COMPOSITE_SIG_LEN @ '' bytes, got '' @ dec (length bs)))
      else Inr \<lparr>classical = take ED25519_SIG_LEN bs, pqc = drop ED25519_SIG_LEN bs\<rparr>)"

text \<open>The DER form: the codec of the crate \<open>der\<close> for \<open>CompositeSigAsn\<close> is the pair of arguments
  \<open>to_der\<close> and \<open>from_der\<close>.\<close>

record composite_sig_asn =
  asn_algorithm :: string
  asn_classical :: bytes
  asn_pqc :: bytes

definition sig_to_der ::
  "(composite_sig_asn \<Rightarrow> (string, bytes) result) \<Rightarrow> composite_signature \<Rightarrow> (CompositeError, bytes) result" where
  "sig_to_der to_der sig =
     map_err Encode (to_der \<lparr>asn_algorithm = COMPOSITE_OID, asn_classical = classical sig, asn_pqc = pqc sig\<rparr>)"

definition sig_from_der ::
  "(bytes \<Rightarrow> (string, composite_sig_asn) result) \<Rightarrow> bytes \<Rightarrow> (CompositeError, composite_signature) result" where
  "sig_from_der from_der der =
     and_then (map_err (\<lambda>e. Decode (''der: '' @ e)) (from_der der)) (\<lambda>asn.
     if asn_algorithm asn \<noteq> COMPOSITE_OID
     then Inl (Decode (''unexpected algorithm OID: '' @ asn_algorithm asn))
     else if length (asn_classical asn) \<noteq> ED25519_SIG_LEN
     then Inl (Decode (''classical OCTET STRING must be '' @ dec ED25519_SIG_LEN @ '' bytes''))
     else if length (asn_pqc asn) \<noteq> MLDSA65_SIG_LEN
     then Inl (Decode (''pqc OCTET STRING must be '' @ dec MLDSA65_SIG_LEN @ '' bytes''))
     else Inr \<lparr>classical = asn_classical asn, pqc = asn_pqc asn\<rparr>)"

definition to_jws_base64url :: "prims \<Rightarrow> composite_signature \<Rightarrow> string" where
  "to_jws_base64url P sig = b64url_encode P (sig_to_concat_bytes sig)"

definition from_jws_base64url :: "prims \<Rightarrow> string \<Rightarrow> (CompositeError, composite_signature) result" where
  "from_jws_base64url P s =
     and_then (map_err (\<lambda>e. Decode (''base64url: '' @ e)) (b64url_decode P s)) sig_from_concat_bytes"

section \<open>Properties\<close>

text \<open>What the documentation of the crates promises: output lengths, signatures by a generated key
  verify, decoding inverts encoding.\<close>

definition prims_ok :: "prims \<Rightarrow> bool" where
  "prims_ok P \<longleftrightarrow>
     (\<forall>x. length (sha3_384 P x) = TRANSCRIPT_HASH_LEN) \<and>
     (\<forall>seed m. length (ed_sign P seed m) = ED25519_SIG_LEN \<and>
        ed_verify_strict P (ed_verifying_key P seed) m (ed_sign P seed m)) \<and>
     (\<forall>seed pk sk rnd m ctx s. ml_keygen P seed = (pk, sk) \<longrightarrow> ml_sign P sk rnd m ctx = Inr s \<longrightarrow>
        length s = MLDSA65_SIG_LEN \<and> ml_verify P pk m s ctx) \<and>
     (\<forall>bs. b64url_decode P (b64url_encode P bs) = Inr bs)"

text \<open>Decoding a public key returns the key whose encoding was given.\<close>

definition key_codec_ok :: "prims \<Rightarrow> bool" where
  "key_codec_ok P \<longleftrightarrow>
     (\<forall>bs vk. ed_from_bytes P bs = Inr vk \<longrightarrow> vk = bs) \<and> (\<forall>bs vk. ml_from_bytes P bs = Inr vk \<longrightarrow> vk = bs)"

definition composite_key_ok :: "prims \<Rightarrow> composite_public_key \<Rightarrow> bool" where
  "composite_key_ok P pk \<longleftrightarrow>
     length (pk_ed25519 pk) = ED25519_PK_LEN \<and> length (pk_mldsa65 pk) = MLDSA65_PK_LEN \<and>
     ed_from_bytes P (pk_ed25519 pk) = Inr (pk_ed25519 pk) \<and> ml_from_bytes P (pk_mldsa65 pk) = Inr (pk_mldsa65 pk)"

lemma pk_concat_roundtrip: "composite_key_ok P pk \<Longrightarrow> pk_from_concat_bytes P (pk_to_concat_bytes pk) = Inr pk"
  by (simp add: composite_key_ok_def pk_to_concat_bytes_def pk_from_concat_bytes_def COMPOSITE_PK_LEN_def)

lemma composite_verify_iff:
  "composite_verify P pk ctx msg sig = Inr () \<longleftrightarrow>
     ed_verify_strict P (pk_ed25519 pk) (transcript_hash P ctx msg) (classical sig) \<and>
     length (pqc sig) = MLDSA65_SIG_LEN \<and>
     ml_verify P (pk_mldsa65 pk) (transcript_hash P ctx msg) (pqc sig) []"
  by (simp add: composite_verify_def Let_def)

lemma transcript_input_inject:
  assumes "transcript_input ctx msg = transcript_input ctx' msg'"
    and "length ctx < 2 ^ 64" "length ctx' < 2 ^ 64"
  shows "ctx = ctx' \<and> msg = msg'"
proof -
  have eq: "be 8 (length ctx) @ ctx @ msg = be 8 (length ctx') @ ctx' @ msg'"
    using assms(1) by (simp add: transcript_input_def)
  then have "be 8 (length ctx) = be 8 (length ctx')" "ctx @ msg = ctx' @ msg'" by simp_all
  moreover have "length ctx = length ctx'"
    using assms(2,3) calculation(1) by (intro be_inject [of _ 8]) simp_all
  ultimately show ?thesis by simp
qed

lemma sig_concat_roundtrip:
  "length (classical sig) = ED25519_SIG_LEN \<Longrightarrow> length (pqc sig) = MLDSA65_SIG_LEN \<Longrightarrow>
   sig_from_concat_bytes (sig_to_concat_bytes sig) = Inr sig"
  by (simp add: sig_from_concat_bytes_def sig_to_concat_bytes_def COMPOSITE_SIG_LEN_def)

lemma composite_sign_lengths:
  assumes P: "prims_ok P" and "from_seed P seed = (sk, pk)" "composite_sign P rnd sk ctx msg = Inr sig"
  shows "length (classical sig) = ED25519_SIG_LEN" "length (pqc sig) = MLDSA65_SIG_LEN"
    "composite_verify P pk ctx msg sig = Inr ()"
proof -
  obtain ml_seed where k: "pk_ed25519 pk = ed_verifying_key P (sk_ed25519 sk)"
    "ml_keygen P ml_seed = (pk_mldsa65 pk, sk_mldsa65 sk)"
    using assms(2) by (auto simp: from_seed_def Let_def split: prod.splits)
  have s: "classical sig = ed_sign P (sk_ed25519 sk) (transcript_hash P ctx msg)"
    "ml_sign P (sk_mldsa65 sk) rnd (transcript_hash P ctx msg) [] = Inr (pqc sig)"
    using assms(3) by (auto simp: composite_sign_def Let_def result_simps)
  have ml: "length (pqc sig) = MLDSA65_SIG_LEN \<and> ml_verify P (pk_mldsa65 pk) (transcript_hash P ctx msg) (pqc sig) []"
    using P k(2) s(2) unfolding prims_ok_def by blast
  have ed: "length (classical sig) = ED25519_SIG_LEN"
    "ed_verify_strict P (pk_ed25519 pk) (transcript_hash P ctx msg) (classical sig)"
    using P k(1) s(1) by (simp_all add: prims_ok_def)
  show "length (classical sig) = ED25519_SIG_LEN" "length (pqc sig) = MLDSA65_SIG_LEN"
    "composite_verify P pk ctx msg sig = Inr ()"
    using ml ed by (simp_all add: composite_verify_iff)
qed

text \<open>C21. A signature made with a key derived from a seed verifies under the public half for the same
  context and message, and survives the JWS and DER encodings.\<close>

theorem composite_roundtrip:
  assumes "prims_ok P" "from_seed P seed = (sk, pk)" "composite_sign P rnd sk ctx msg = Inr sig"
    and "\<And>c q. length c = ED25519_SIG_LEN \<Longrightarrow> length q = MLDSA65_SIG_LEN \<Longrightarrow>
      and_then (to_der \<lparr>asn_algorithm = COMPOSITE_OID, asn_classical = c, asn_pqc = q\<rparr>) from_der =
      Inr \<lparr>asn_algorithm = COMPOSITE_OID, asn_classical = c, asn_pqc = q\<rparr>"
  shows "composite_verify P pk ctx msg sig = Inr () \<and>
    from_jws_base64url P (to_jws_base64url P sig) = Inr sig \<and>
    and_then (sig_to_der to_der sig) (sig_from_der from_der) = Inr sig"
proof -
  note len = composite_sign_lengths [OF assms(1-3)]
  obtain der where "to_der \<lparr>asn_algorithm = COMPOSITE_OID, asn_classical = classical sig, asn_pqc = pqc sig\<rparr> = Inr der"
    "from_der der = Inr \<lparr>asn_algorithm = COMPOSITE_OID, asn_classical = classical sig, asn_pqc = pqc sig\<rparr>"
    using assms(4) [OF len(1,2)] by (auto simp: and_then_Inr_iff)
  then show ?thesis using len assms(1)
    by (simp add: from_jws_base64url_def to_jws_base64url_def prims_ok_def sig_concat_roundtrip
        sig_to_der_def sig_from_der_def)
qed

lemma composite_verify_binds:
  assumes "composite_verify P pk ctx msg sig = Inr ()" "composite_verify P pk ctx' msg' sig = Inr ()"
    and "length ctx < 2 ^ 64" "length ctx' < 2 ^ 64" "(ctx, msg) \<noteq> (ctx', msg')"
  shows "(\<exists>h h'. h \<noteq> h' \<and>
      ed_verify_strict P (pk_ed25519 pk) h (classical sig) \<and> ed_verify_strict P (pk_ed25519 pk) h' (classical sig) \<and>
      ml_verify P (pk_mldsa65 pk) h (pqc sig) [] \<and> ml_verify P (pk_mldsa65 pk) h' (pqc sig) []) \<or>
    (transcript_input ctx msg \<noteq> transcript_input ctx' msg' \<and>
      sha3_384 P (transcript_input ctx msg) = sha3_384 P (transcript_input ctx' msg'))"
proof -
  have "transcript_input ctx msg \<noteq> transcript_input ctx' msg'"
    using transcript_input_inject [of ctx msg ctx' msg'] assms(3-5) by blast
  then show ?thesis
    using assms(1,2) unfolding composite_verify_iff transcript_hash_def by blast
qed

text \<open>C10. Both halves must verify (the AND combiner), and both cover the context and the message: when a
  composite signature is accepted for two different pairs of context and message, each half was accepted
  for two different digests, or the two pairs are a collision of the digest.\<close>

theorem composite_binds:
  assumes "composite_verify P pk ctx msg sig = Inr ()" "composite_verify P pk ctx' msg' sig = Inr ()"
    and "length ctx < 2 ^ 64" "length ctx' < 2 ^ 64" "(ctx, msg) \<noteq> (ctx', msg')"
  shows "(\<exists>h h'. h \<noteq> h' \<and>
      ed_verify_strict P (pk_ed25519 pk) h (classical sig) \<and> ed_verify_strict P (pk_ed25519 pk) h' (classical sig) \<and>
      ml_verify P (pk_mldsa65 pk) h (pqc sig) [] \<and> ml_verify P (pk_mldsa65 pk) h' (pqc sig) []) \<or>
    (transcript_input ctx msg \<noteq> transcript_input ctx' msg' \<and>
      sha3_384 P (transcript_input ctx msg) = sha3_384 P (transcript_input ctx' msg'))"
  using assms by (rule composite_verify_binds)

text \<open>The interoperable signing and verification entry points never touch a transcript hash: on the
  digest of any composite transcript each of them returns \<open>InteropDomainCollision\<close>.\<close>

theorem interop_disjoint:
  assumes "prims_ok P"
  shows "let h = transcript_hash P ctx msg; refused = InteropDomainCollision 48 in
    sign_interop_ed25519 P sk h = Inl refused \<and> sign_interop_mldsa65 P rnd sk c h = Inl refused \<and>
    sign_interop_mldsa65_deterministic P sk c h = Inl refused \<and>
    verify_interop_ed25519 P pk h s = Inl refused \<and> verify_interop_mldsa65 P pk c h s' = Inl refused"
  using assms
  by (simp add: Let_def prims_ok_def reject_transcript_sized_def transcript_hash_def TRANSCRIPT_HASH_LEN_def
      sign_interop_ed25519_def sign_interop_mldsa65_def sign_interop_mldsa65_deterministic_def
      verify_interop_ed25519_def verify_interop_mldsa65_def)

text \<open>The public key behind an exported PKCS#8 key is the Ed25519 half of the composite public key, and
  a malformed header or length is rejected.\<close>

theorem pkcs8_roundtrip:
  assumes "from_seed P seed = (sk, pk)" "\<And>x. length (sha3_256 P x) = 32"
  shows "ed25519_public_from_pkcs8 P (to_ed25519_pkcs8_der sk) = Inr (pk_ed25519 pk) \<and>
    (\<forall>der k. ed25519_public_from_pkcs8 P der = Inr k \<longrightarrow>
       (\<exists>s. length s = 32 \<and> der = ed25519_pkcs8_from_seed s \<and> k = ed_verifying_key P s))"
proof
  have "length (sk_ed25519 sk) = 32" "pk_ed25519 pk = ed_verifying_key P (sk_ed25519 sk)"
    using assms by (auto simp: from_seed_def derive_subseed_def Let_def split: prod.splits)
  then show "ed25519_public_from_pkcs8 P (to_ed25519_pkcs8_der sk) = Inr (pk_ed25519 pk)"
    by (simp add: ed25519_public_from_pkcs8_def to_ed25519_pkcs8_der_def ed25519_pkcs8_from_seed_def
        ED25519_PKCS8_LEN_def ED25519_PK_LEN_def)
next
  have "der = ED25519_PKCS8_PREFIX @ drop (length ED25519_PKCS8_PREFIX) der"
    if "take (length ED25519_PKCS8_PREFIX) der = ED25519_PKCS8_PREFIX" for der
    by (metis append_take_drop_id that)
  then show "\<forall>der k. ed25519_public_from_pkcs8 P der = Inr k \<longrightarrow>
       (\<exists>s. length s = 32 \<and> der = ed25519_pkcs8_from_seed s \<and> k = ed_verifying_key P s)"
    by (auto simp: ed25519_public_from_pkcs8_def ed25519_pkcs8_from_seed_def ED25519_PKCS8_LEN_def
        ED25519_PK_LEN_def split: if_splits intro!: exI [of _ "drop (length ED25519_PKCS8_PREFIX) _"])
qed

section \<open>Witnesses\<close>

text \<open>Concrete primitives: a digest of the last 48 bytes, signatures that repeat the message, identity codecs.\<close>

definition toy_prims :: prims where
  "toy_prims = \<lparr>
     sha3_384 = (\<lambda>xs. take 48 (rev xs @ replicate 48 0)),
     sha3_256 = (\<lambda>xs. take 32 (rev xs @ replicate 32 0)),
     sha384 = (\<lambda>xs. take 48 (rev xs @ replicate 48 0)),
     hex_encode = map (\<lambda>b. char_of (unat b)),
     b64url_encode = map (\<lambda>b. char_of (unat b)),
     b64url_decode = (\<lambda>s. Inr (map (\<lambda>c. word_of_nat (of_char c)) s)),
     ed_verifying_key = id,
     ed_sign = (\<lambda>sk m. take 64 (m @ replicate 64 0)),
     ed_from_bytes = Inr,
     ed_verify_strict = (\<lambda>pk m s. s = take 64 (m @ replicate 64 0)),
     ml_keygen = (\<lambda>s. (s, s)),
     ml_sign = (\<lambda>sk rnd m ctx. Inr (take 3309 (m @ replicate 3309 1))),
     ml_from_bytes = Inr,
     ml_verify = (\<lambda>pk m s ctx. s = take 3309 (m @ replicate 3309 1))\<rparr>"

lemma toy_b64: "map ((\<lambda>c. word_of_nat (of_char c)) \<circ> (\<lambda>b. char_of (unat b))) bs = (bs :: bytes)"
proof -
  have "unat b mod 256 = unat b" for b :: u8
    using unsigned_less [of b, where ?'a = nat] by simp
  then show ?thesis by (simp add: map_idI)
qed

lemma toy_prims_ok: "prims_ok toy_prims"
  by (auto simp: toy_b64 prims_ok_def toy_prims_def TRANSCRIPT_HASH_LEN_def ED25519_SIG_LEN_def MLDSA65_SIG_LEN_def)

theorem composite_roundtrip_witness:
  "(let (sk, pk) = from_seed toy_prims [1]; sig = projr (composite_sign toy_prims [] sk [2] [3]) in
    composite_verify toy_prims pk [2] [3] sig = Inr () \<and>
    from_jws_base64url toy_prims (to_jws_base64url toy_prims sig) = Inr sig)"
proof -
  obtain sk pk where s: "from_seed toy_prims [1] = (sk, pk)" by fastforce
  obtain sig where g: "composite_sign toy_prims [] sk [2] [3] = Inr sig"
    by (cases "composite_sign toy_prims [] sk [2] [3]") (simp_all add: composite_sign_def Let_def toy_prims_def)
  show ?thesis
    using composite_roundtrip [OF toy_prims_ok s g, of "\<lambda>asn. Inr (asn_classical asn @ asn_pqc asn)"
        "\<lambda>bs. Inr \<lparr>asn_algorithm = COMPOSITE_OID, asn_classical = take 64 bs, asn_pqc = drop 64 bs\<rparr>"]
    by (simp add: s g ED25519_SIG_LEN_def)
qed

theorem composite_binds_witness:
  "(let pk = \<lparr>pk_ed25519 = [], pk_mldsa65 = []\<rparr>; m = replicate 48 0;
        sig = \<lparr>classical = replicate 64 0, pqc = replicate 48 0 @ replicate 3261 1\<rparr> in
    composite_verify toy_prims pk [1] m sig = Inr () \<and> composite_verify toy_prims pk [2] m sig = Inr () \<and>
    sha3_384 toy_prims (transcript_input [1] m) = sha3_384 toy_prims (transcript_input [2] m))"
proof -
  define pk :: composite_public_key where "pk = \<lparr>pk_ed25519 = [], pk_mldsa65 = []\<rparr>"
  define sig :: composite_signature where
    "sig = \<lparr>classical = replicate 64 0, pqc = replicate 48 0 @ replicate 3261 1\<rparr>"
  have h: "transcript_hash toy_prims [b] (replicate 48 0) = replicate 48 0" for b
    by (simp add: transcript_hash_def toy_prims_def transcript_input_def)
  have r: "replicate 64 (0 :: u8) = replicate 48 0 @ replicate 16 0"
    by (simp flip: replicate_add)
  have v: "composite_verify toy_prims pk [b] (replicate 48 0) sig = Inr ()" for b
    unfolding composite_verify_iff h
    by (simp add: sig_def toy_prims_def MLDSA65_SIG_LEN_def r take_replicate min_def)
  have "transcript_hash toy_prims [1] (replicate 48 0) = transcript_hash toy_prims [2] (replicate 48 0)"
    by (simp add: h)
  then show ?thesis
    using composite_binds [OF v [of 1] v [of 2]] v [of 1] v [of 2]
    by (simp add: Let_def transcript_hash_def pk_def [symmetric] sig_def [symmetric])
qed

theorem interop_disjoint_witness:
  "sign_interop_ed25519 toy_prims \<lparr>sk_ed25519 = [], sk_mldsa65 = []\<rparr> (transcript_hash toy_prims [1] [2]) =
     Inl (InteropDomainCollision 48)"
  using interop_disjoint [OF toy_prims_ok, of "[1]" "[2]" "\<lparr>sk_ed25519 = [], sk_mldsa65 = []\<rparr>"]
  by (simp add: Let_def)

theorem pkcs8_roundtrip_witness:
  "(let (sk, pk) = from_seed toy_prims [1] in
    ed25519_public_from_pkcs8 toy_prims (to_ed25519_pkcs8_der sk) = Inr (pk_ed25519 pk))"
proof -
  obtain sk pk where s: "from_seed toy_prims [1] = (sk, pk)" by fastforce
  have "length (sha3_256 toy_prims x) = 32" for x by (simp add: toy_prims_def)
  from pkcs8_roundtrip [OF s this] show ?thesis by (simp add: s)
qed

definition key_prims :: prims where
  "key_prims = toy_prims\<lparr>ml_keygen := (\<lambda>s. (replicate 1952 0, s))\<rparr>"

lemma key_prims_ok: "prims_ok key_prims"
  by (auto simp: toy_b64 prims_ok_def key_prims_def toy_prims_def TRANSCRIPT_HASH_LEN_def ED25519_SIG_LEN_def
      MLDSA65_SIG_LEN_def)

lemma key_prims_codec: "key_codec_ok key_prims"
  by (simp add: key_codec_ok_def key_prims_def toy_prims_def)

definition toy_root :: "u8 \<Rightarrow> composite_secret_key \<times> composite_public_key" where
  "toy_root b = from_seed key_prims [b]"

lemma toy_root_ok: "composite_key_ok key_prims (snd (toy_root b))"
  by (simp add: toy_root_def composite_key_ok_def from_seed_def Let_def derive_subseed_def key_prims_def toy_prims_def
      ED25519_PK_LEN_def MLDSA65_PK_LEN_def)

end
