(* ===== verification/Tree_Head.thy ===== *)
theory Tree_Head
  imports Composite
begin

text \<open>
  \<open>crates/ferro-audit/src/sth.rs\<close> and \<open>cosign.rs\<close>: signed tree heads, quorum co-signed tree
  heads, their signers and verifiers. The CBOR codec of tree head bodies is the argument
  \<open>C\<close>; a \<open>dyn SthSigner\<close> is the pair of its key id and its signing function.
\<close>

section \<open>Signed tree heads\<close>

record sth_body =
  tree_size :: nat
  root_hash :: bytes
  sth_timestamp :: int

record signed_tree_head =
  body_cbor :: bytes
  signer_kid :: string
  signature_b64 :: string

datatype SthError =
    Encode string
  | Decode string
  | Composite CompositeError
  | SignatureB64 string
  | SignatureInvalid

record body_codec =
  body_to_cbor :: "sth_body \<Rightarrow> (string, bytes) result"
  body_from_cbor :: "bytes \<Rightarrow> (string, sth_body) result"

definition STH_SIGNING_CONTEXT :: bytes where
  "STH_SIGNING_CONTEXT = str_bytes ''ferrogate-sth-v1''"

definition decode_sth_body :: "body_codec \<Rightarrow> bytes \<Rightarrow> (SthError, sth_body) result" where
  "decode_sth_body C bs = map_err SthError.Decode (body_from_cbor C bs)"

definition encode_body :: "body_codec \<Rightarrow> sth_body \<Rightarrow> (SthError, bytes) result" where
  "encode_body C body = map_err SthError.Encode (body_to_cbor C body)"

definition sign_body ::
  "prims \<Rightarrow> body_codec \<Rightarrow> bytes \<Rightarrow> sth_body \<Rightarrow> composite_secret_key \<Rightarrow> (SthError, composite_signature) result" where
  "sign_body P C rnd body sk =
     and_then (encode_body C body) (\<lambda>bs.
     map_err Composite (composite_sign P rnd sk STH_SIGNING_CONTEXT bs))"

definition verify_sth ::
  "prims \<Rightarrow> body_codec \<Rightarrow> signed_tree_head \<Rightarrow> composite_public_key \<Rightarrow> (SthError, sth_body) result" where
  "verify_sth P C sth pk =
     and_then (map_err SignatureB64 (b64url_decode P (signature_b64 sth))) (\<lambda>sig_bytes.
     and_then (map_err (\<lambda>_. SignatureInvalid) (sig_from_concat_bytes sig_bytes)) (\<lambda>sig.
     and_then (map_err (\<lambda>_. SignatureInvalid)
       (composite_verify P pk STH_SIGNING_CONTEXT (body_cbor sth) sig)) (\<lambda>_.
     decode_sth_body C (body_cbor sth))))"

type_synonym sth_signer = "string \<times> (sth_body \<Rightarrow> (SthError, signed_tree_head) result)"

record in_process_signer =
  ip_kid :: string
  ip_sk :: composite_secret_key

definition InProcessSigner_new :: "string \<Rightarrow> composite_secret_key \<Rightarrow> in_process_signer" where
  "InProcessSigner_new kid sk = \<lparr>ip_kid = kid, ip_sk = sk\<rparr>"

definition in_process_sign ::
  "prims \<Rightarrow> body_codec \<Rightarrow> bytes \<Rightarrow> in_process_signer \<Rightarrow> sth_body \<Rightarrow> (SthError, signed_tree_head) result" where
  "in_process_sign P C rnd s body =
     and_then (encode_body C body) (\<lambda>bs.
     and_then (map_err Composite (composite_sign P rnd (ip_sk s) STH_SIGNING_CONTEXT bs)) (\<lambda>sig.
     Inr \<lparr>body_cbor = bs, signer_kid = ip_kid s, signature_b64 = b64url_encode P (sig_to_concat_bytes sig)\<rparr>))"

definition in_process :: "prims \<Rightarrow> body_codec \<Rightarrow> bytes \<Rightarrow> in_process_signer \<Rightarrow> sth_signer" where
  "in_process P C rnd s = (ip_kid s, in_process_sign P C rnd s)"

section \<open>Co-signed tree heads\<close>

record co_signature =
  co_kid :: string
  co_sig_b64 :: string

record cosigned_tree_head =
  co_body_cbor :: bytes
  signatures :: "co_signature list"

definition as_single :: "cosigned_tree_head \<Rightarrow> nat \<Rightarrow> signed_tree_head option" where
  "as_single sth n =
     (if n < length (signatures sth)
      then let s = signatures sth ! n
           in Some \<lparr>body_cbor = co_body_cbor sth, signer_kid = co_kid s, signature_b64 = co_sig_b64 s\<rparr>
      else None)"

datatype QuorumError =
    InvalidThreshold nat nat
  | DuplicateSigner string
  | SignerFailed string SthError
  | QuorumNotMet nat nat
  | Body SthError

record quorum_signer =
  q_threshold :: nat
  q_signers :: "sth_signer list"

fun check_kids :: "string set \<Rightarrow> string list \<Rightarrow> (QuorumError, unit) result" where
  "check_kids seen [] = Inr ()"
| "check_kids seen (k # ks) =
     (if k \<in> seen then Inl (DuplicateSigner k) else check_kids (insert k seen) ks)"

definition QuorumSigner_new :: "sth_signer list \<Rightarrow> nat \<Rightarrow> (QuorumError, quorum_signer) result" where
  "QuorumSigner_new sgs t =
     (if t = 0 \<or> t > length sgs then Inl (InvalidThreshold t (length sgs))
      else and_then (check_kids {} (map fst sgs)) (\<lambda>_. Inr \<lparr>q_threshold = t, q_signers = sgs\<rparr>))"

fun sign_all :: "sth_signer list \<Rightarrow> sth_body \<Rightarrow> (QuorumError, co_signature list) result" where
  "sign_all [] body = Inr []"
| "sign_all ((kid, sign) # sgs) body =
     and_then (map_err (SignerFailed kid) (sign body)) (\<lambda>sth.
     and_then (sign_all sgs body) (\<lambda>rest.
     Inr (\<lparr>co_kid = signer_kid sth, co_sig_b64 = signature_b64 sth\<rparr> # rest)))"

definition quorum_sign :: "body_codec \<Rightarrow> quorum_signer \<Rightarrow> sth_body \<Rightarrow> (QuorumError, cosigned_tree_head) result" where
  "quorum_sign C q body =
     and_then (map_err Body (encode_body C body)) (\<lambda>bs.
     and_then (sign_all (q_signers q) body) (\<lambda>sigs.
     Inr \<lparr>co_body_cbor = bs, signatures = sigs\<rparr>))"

record verifying_keyset =
  vk_keys :: "(string \<times> composite_public_key) list"
  vk_threshold :: nat

fun insert_keys ::
  "(string \<times> composite_public_key) list \<Rightarrow> (string \<times> composite_public_key) list \<Rightarrow>
   (QuorumError, (string \<times> composite_public_key) list) result" where
  "insert_keys m [] = Inr m"
| "insert_keys m ((kid, pk) # ks) =
     (if map_of m kid \<noteq> None then Inl (DuplicateSigner kid) else insert_keys ((kid, pk) # m) ks)"

definition VerifyingKeyset_new ::
  "(string \<times> composite_public_key) list \<Rightarrow> nat \<Rightarrow> (QuorumError, verifying_keyset) result" where
  "VerifyingKeyset_new ks t =
     and_then (insert_keys [] ks) (\<lambda>m.
     if t = 0 \<or> t > length m then Inl (InvalidThreshold t (length m))
     else Inr \<lparr>vk_keys = m, vk_threshold = t\<rparr>)"

definition key_count :: "verifying_keyset \<Rightarrow> nat" where
  "key_count ks = length (vk_keys ks)"

definition co_signature_ok :: "prims \<Rightarrow> bytes \<Rightarrow> verifying_keyset \<Rightarrow> co_signature \<Rightarrow> bool" where
  "co_signature_ok P body ks s =
     (case map_of (vk_keys ks) (co_kid s) of
        None \<Rightarrow> False
      | Some pk \<Rightarrow>
          (case b64url_decode P (co_sig_b64 s) of
             Inl _ \<Rightarrow> False
           | Inr bs \<Rightarrow>
               (case sig_from_concat_bytes bs of
                  Inl _ \<Rightarrow> False
                | Inr sig \<Rightarrow> composite_verify P pk STH_SIGNING_CONTEXT body sig = Inr ())))"

fun accepted_kids :: "prims \<Rightarrow> bytes \<Rightarrow> verifying_keyset \<Rightarrow> string list \<Rightarrow> co_signature list \<Rightarrow> string list" where
  "accepted_kids P body ks acc [] = acc"
| "accepted_kids P body ks acc (s # ss) =
     accepted_kids P body ks (if co_signature_ok P body ks s then List.insert (co_kid s) acc else acc) ss"

definition verify_cosigned ::
  "prims \<Rightarrow> body_codec \<Rightarrow> cosigned_tree_head \<Rightarrow> verifying_keyset \<Rightarrow> (QuorumError, sth_body) result" where
  "verify_cosigned P C sth ks =
     (let accepted = accepted_kids P (co_body_cbor sth) ks [] (signatures sth)
      in if length accepted < vk_threshold ks then Inl (QuorumNotMet (length accepted) (vk_threshold ks))
         else map_err Body (decode_sth_body C (co_body_cbor sth)))"

section \<open>Quorums\<close>

lemma set_accepted_kids:
  "set (accepted_kids P body ks acc ss) = set acc \<union> co_kid ` {s \<in> set ss. co_signature_ok P body ks s}"
  by (induction ss arbitrary: acc) auto

lemma distinct_accepted_kids: "distinct acc \<Longrightarrow> distinct (accepted_kids P body ks acc ss)"
  by (induction ss arbitrary: acc) auto

lemma insert_keys_Inr:
  "insert_keys m ks = Inr m' \<Longrightarrow> m' = rev ks @ m \<and> (distinct (map fst m) \<longrightarrow> distinct (map fst (rev ks @ m)))"
  by (induction m ks rule: insert_keys.induct) (auto split: if_splits simp: map_of_eq_None_iff)

lemma VerifyingKeyset_new_ok:
  assumes "VerifyingKeyset_new kps t = Inr ks"
  shows "distinct (map fst (vk_keys ks))" "vk_threshold ks = t" "set (vk_keys ks) = set kps"
    "0 < t" "t \<le> key_count ks"
  using assms insert_keys_Inr [of "[]" kps]
  by (auto simp: VerifyingKeyset_new_def result_simps key_count_def split: if_splits)

text \<open>The key ids that validly signed a body.\<close>

definition signed_by :: "prims \<Rightarrow> cosigned_tree_head \<Rightarrow> verifying_keyset \<Rightarrow> string set" where
  "signed_by P sth ks = co_kid ` {s \<in> set (signatures sth). co_signature_ok P (co_body_cbor sth) ks s}"

lemma signed_by_subset: "signed_by P sth ks \<subseteq> set (map fst (vk_keys ks))"
  by (force simp: signed_by_def co_signature_ok_def split: option.splits dest: map_of_SomeD)

lemma verify_cosigned_Inr:
  "verify_cosigned P C sth ks = Inr body \<longleftrightarrow>
     vk_threshold ks \<le> card (signed_by P sth ks) \<and> body_from_cbor C (co_body_cbor sth) = Inr body"
  using distinct_card [OF distinct_accepted_kids [of "[]" P "co_body_cbor sth" ks "signatures sth"]]
  by (auto simp: verify_cosigned_def Let_def set_accepted_kids signed_by_def decode_sth_body_def result_simps)

lemma quorums_intersect:
  assumes "A \<subseteq> U" "B \<subseteq> U" "finite U" "card U < 2 * t" "t \<le> card A" "t \<le> card B"
  shows "A \<inter> B \<noteq> {}"
proof
  assume "A \<inter> B = {}"
  then have "card A + card B = card (A \<union> B)"
    using assms(1-3) by (simp add: card_Un_disjoint finite_subset)
  also have "\<dots> \<le> card U" using assms(1-3) by (intro card_mono) auto
  finally show False using assms(4-6) by simp
qed

section \<open>Properties\<close>

lemma co_signature_okE:
  assumes "co_signature_ok P body ks s"
  obtains pk bs sig where "(co_kid s, pk) \<in> set (vk_keys ks)" "b64url_decode P (co_sig_b64 s) = Inr bs"
    "sig_from_concat_bytes bs = Inr sig" "composite_verify P pk STH_SIGNING_CONTEXT body sig = Inr ()"
  using assms by (auto simp: co_signature_ok_def split: option.splits sum.splits dest: map_of_SomeD)

text \<open>C7. A co-signed tree head is accepted only with enough distinct signers: the returned body is the
  decoded signed body, at least \<open>threshold\<close> different listed keys each have a composite signature over
  it, and repeated or unlisted key ids add nothing.\<close>

theorem cosigned_sound:
  assumes "VerifyingKeyset_new kps t = Inr ks" "verify_cosigned P C sth ks = Inr body"
  shows "body_from_cbor C (co_body_cbor sth) = Inr body \<and>
    (\<exists>K. t \<le> card K \<and> (\<forall>kid \<in> K. \<exists>pk s bs sig. (kid, pk) \<in> set kps \<and> s \<in> set (signatures sth) \<and> co_kid s = kid \<and>
       b64url_decode P (co_sig_b64 s) = Inr bs \<and> sig_from_concat_bytes bs = Inr sig \<and>
       composite_verify P pk STH_SIGNING_CONTEXT (co_body_cbor sth) sig = Inr ()))"
proof -
  note ks = VerifyingKeyset_new_ok [OF assms(1)]
  have "\<exists>pk s bs sig. (kid, pk) \<in> set kps \<and> s \<in> set (signatures sth) \<and> co_kid s = kid \<and>
      b64url_decode P (co_sig_b64 s) = Inr bs \<and> sig_from_concat_bytes bs = Inr sig \<and>
      composite_verify P pk STH_SIGNING_CONTEXT (co_body_cbor sth) sig = Inr ()"
    if kid: "kid \<in> signed_by P sth ks" for kid
  proof -
    obtain s where "s \<in> set (signatures sth)" "co_kid s = kid" "co_signature_ok P (co_body_cbor sth) ks s"
      using kid by (auto simp: signed_by_def)
    then show ?thesis using ks(3) by (blast elim: co_signature_okE)
  qed
  then show ?thesis
    using assms(2) ks(2) unfolding verify_cosigned_Inr by (intro conjI exI [of _ "signed_by P sth ks"]) auto
qed

text \<open>C12. No split view: with a majority threshold, any two accepted co-signed tree heads were both signed by
  some common listed key, so two different heads of the same log need a replica that signed both.\<close>

theorem cosigned_no_split_view:
  assumes "VerifyingKeyset_new kps t = Inr ks" "length kps < 2 * t"
    and "verify_cosigned P C sth1 ks = Inr body1" "verify_cosigned P C sth2 ks = Inr body2"
  shows "\<exists>kid pk s1 s2. (kid, pk) \<in> set kps \<and> s1 \<in> set (signatures sth1) \<and> s2 \<in> set (signatures sth2) \<and>
    co_kid s1 = kid \<and> co_kid s2 = kid \<and>
    co_signature_ok P (co_body_cbor sth1) ks s1 \<and> co_signature_ok P (co_body_cbor sth2) ks s2"
proof -
  note ks = VerifyingKeyset_new_ok [OF assms(1)]
  have "card (set (map fst kps)) < 2 * t"
    using assms(2) card_length [of "map fst kps"] by simp
  moreover have "signed_by P sth ks \<subseteq> set (map fst kps)" for sth
    using signed_by_subset [of P sth ks] ks(3) by auto
  ultimately have "signed_by P sth1 ks \<inter> signed_by P sth2 ks \<noteq> {}"
    using assms(3,4) ks(2) unfolding verify_cosigned_Inr by (intro quorums_intersect [of _ "set (map fst kps)" _ t]) auto
  then obtain kid where kid: "kid \<in> signed_by P sth1 ks" "kid \<in> signed_by P sth2 ks" by blast
  then have "kid \<in> set (map fst kps)" using signed_by_subset [of P sth1 ks] ks(3) by auto
  then obtain pk where "(kid, pk) \<in> set kps" by auto
  moreover obtain s1 s2 where "s1 \<in> set (signatures sth1)" "co_kid s1 = kid" "co_signature_ok P (co_body_cbor sth1) ks s1"
    "s2 \<in> set (signatures sth2)" "co_kid s2 = kid" "co_signature_ok P (co_body_cbor sth2) ks s2"
    using kid by (auto simp: signed_by_def)
  ultimately show ?thesis by blast
qed

text \<open>The signatures made by in-process signers.\<close>

lemma in_process_sign_ok:
  assumes "prims_ok P" "from_seed P seed = (sk, pk)" "in_process_sign P C rnd (InProcessSigner_new kid sk) body = Inr sth"
  shows "body_to_cbor C body = Inr (body_cbor sth)" "signer_kid sth = kid"
    "\<exists>sig. b64url_decode P (signature_b64 sth) = Inr (sig_to_concat_bytes sig) \<and>
      sig_from_concat_bytes (sig_to_concat_bytes sig) = Inr sig \<and>
      composite_verify P pk STH_SIGNING_CONTEXT (body_cbor sth) sig = Inr ()"
  using assms(3) composite_sign_lengths [OF assms(1,2)] assms(1)
  by (auto simp: in_process_sign_def InProcessSigner_new_def encode_body_def result_simps prims_ok_def
      sig_concat_roundtrip)

text \<open>A tree head signed by an in-process signer verifies under its public key and yields the signed body.\<close>

theorem sth_roundtrip:
  assumes "prims_ok P" "from_seed P seed = (sk, pk)" "\<And>b bs. body_to_cbor C b = Inr bs \<Longrightarrow> body_from_cbor C bs = Inr b"
    and "in_process_sign P C rnd (InProcessSigner_new kid sk) body = Inr sth"
  shows "verify_sth P C sth pk = Inr body \<and> signer_kid sth = kid"
  using in_process_sign_ok [OF assms(1,2,4)] assms(3)
  by (auto simp: verify_sth_def decode_sth_body_def)

lemma sign_all_signed:
  assumes "prims_ok P" "\<And>kid seed. (kid, seed) \<in> set seeds \<Longrightarrow> map_of (vk_keys ks) kid = Some (snd (from_seed P seed))"
    and "body_to_cbor C body = Inr bs"
    and "sign_all (map (\<lambda>(kid, seed). in_process P C rnd (InProcessSigner_new kid (fst (from_seed P seed)))) seeds) body = Inr sigs"
  shows "map co_kid sigs = map fst seeds \<and> (\<forall>s \<in> set sigs. co_signature_ok P bs ks s)"
  using assms(2,4)
proof (induction seeds arbitrary: sigs)
  case Nil
  then show ?case by simp
next
  case (Cons ks' seeds)
  obtain kid seed where [simp]: "ks' = (kid, seed)" by fastforce
  obtain sk pk where k: "from_seed P seed = (sk, pk)" by fastforce
  obtain sth rest where s: "in_process_sign P C rnd (InProcessSigner_new kid sk) body = Inr sth"
    "sign_all (map (\<lambda>(kid, seed). in_process P C rnd (InProcessSigner_new kid (fst (from_seed P seed)))) seeds) body = Inr rest"
    "sigs = \<lparr>co_kid = signer_kid sth, co_sig_b64 = signature_b64 sth\<rparr> # rest"
    using Cons.prems(2) by (auto simp: in_process_def k InProcessSigner_new_def result_simps)
  have "map co_kid rest = map fst seeds \<and> (\<forall>s \<in> set rest. co_signature_ok P bs ks s)"
    by (rule Cons.IH [OF _ s(2)]) (auto intro: Cons.prems(1))
  moreover have "map_of (vk_keys ks) kid = Some pk" using Cons.prems(1) [of kid seed] k by simp
  ultimately show ?case
    using in_process_sign_ok [OF assms(1) k s(1)] assms(3) s(3)
    by (auto simp: co_signature_ok_def)
qed

lemma quorum_sign_verifies:
  assumes "prims_ok P" "\<And>b bs. body_to_cbor C b = Inr bs \<Longrightarrow> body_from_cbor C bs = Inr b"
    and "VerifyingKeyset_new (map (\<lambda>(kid, seed). (kid, snd (from_seed P seed))) seeds) t = Inr ks"
    and "QuorumSigner_new (map (\<lambda>(kid, seed). in_process P C rnd (InProcessSigner_new kid (fst (from_seed P seed)))) seeds) t = Inr q"
    and "quorum_sign C q body = Inr sth"
  shows "verify_cosigned P C sth ks = Inr body"
proof -
  note ks = VerifyingKeyset_new_ok [OF assms(3)]
  obtain bs sigs where b: "body_to_cbor C body = Inr bs"
    "sign_all (map (\<lambda>(kid, seed). in_process P C rnd (InProcessSigner_new kid (fst (from_seed P seed)))) seeds) body = Inr sigs"
    "sth = \<lparr>co_body_cbor = bs, signatures = sigs\<rparr>"
    using assms(4,5) by (auto simp: quorum_sign_def QuorumSigner_new_def encode_body_def result_simps split: if_splits)
  have "map_of (vk_keys ks) kid = Some (snd (from_seed P seed))" if "(kid, seed) \<in> set seeds" for kid seed
    using that ks(1,3) by (force intro!: map_of_is_SomeI)
  from sign_all_signed [OF assms(1) this b(1,2)]
  have sigs: "map co_kid sigs = map fst seeds" "\<forall>s \<in> set sigs. co_signature_ok P bs ks s" by blast+
  then have "{s \<in> set sigs. co_signature_ok P bs ks s} = set sigs" by blast
  then have "signed_by P sth ks = set (map fst seeds)"
    unfolding sigs(1) [symmetric] signed_by_def b(3) by simp
  also have "\<dots> = set (map fst (vk_keys ks))" using ks(3) by force
  finally have "card (signed_by P sth ks) = key_count ks"
    using distinct_card [OF ks(1)] by (simp add: key_count_def)
  then show ?thesis using ks(2,5) assms(2) [OF b(1)] b(3) by (simp add: verify_cosigned_Inr)
qed

text \<open>C22. The co-signed head produced by a quorum of in-process signers verifies against the keyset of
  their public keys, for every threshold the keyset constructor accepts.\<close>

theorem cosigned_roundtrip:
  assumes "prims_ok P" "\<And>b bs. body_to_cbor C b = Inr bs \<Longrightarrow> body_from_cbor C bs = Inr b"
    and "VerifyingKeyset_new (map (\<lambda>(kid, seed). (kid, snd (from_seed P seed))) seeds) t = Inr ks"
    and "QuorumSigner_new (map (\<lambda>(kid, seed). in_process P C rnd (InProcessSigner_new kid (fst (from_seed P seed)))) seeds) t = Inr q"
    and "quorum_sign C q body = Inr sth"
  shows "verify_cosigned P C sth ks = Inr body"
  by (rule quorum_sign_verifies [OF assms])

section \<open>Witnesses\<close>

definition toy_body :: sth_body where
  "toy_body = \<lparr>tree_size = 1, root_hash = [], sth_timestamp = 0\<rparr>"

definition toy_codec :: body_codec where
  "toy_codec = \<lparr>body_to_cbor = (\<lambda>b. if b = toy_body then Inr [] else Inl []), body_from_cbor = (\<lambda>_. Inr toy_body)\<rparr>"

lemma toy_codec_ok: "body_to_cbor toy_codec b = Inr bs \<Longrightarrow> body_from_cbor toy_codec bs = Inr b"
  by (simp add: toy_codec_def split: if_splits)

lemma toy_sign: "\<exists>sig. composite_sign toy_prims rnd sk ctx msg = Inr sig"
  by (simp add: composite_sign_def toy_prims_def Let_def)

lemma toy_in_process: "\<exists>sth. in_process_sign toy_prims toy_codec rnd s toy_body = Inr sth"
  using toy_sign [of rnd "ip_sk s" STH_SIGNING_CONTEXT "[]"]
  by (auto simp: in_process_sign_def encode_body_def toy_codec_def)

abbreviation toy_seeds :: "(string \<times> bytes) list" where
  "toy_seeds \<equiv> [(''a'', [1]), (''b'', [2])]"

abbreviation toy_keys :: "(string \<times> composite_public_key) list" where
  "toy_keys \<equiv> map (\<lambda>(kid, seed). (kid, snd (from_seed toy_prims seed))) toy_seeds"

abbreviation toy_signers :: "sth_signer list" where
  "toy_signers \<equiv> map (\<lambda>(kid, seed). in_process toy_prims toy_codec [] (InProcessSigner_new kid (fst (from_seed toy_prims seed)))) toy_seeds"

lemma toy_quorum:
  obtains ks q sth where "VerifyingKeyset_new toy_keys 2 = Inr ks" "QuorumSigner_new toy_signers 2 = Inr q"
    "quorum_sign toy_codec q toy_body = Inr sth"
proof -
  obtain ks where ks: "VerifyingKeyset_new toy_keys 2 = Inr ks"
    by (simp add: VerifyingKeyset_new_def)
  have q: "QuorumSigner_new toy_signers 2 = Inr \<lparr>q_threshold = 2, q_signers = toy_signers\<rparr>"
    by (simp add: QuorumSigner_new_def in_process_def InProcessSigner_new_def)
  have "\<exists>sth. quorum_sign toy_codec \<lparr>q_threshold = 2, q_signers = toy_signers\<rparr> toy_body = Inr sth"
    using toy_in_process [of "[]" "InProcessSigner_new ''a'' (fst (from_seed toy_prims [1]))"]
      toy_in_process [of "[]" "InProcessSigner_new ''b'' (fst (from_seed toy_prims [2]))"]
    by (auto simp: quorum_sign_def in_process_def encode_body_def toy_codec_def)
  with ks q show ?thesis using that by blast
qed

theorem cosigned_roundtrip_witness:
  "\<exists>ks sth. VerifyingKeyset_new toy_keys 2 = Inr ks \<and> verify_cosigned toy_prims toy_codec sth ks = Inr toy_body"
  by (rule toy_quorum) (blast intro: cosigned_roundtrip [OF toy_prims_ok toy_codec_ok])

theorem cosigned_sound_witness:
  "\<exists>ks sth K. VerifyingKeyset_new toy_keys 2 = Inr ks \<and> verify_cosigned toy_prims toy_codec sth ks = Inr toy_body \<and>
     body_from_cbor toy_codec (co_body_cbor sth) = Inr toy_body \<and> 2 \<le> card (K :: string set)"
proof (rule toy_quorum)
  fix ks q sth
  assume a: "VerifyingKeyset_new toy_keys 2 = Inr ks" "QuorumSigner_new toy_signers 2 = Inr q"
    "quorum_sign toy_codec q toy_body = Inr sth"
  have v: "verify_cosigned toy_prims toy_codec sth ks = Inr toy_body"
    by (rule quorum_sign_verifies [OF toy_prims_ok toy_codec_ok a])
  show ?thesis using cosigned_sound [OF a(1) v] a(1) v by blast
qed

theorem cosigned_no_split_view_witness:
  "\<exists>ks sth s1 s2. VerifyingKeyset_new toy_keys 2 = Inr ks \<and> verify_cosigned toy_prims toy_codec sth ks = Inr toy_body \<and>
     s1 \<in> set (signatures sth) \<and> s2 \<in> set (signatures sth) \<and> co_kid s1 = co_kid s2"
proof (rule toy_quorum)
  fix ks q sth
  assume a: "VerifyingKeyset_new toy_keys 2 = Inr ks" "QuorumSigner_new toy_signers 2 = Inr q"
    "quorum_sign toy_codec q toy_body = Inr sth"
  have v: "verify_cosigned toy_prims toy_codec sth ks = Inr toy_body"
    by (rule quorum_sign_verifies [OF toy_prims_ok toy_codec_ok a])
  have "length toy_keys < 2 * 2" by simp
  from cosigned_no_split_view [OF a(1) this v v] a(1) v show ?thesis by blast
qed

theorem sth_roundtrip_witness:
  "\<exists>sth. in_process_sign toy_prims toy_codec [] (InProcessSigner_new ''a'' (fst (from_seed toy_prims [1]))) toy_body = Inr sth \<and>
     verify_sth toy_prims toy_codec sth (snd (from_seed toy_prims [1])) = Inr toy_body \<and> signer_kid sth = ''a''"
proof -
  obtain sth where "in_process_sign toy_prims toy_codec [] (InProcessSigner_new ''a'' (fst (from_seed toy_prims [1]))) toy_body = Inr sth"
    using toy_in_process by blast
  then show ?thesis
    using sth_roundtrip [OF toy_prims_ok prod.collapse [symmetric] toy_codec_ok] by blast
qed

end
