(* ===== verification/Worm_Store.thy ===== *)
theory Worm_Store
  imports Disk Tree_Head "HOL-Library.Sublist"
begin

text \<open>
  \<open>crates/ferro-audit/src/store.rs\<close>: the \<open>AuditStore\<close> trait as a record of operations, its
  contract as the locales \<open>audit_store\<close> (leaves) and \<open>audit_heads\<close> (tree heads), and \<open>LocalDiskWormStore\<close> on the
  disk model, with any file refused or torn, as the provider of both. The JSON codec of tree heads is the argument \<open>J\<close>.
\<close>

section \<open>The interface\<close>

datatype AuditStoreError =
    Io io_error
  | AlreadyExists fpath
  | Decode string
  | Encode string
  | Unsupported string

text \<open>A \<open>dyn AuditStore\<close> over states of type \<open>'s\<close>.\<close>

record 's store_ops =
  append_leaf :: "nat \<Rightarrow> bytes \<Rightarrow> bytes \<Rightarrow> 's \<Rightarrow> (AuditStoreError, unit) result \<times> 's"
  record_sth :: "signed_tree_head \<Rightarrow> 's \<Rightarrow> (AuditStoreError, unit) result \<times> 's"
  record_cosigned_sth :: "cosigned_tree_head \<Rightarrow> 's \<Rightarrow> (AuditStoreError, unit) result \<times> 's"
  read_leaf :: "'s \<Rightarrow> nat \<Rightarrow> (AuditStoreError, bytes) result"
  latest_sth :: "'s \<Rightarrow> (AuditStoreError, signed_tree_head option) result"
  latest_cosigned_sth :: "'s \<Rightarrow> (AuditStoreError, cosigned_tree_head option) result"

text \<open>The bodies of the two trait methods with a default.\<close>

definition default_record_cosigned_sth :: "cosigned_tree_head \<Rightarrow> 's \<Rightarrow> (AuditStoreError, unit) result \<times> 's" where
  "default_record_cosigned_sth sth st = (Inl (Unsupported ''record_cosigned_sth not implemented by this store''), st)"

definition default_latest_cosigned_sth :: "'s \<Rightarrow> (AuditStoreError, cosigned_tree_head option) result" where
  "default_latest_cosigned_sth st = Inr None"

section \<open>The disk store\<close>

record head_codec =
  sth_to_json :: "signed_tree_head \<Rightarrow> (string, bytes) result"
  sth_from_json :: "bytes \<Rightarrow> (string, signed_tree_head) result"
  costh_to_json :: "cosigned_tree_head \<Rightarrow> (string, bytes) result"
  costh_from_json :: "bytes \<Rightarrow> (string, cosigned_tree_head) result"

text \<open>\<open>open\<close> only creates the directories: directories are implicit in the disk.\<close>

definition leaf_path :: "nat \<Rightarrow> fpath" where
  "leaf_path index = (''leaves'', pad20 index @ ''.cbor'')"

definition hash_path :: "nat \<Rightarrow> fpath" where
  "hash_path index = (''leaves'', pad20 index @ ''.hash'')"

definition sth_path :: "nat \<Rightarrow> fpath" where
  "sth_path n = (''sth'', pad20 n @ ''.json'')"

definition cosigned_path :: "nat \<Rightarrow> fpath" where
  "cosigned_path n = (''cosigned'', pad20 n @ ''.json'')"

fun scan_latest :: "(nat \<times> string) option \<Rightarrow> string list \<Rightarrow> (nat \<times> string) option" where
  "scan_latest best [] = best"
| "scan_latest best (name # names) =
     (case strip_suffix ''.json'' name of
        None \<Rightarrow> scan_latest best names
      | Some stem \<Rightarrow>
          (case parse_u64 stem of
             None \<Rightarrow> scan_latest best names
           | Some n \<Rightarrow>
               scan_latest (if (case best of None \<Rightarrow> True | Some (b, _) \<Rightarrow> n > b) then Some (n, name) else best) names))"

definition read_latest_in :: "disk \<Rightarrow> string \<Rightarrow> (AuditStoreError, (nat \<times> bytes) option) result" where
  "read_latest_in d subdir =
     (case scan_latest None (disk_read_dir d subdir) of
        None \<Rightarrow> Inr None
      | Some (n, name) \<Rightarrow>
          and_then (map_err Io (disk_read d (subdir, name))) (\<lambda>bs. Inr (Some (n, bs))))"

text \<open>The state of the store is the disk and a clock that counts the files it tried to create; the faults
  may differ from one attempt to the next.\<close>

record worm =
  ws_disk :: disk
  ws_clock :: nat

definition worm_write_new ::
  "(nat \<Rightarrow> fpath \<Rightarrow> fault option) \<Rightarrow> fpath \<Rightarrow> bytes \<Rightarrow> worm \<Rightarrow> (AuditStoreError, unit) result \<times> worm" where
  "worm_write_new F p bs st =
     (case disk_create_new (F (ws_clock st)) p bs (ws_disk st) of
        (r, d') \<Rightarrow>
          (case r of Inr _ \<Rightarrow> Inr () | Inl Exists \<Rightarrow> Inl (AlreadyExists p) | Inl (Failed e) \<Rightarrow> Inl (Io e),
           \<lparr>ws_disk = d', ws_clock = Suc (ws_clock st)\<rparr>))"

definition worm_append_leaf ::
  "(nat \<Rightarrow> fpath \<Rightarrow> fault option) \<Rightarrow> nat \<Rightarrow> bytes \<Rightarrow> bytes \<Rightarrow> worm \<Rightarrow> (AuditStoreError, unit) result \<times> worm" where
  "worm_append_leaf F index raw_event leaf_hash st =
     (case worm_write_new F (leaf_path index) raw_event st of
        (Inl e, st') \<Rightarrow> (Inl e, st')
      | (Inr _, st') \<Rightarrow> worm_write_new F (hash_path index) leaf_hash st')"

definition worm_record_sth ::
  "(nat \<Rightarrow> fpath \<Rightarrow> fault option) \<Rightarrow> body_codec \<Rightarrow> head_codec \<Rightarrow> signed_tree_head \<Rightarrow> worm \<Rightarrow>
   (AuditStoreError, unit) result \<times> worm" where
  "worm_record_sth F C J sth st =
     (case body_from_cbor C (body_cbor sth) of
        Inl e \<Rightarrow> (Inl (AuditStoreError.Encode (''cbor decode: '' @ e)), st)
      | Inr body \<Rightarrow>
          (case sth_to_json J sth of
             Inl e \<Rightarrow> (Inl (AuditStoreError.Encode e), st)
           | Inr bs \<Rightarrow> worm_write_new F (sth_path (tree_size body)) bs st))"

definition worm_record_cosigned_sth ::
  "(nat \<Rightarrow> fpath \<Rightarrow> fault option) \<Rightarrow> body_codec \<Rightarrow> head_codec \<Rightarrow> cosigned_tree_head \<Rightarrow> worm \<Rightarrow>
   (AuditStoreError, unit) result \<times> worm" where
  "worm_record_cosigned_sth F C J sth st =
     (case body_from_cbor C (co_body_cbor sth) of
        Inl e \<Rightarrow> (Inl (AuditStoreError.Encode (''cbor decode: '' @ e)), st)
      | Inr body \<Rightarrow>
          (case costh_to_json J sth of
             Inl e \<Rightarrow> (Inl (AuditStoreError.Encode e), st)
           | Inr bs \<Rightarrow> worm_write_new F (cosigned_path (tree_size body)) bs st))"

definition worm_read_leaf :: "worm \<Rightarrow> nat \<Rightarrow> (AuditStoreError, bytes) result" where
  "worm_read_leaf st index = map_err Io (disk_read (ws_disk st) (leaf_path index))"

definition worm_latest_sth :: "head_codec \<Rightarrow> worm \<Rightarrow> (AuditStoreError, signed_tree_head option) result" where
  "worm_latest_sth J st =
     and_then (read_latest_in (ws_disk st) ''sth'') (\<lambda>r.
     case r of
       None \<Rightarrow> Inr None
     | Some (_, bs) \<Rightarrow> and_then (map_err AuditStoreError.Decode (sth_from_json J bs)) (\<lambda>sth. Inr (Some sth)))"

definition worm_latest_cosigned_sth :: "head_codec \<Rightarrow> worm \<Rightarrow> (AuditStoreError, cosigned_tree_head option) result" where
  "worm_latest_cosigned_sth J st =
     and_then (read_latest_in (ws_disk st) ''cosigned'') (\<lambda>r.
     case r of
       None \<Rightarrow> Inr None
     | Some (_, bs) \<Rightarrow> and_then (map_err AuditStoreError.Decode (costh_from_json J bs)) (\<lambda>sth. Inr (Some sth)))"

definition worm_ops :: "(nat \<Rightarrow> fpath \<Rightarrow> fault option) \<Rightarrow> body_codec \<Rightarrow> head_codec \<Rightarrow> worm store_ops" where
  "worm_ops F C J = \<lparr>
     append_leaf = worm_append_leaf F,
     record_sth = worm_record_sth F C J,
     record_cosigned_sth = worm_record_cosigned_sth F C J,
     read_leaf = worm_read_leaf,
     latest_sth = worm_latest_sth J,
     latest_cosigned_sth = worm_latest_cosigned_sth J\<rparr>"

section \<open>The contract\<close>

text \<open>What the audit log relies on for its leaves. A stored leaf is read back and is never changed or replaced, and
  tree heads do not disturb leaves.\<close>

locale audit_store =
  fixes S :: "'s store_ops"
  assumes read_total: "read_leaf S st i = Inl (Io NotFound) \<or> (\<exists>raw. read_leaf S st i = Inr raw)"
    and append_read: "append_leaf S i raw h st = (Inr (), st') \<Longrightarrow> read_leaf S st' i = Inr raw"
    and append_frame: "append_leaf S i raw h st = (r, st') \<Longrightarrow> j \<noteq> i \<Longrightarrow> read_leaf S st' j = read_leaf S st j"
    and append_worm: "append_leaf S i raw h st = (r, st') \<Longrightarrow> read_leaf S st i = Inr old \<Longrightarrow>
      r \<noteq> Inr () \<and> read_leaf S st' i = Inr old"
    and record_frame: "record_sth S sth st = (r, st') \<Longrightarrow> read_leaf S st' j = read_leaf S st j"
    and cosigned_frame: "record_cosigned_sth S co st = (r, st') \<Longrightarrow> read_leaf S st' j = read_leaf S st j"

text \<open>And for its tree heads. \<open>storable\<close> are the tree heads that survive the store's codec, \<open>good\<close> is the invariant of
  the provider. \<open>sizes\<close> are the tree sizes for which the store has a head, complete or not, \<open>complete\<close> the heads it has in full: a
  head that was recorded is one of these and stays one, and a read returns the largest, or an error.\<close>

locale audit_heads = audit_store S for S :: "'s store_ops" +
  fixes C :: body_codec and good :: "'s \<Rightarrow> bool"
    and storable :: "signed_tree_head \<Rightarrow> bool" and co_storable :: "cosigned_tree_head \<Rightarrow> bool"
    and sizes :: "'s \<Rightarrow> nat set" and complete :: "'s \<Rightarrow> signed_tree_head set"
  assumes append_heads: "append_leaf S i raw h st = (r, st') \<Longrightarrow> good st \<Longrightarrow>
      good st' \<and> sizes st' = sizes st \<and> complete st' = complete st"
    and record_heads: "record_sth S sth st = (r, st') \<Longrightarrow> storable sth \<Longrightarrow> good st \<Longrightarrow> body_from_cbor C (body_cbor sth) = Inr body \<Longrightarrow>
      good st' \<and> sizes st' \<subseteq> insert (tree_size body) (sizes st) \<and>
      complete st \<subseteq> complete st' \<and> complete st' \<subseteq> insert sth (complete st) \<and> (r = Inr () \<longrightarrow> sth \<in> complete st')"
    and cosigned_heads: "record_cosigned_sth S co st = (r, st') \<Longrightarrow> co_storable co \<Longrightarrow> good st \<Longrightarrow>
      good st' \<and> sizes st' = sizes st \<and> complete st' = complete st"
    and latest_heads: "good st \<Longrightarrow> latest_sth S st = Inr None \<and> complete st = {} \<or>
      (\<exists>sth body. latest_sth S st = Inr (Some sth) \<and> sth \<in> complete st \<and> body_from_cbor C (body_cbor sth) = Inr body \<and>
         (\<forall>x\<in>complete st. \<forall>b. body_from_cbor C (body_cbor x) = Inr b \<longrightarrow> tree_size b \<le> tree_size body)) \<or>
      (\<exists>e. latest_sth S st = Inl (Decode e))"
    and latest_cosigned: "good st \<Longrightarrow> (\<exists>x. latest_cosigned_sth S st = Inr x) \<or> (\<exists>e. latest_cosigned_sth S st = Inl (Decode e))"

section \<open>The provider\<close>

definition sth_storable :: "body_codec \<Rightarrow> head_codec \<Rightarrow> signed_tree_head \<Rightarrow> bool" where
  "sth_storable C J sth \<longleftrightarrow>
     (\<forall>bs. sth_to_json J sth = Inr bs \<longrightarrow> sth_from_json J bs = Inr sth) \<and>
     (\<forall>b. body_from_cbor C (body_cbor sth) = Inr b \<longrightarrow> tree_size b < 2 ^ 64)"

definition costh_storable :: "head_codec \<Rightarrow> cosigned_tree_head \<Rightarrow> bool" where
  "costh_storable J co \<longleftrightarrow> (\<forall>bs. costh_to_json J co = Inr bs \<longrightarrow> costh_from_json J bs = Inr co)"

text \<open>JSON objects: no proper prefix of the text of a head decodes.\<close>

definition no_prefix_decodes :: "head_codec \<Rightarrow> bool" where
  "no_prefix_decodes J \<longleftrightarrow>
     (\<forall>sth bs p. sth_to_json J sth = Inr bs \<longrightarrow> strict_prefix p bs \<longrightarrow> (\<exists>e. sth_from_json J p = Inl e)) \<and>
     (\<forall>co bs p. costh_to_json J co = Inr bs \<longrightarrow> strict_prefix p bs \<longrightarrow> (\<exists>e. costh_from_json J p = Inl e))"

text \<open>A file that a torn write of a tree head left behind.\<close>

definition torn_head :: "head_codec \<Rightarrow> worm \<Rightarrow> bool" where
  "torn_head J st \<longleftrightarrow>
     (\<exists>n sth bs p. map_of (ws_disk st) (sth_path n) = Some p \<and> sth_to_json J sth = Inr bs \<and> strict_prefix p bs) \<or>
     (\<exists>n co bs p. map_of (ws_disk st) (cosigned_path n) = Some p \<and> costh_to_json J co = Inr bs \<and> strict_prefix p bs)"

definition worm_inv :: "body_codec \<Rightarrow> head_codec \<Rightarrow> worm \<Rightarrow> bool" where
  "worm_inv C J st \<longleftrightarrow> no_prefix_decodes J \<and>
     (\<forall>name p. map_of (ws_disk st) (''sth'', name) = Some p \<longrightarrow>
        (\<exists>sth body bs. body_from_cbor C (body_cbor sth) = Inr body \<and> tree_size body < 2 ^ 64 \<and>
           name = pad20 (tree_size body) @ ''.json'' \<and> sth_to_json J sth = Inr bs \<and> sth_from_json J bs = Inr sth \<and> prefix p bs)) \<and>
     (\<forall>name p. map_of (ws_disk st) (''cosigned'', name) = Some p \<longrightarrow>
        (\<exists>co bs n. name = pad20 n @ ''.json'' \<and> costh_to_json J co = Inr bs \<and> costh_from_json J bs = Inr co \<and> prefix p bs))"

definition worm_sizes :: "worm \<Rightarrow> nat set" where
  "worm_sizes st = {n. map_of (ws_disk st) (sth_path n) \<noteq> None}"

definition worm_complete :: "body_codec \<Rightarrow> head_codec \<Rightarrow> worm \<Rightarrow> signed_tree_head set" where
  "worm_complete C J st = {sth. \<exists>body bs. body_from_cbor C (body_cbor sth) = Inr body \<and>
     map_of (ws_disk st) (sth_path (tree_size body)) = Some bs \<and> sth_from_json J bs = Inr sth}"

lemma disk_read_Cons: "disk_read ((p, bs) # d) q = (if q = p then Inr bs else disk_read d q)"
  by (simp add: disk_read_def)

lemma paths_distinct [simp]:
  "leaf_path i \<noteq> hash_path j" "hash_path j \<noteq> leaf_path i" "leaf_path i = leaf_path j \<longleftrightarrow> i = j"
  "leaf_path i \<noteq> (''sth'', x)" "hash_path i \<noteq> (''sth'', x)" "leaf_path i \<noteq> (''cosigned'', x)" "hash_path i \<noteq> (''cosigned'', x)"
  "sth_path n \<noteq> leaf_path i" "leaf_path i \<noteq> sth_path n" "cosigned_path n \<noteq> leaf_path i" "sth_path n \<noteq> (''cosigned'', x)" "cosigned_path n \<noteq> (''sth'', x)"
  by (auto simp: leaf_path_def hash_path_def sth_path_def cosigned_path_def)

lemma worm_write_new_disk:
  assumes "worm_write_new F p bs st = (r, st')"
  shows "q \<noteq> p \<Longrightarrow> map_of (ws_disk st') q = map_of (ws_disk st) q"
    and "r = Inr () \<Longrightarrow> map_of (ws_disk st') p = Some bs"
    and "map_of (ws_disk st) p = Some old \<Longrightarrow> r \<noteq> Inr () \<and> map_of (ws_disk st') p = Some old"
proof -
  obtain r1 d1 where 1: "disk_create_new (F (ws_clock st)) p bs (ws_disk st) = (r1, d1)" by fastforce
  note m = disk_create_new_map [OF 1]
  have d: "ws_disk st' = d1" and r: "r = Inr () \<longleftrightarrow> r1 = Inr ()"
    using assms 1 by (auto simp: worm_write_new_def split: sum.splits create_error.splits)
  show "map_of (ws_disk st') q = map_of (ws_disk st) q" if "q \<noteq> p" using m(1) [OF that] d by simp
  show "map_of (ws_disk st') p = Some bs" if "r = Inr ()" using m(2) r that d by simp
  show "r \<noteq> Inr () \<and> map_of (ws_disk st') p = Some old" if "map_of (ws_disk st) p = Some old"
    using m(3) [OF that] r that d by simp
qed

lemma worm_append_disk:
  assumes "worm_append_leaf F i raw h st = (r, st')"
  shows "q \<noteq> leaf_path i \<Longrightarrow> q \<noteq> hash_path i \<Longrightarrow> map_of (ws_disk st') q = map_of (ws_disk st) q"
    and "r = Inr () \<Longrightarrow> map_of (ws_disk st') (leaf_path i) = Some raw"
    and "map_of (ws_disk st) (leaf_path i) = Some old \<Longrightarrow> r \<noteq> Inr () \<and> map_of (ws_disk st') (leaf_path i) = Some old"
proof -
  obtain r1 st1 where 1: "worm_write_new F (leaf_path i) raw st = (r1, st1)" by fastforce
  note w1 = worm_write_new_disk [OF 1]
  consider (failed) e where "r1 = Inl e" "r = Inl e" "st' = st1"
    | (written) "r1 = Inr ()" "worm_write_new F (hash_path i) h st1 = (r, st')"
    using assms 1 by (auto simp: worm_append_leaf_def split: sum.splits)
  then have "(q \<noteq> leaf_path i \<longrightarrow> q \<noteq> hash_path i \<longrightarrow> map_of (ws_disk st') q = map_of (ws_disk st) q) \<and>
    (r = Inr () \<longrightarrow> map_of (ws_disk st') (leaf_path i) = Some raw) \<and>
    (map_of (ws_disk st) (leaf_path i) = Some old \<longrightarrow> r \<noteq> Inr () \<and> map_of (ws_disk st') (leaf_path i) = Some old)"
  proof cases
    case failed
    then show ?thesis using w1(1,3) by auto
  next
    case written
    have eq: "map_of (ws_disk st') (leaf_path i) = map_of (ws_disk st1) (leaf_path i)"
      using worm_write_new_disk(1) [OF written(2), of "leaf_path i"] by simp
    show ?thesis
      using w1(1) [of q] w1(2) [OF written(1)] w1(3) [of old] worm_write_new_disk(1) [OF written(2), of q] written(1) eq by auto
  qed
  then show "q \<noteq> leaf_path i \<Longrightarrow> q \<noteq> hash_path i \<Longrightarrow> map_of (ws_disk st') q = map_of (ws_disk st) q"
    "r = Inr () \<Longrightarrow> map_of (ws_disk st') (leaf_path i) = Some raw"
    "map_of (ws_disk st) (leaf_path i) = Some old \<Longrightarrow> r \<noteq> Inr () \<and> map_of (ws_disk st') (leaf_path i) = Some old"
    by blast+
qed

lemma worm_read_leaf_map:
  "worm_read_leaf st i = (case map_of (ws_disk st) (leaf_path i) of None \<Rightarrow> Inl (Io NotFound) | Some raw \<Rightarrow> Inr raw)"
  by (simp add: worm_read_leaf_def disk_read_def split: option.splits)

text \<open>The scan of a directory finds the entry with the largest number.\<close>

definition name_number :: "string \<Rightarrow> nat option" where
  "name_number name = (case strip_suffix ''.json'' name of None \<Rightarrow> None | Some stem \<Rightarrow> parse_u64 stem)"

lemma name_number_pad20 [simp]: "n < 2 ^ 64 \<Longrightarrow> name_number (pad20 n @ ''.json'') = Some n"
  by (simp only: name_number_def strip_suffix_append option.case parse_u64_pad20)

lemma scan_latest_spec:
  "scan_latest best names = r \<Longrightarrow>
     (\<forall>m x. r = Some (m, x) \<longrightarrow> best = Some (m, x) \<or> x \<in> set names \<and> name_number x = Some m) \<and>
     (\<forall>x \<in> set names. \<forall>n. name_number x = Some n \<longrightarrow> (\<exists>m y. r = Some (m, y) \<and> n \<le> m)) \<and>
     (\<forall>b y. best = Some (b, y) \<longrightarrow> (\<exists>m z. r = Some (m, z) \<and> b \<le> m))"
proof (induction names arbitrary: best)
  case Nil
  then show ?case by auto
next
  case (Cons name names)
  show ?case
  proof (cases "name_number name")
    case None
    then have "scan_latest best names = r" using Cons.prems by (auto simp: name_number_def split: option.splits)
    from Cons.IH [OF this] None show ?thesis by auto
  next
    case (Some n)
    define best' where "best' = (if (case best of None \<Rightarrow> True | Some (b, _) \<Rightarrow> n > b) then Some (n, name) else best)"
    have "scan_latest best' names = r"
      using Cons.prems Some by (auto simp: name_number_def best'_def split: option.splits)
    note IH = Cons.IH [OF this]
    have "\<exists>b y. best' = Some (b, y) \<and> n \<le> b \<and> (\<forall>b0 y0. best = Some (b0, y0) \<longrightarrow> b0 \<le> b)"
      by (auto simp: best'_def split: option.splits)
    then obtain b y where b: "best' = Some (b, y)" "n \<le> b" "\<forall>b0 y0. best = Some (b0, y0) \<longrightarrow> b0 \<le> b" by blast
    then obtain m z where m: "r = Some (m, z)" "b \<le> m" using IH by blast
    have "best' = Some (m, z) \<longrightarrow> best = Some (m, z) \<or> z = name \<and> m = n"
      by (auto simp: best'_def split: if_splits)
    then show ?thesis using IH m b Some by (auto intro: order_trans)
  qed
qed

lemma sth_path_eq [simp]: "sth_path m = sth_path n \<longleftrightarrow> m = n"
  by (simp add: sth_path_def)

text \<open>A write leaves a prefix of its bytes, all of them when it succeeds.\<close>

lemma worm_write_new_cases:
  assumes "worm_write_new F p bs st = (r, st')"
  obtains (new) x where "map_of (ws_disk st) p = None" "ws_disk st' = (p, x) # ws_disk st" "prefix x bs" "r = Inr () \<longrightarrow> x = bs"
  | (same) "ws_disk st' = ws_disk st" "r \<noteq> Inr ()"
proof -
  obtain r1 d1 where 1: "disk_create_new (F (ws_clock st)) p bs (ws_disk st) = (r1, d1)" by fastforce
  have d: "ws_disk st' = d1" and r: "r = Inr () \<longleftrightarrow> r1 = Inr ()"
    using assms 1 by (auto simp: worm_write_new_def split: sum.splits create_error.splits)
  show ?thesis
    using 1 new same
    by (auto simp: disk_create_new_def d r take_is_prefix split: if_splits option.splits fault.splits)
qed

lemma worm_record_sth_cases:
  assumes "worm_record_sth F C J sth st = (r, st')"
  obtains (new) body :: sth_body and bs x where "body_from_cbor C (body_cbor sth) = Inr body" "sth_to_json J sth = Inr bs"
      "map_of (ws_disk st) (sth_path (tree_size body)) = None" "ws_disk st' = (sth_path (tree_size body), x) # ws_disk st"
      "prefix x bs" "r = Inr () \<longrightarrow> x = bs"
  | (same) "ws_disk st' = ws_disk st" "r \<noteq> Inr ()"
proof (cases "\<exists>body bs. body_from_cbor C (body_cbor sth) = Inr body \<and> sth_to_json J sth = Inr bs")
  case True
  then obtain body bs where b: "body_from_cbor C (body_cbor sth) = Inr body" "sth_to_json J sth = Inr bs" by blast
  then have "worm_write_new F (sth_path (tree_size body)) bs st = (r, st')"
    using assms by (simp add: worm_record_sth_def)
  then show ?thesis using new same b by (elim worm_write_new_cases) blast+
next
  case False
  then show ?thesis using assms same by (auto simp: worm_record_sth_def split: sum.splits)
qed

lemma worm_record_cosigned_cases:
  assumes "worm_record_cosigned_sth F C J co st = (r, st')"
  obtains (new) body :: sth_body and bs x where "costh_to_json J co = Inr bs"
      "ws_disk st' = (cosigned_path (tree_size body), x) # ws_disk st" "prefix x bs"
  | (same) "ws_disk st' = ws_disk st"
proof (cases "\<exists>body bs. body_from_cbor C (co_body_cbor co) = Inr body \<and> costh_to_json J co = Inr bs")
  case True
  then obtain body bs where b: "body_from_cbor C (co_body_cbor co) = Inr body" "costh_to_json J co = Inr bs" by blast
  then have "worm_write_new F (cosigned_path (tree_size body)) bs st = (r, st')"
    using assms by (simp add: worm_record_cosigned_sth_def)
  then show ?thesis using new same b by (elim worm_write_new_cases) blast+
next
  case False
  then show ?thesis using assms same by (auto simp: worm_record_cosigned_sth_def split: sum.splits)
qed

text \<open>The invariant, the sizes and the complete heads depend on the head files only.\<close>

lemma worm_heads_cong:
  assumes "\<And>x. map_of (ws_disk st') (''sth'', x) = map_of (ws_disk st) (''sth'', x)"
  shows "worm_sizes st' = worm_sizes st" "worm_complete C J st' = worm_complete C J st"
  by (simp_all add: worm_sizes_def worm_complete_def sth_path_def assms)

lemma worm_inv_cong:
  assumes "\<And>x. map_of (ws_disk st') (''sth'', x) = map_of (ws_disk st) (''sth'', x)"
    and "\<And>x. map_of (ws_disk st') (''cosigned'', x) = map_of (ws_disk st) (''cosigned'', x)"
  shows "worm_inv C J st' \<longleftrightarrow> worm_inv C J st"
  by (simp only: worm_inv_def assms)

lemma worm_append_heads:
  assumes "worm_append_leaf F i raw h st = (r, st')" "worm_inv C J st"
  shows "worm_inv C J st' \<and> worm_sizes st' = worm_sizes st \<and> worm_complete C J st' = worm_complete C J st"
proof -
  have same: "map_of (ws_disk st') (d, x) = map_of (ws_disk st) (d, x)" if "d \<noteq> ''leaves''" for d x
    using worm_append_disk(1) [OF assms(1), of "(d, x)"] that by (auto simp: leaf_path_def hash_path_def)
  then have "worm_inv C J st'" using assms(2) by (subst worm_inv_cong [of st' st]) simp_all
  then show ?thesis using worm_heads_cong [of st' st] same by simp
qed

text \<open>A file that decodes is a complete file.\<close>

lemma complete_file:
  assumes "worm_inv C J st" "map_of (ws_disk st) (''sth'', name) = Some p" "sth_from_json J p = Inr x"
  shows "\<exists>body. body_from_cbor C (body_cbor x) = Inr body \<and> tree_size body < 2 ^ 64 \<and> name = pad20 (tree_size body) @ ''.json'' \<and> sth_to_json J x = Inr p"
proof -
  obtain sth body bs where b: "body_from_cbor C (body_cbor sth) = Inr body" "tree_size body < 2 ^ 64" "name = pad20 (tree_size body) @ ''.json''"
    "sth_to_json J sth = Inr bs" "sth_from_json J bs = Inr sth" "prefix p bs"
    using assms(1,2) unfolding worm_inv_def by blast
  have "p = bs"
  proof (rule ccontr)
    assume "p \<noteq> bs"
    then have "strict_prefix p bs" using b(6) by simp
    then show False using assms(1,3) b(4) unfolding worm_inv_def no_prefix_decodes_def by fastforce
  qed
  then show ?thesis using b assms(3) by auto
qed

lemma worm_record_heads:
  assumes "worm_record_sth F C J sth st = (r, st')" "sth_storable C J sth" "worm_inv C J st"
    and body: "body_from_cbor C (body_cbor sth) = Inr body"
  shows "worm_inv C J st' \<and> worm_sizes st' \<subseteq> insert (tree_size body) (worm_sizes st) \<and>
    worm_complete C J st \<subseteq> worm_complete C J st' \<and> worm_complete C J st' \<subseteq> insert sth (worm_complete C J st) \<and>
    (r = Inr () \<longrightarrow> sth \<in> worm_complete C J st')"
  using assms(1)
proof (cases rule: worm_record_sth_cases)
  case (new body' bs x)
  have b: "body' = body" "sth_from_json J bs = Inr sth" "tree_size body < 2 ^ 64"
    using new(1,2) body assms(2) by (auto simp: sth_storable_def)
  have inv: "worm_inv C J st'"
    using assms(3) new b body unfolding worm_inv_def by (auto simp: sth_path_def)
  have sizes: "worm_sizes st' \<subseteq> insert (tree_size body) (worm_sizes st)"
    using new(4) b(1) by (auto simp: worm_sizes_def split: if_splits)
  have up: "worm_complete C J st \<subseteq> worm_complete C J st'"
    using new(3,4) b(1) by (auto simp: worm_complete_def split: if_splits)
  have down: "worm_complete C J st' \<subseteq> insert sth (worm_complete C J st)"
  proof
    fix y assume "y \<in> worm_complete C J st'"
    then obtain yb p where y: "body_from_cbor C (body_cbor y) = Inr yb" "map_of (ws_disk st') (sth_path (tree_size yb)) = Some p" "sth_from_json J p = Inr y"
      by (auto simp: worm_complete_def)
    show "y \<in> insert sth (worm_complete C J st)"
    proof (cases "tree_size yb = tree_size body")
      case True
      then have "p = x" using y(2) new(4) b(1) by simp
      moreover have "x = bs"
      proof (rule ccontr)
        assume "x \<noteq> bs"
        then have "strict_prefix x bs" using new(5) by simp
        then show False using assms(3) new(2) y(3) \<open>p = x\<close> unfolding worm_inv_def no_prefix_decodes_def by fastforce
      qed
      ultimately show ?thesis using y(3) b(2) by simp
    next
      case False
      then show ?thesis using y new(4) b(1) by (auto simp: worm_complete_def)
    qed
  qed
  have "r = Inr () \<longrightarrow> sth \<in> worm_complete C J st'"
    using new(4,6) b body by (auto simp: worm_complete_def)
  with inv sizes up down show ?thesis by blast
next
  case same
  then show ?thesis using assms(3) worm_heads_cong [of st' st] by (simp add: worm_inv_def) blast
qed

lemma worm_cosigned_heads:
  assumes "worm_record_cosigned_sth F C J co st = (r, st')" "costh_storable J co" "worm_inv C J st"
  shows "worm_inv C J st' \<and> worm_sizes st' = worm_sizes st \<and> worm_complete C J st' = worm_complete C J st"
  using assms(1)
proof (cases rule: worm_record_cosigned_cases)
  case (new body bs x)
  then have "costh_from_json J bs = Inr co" using assms(2) by (auto simp: costh_storable_def)
  then have "worm_inv C J st'" using assms(3) new unfolding worm_inv_def by (auto simp: cosigned_path_def)
  then show ?thesis using worm_heads_cong [of st' st] new(2) by (simp add: cosigned_path_def)
next
  case same
  then show ?thesis using assms(3) worm_heads_cong [of st' st] by (simp add: worm_inv_def)
qed

lemma worm_latest_cases:
  assumes "worm_inv C J st"
  obtains (none) "worm_latest_sth J st = Inr None" "\<And>n. map_of (ws_disk st) (sth_path n) = None"
  | (some) n p where "map_of (ws_disk st) (sth_path n) = Some p" "\<And>k. map_of (ws_disk st) (sth_path k) \<noteq> None \<Longrightarrow> k \<le> n"
      "worm_latest_sth J st = and_then (map_err AuditStoreError.Decode (sth_from_json J p)) (\<lambda>sth. Inr (Some sth))"
proof -
  let ?names = "disk_read_dir (ws_disk st) ''sth''"
  have names: "\<exists>n. n < 2 ^ 64 \<and> name = pad20 n @ ''.json''" if "name \<in> set ?names" for name
    using that assms unfolding in_read_dir_iff worm_inv_def by blast
  have member: "map_of (ws_disk st) (sth_path k) \<noteq> None \<longleftrightarrow> pad20 k @ ''.json'' \<in> set ?names" for k
    by (simp only: in_read_dir_iff sth_path_def)
  note spec = scan_latest_spec [OF refl, of None ?names]
  show ?thesis
  proof (cases "scan_latest None ?names")
    case None
    have "?names = []"
    proof (rule ccontr)
      assume "?names \<noteq> []"
      then obtain name where "name \<in> set ?names" by (cases ?names) auto
      then show False using names spec None by fastforce
    qed
    then have "map_of (ws_disk st) (sth_path n) = None" for n using member [of n] by simp
    moreover have "worm_latest_sth J st = Inr None" using None by (simp add: worm_latest_sth_def read_latest_in_def)
    ultimately show ?thesis using none by blast
  next
    case (Some mx)
    obtain m x where [simp]: "mx = (m, x)" by fastforce
    have x: "x \<in> set ?names" "name_number x = Some m" using spec Some by auto
    obtain p where p: "map_of (ws_disk st) (''sth'', x) = Some p" using x(1) unfolding in_read_dir_iff by blast
    obtain n where n: "n < 2 ^ 64" "x = pad20 n @ ''.json''" using names [OF x(1)] by blast
    have "m = n" using x(2) n by simp
    have "k \<le> n" if k: "map_of (ws_disk st) (sth_path k) \<noteq> None" for k
    proof -
      have in_names: "pad20 k @ ''.json'' \<in> set ?names" using k member by simp
      then have "k < 2 ^ 64" using names [of "pad20 k @ ''.json''"] by auto
      then have "name_number (pad20 k @ ''.json'') = Some k" by simp
      then show ?thesis using in_names spec Some \<open>m = n\<close> by force
    qed
    moreover have "worm_latest_sth J st = and_then (map_err AuditStoreError.Decode (sth_from_json J p)) (\<lambda>sth. Inr (Some sth))"
      using Some p by (simp add: worm_latest_sth_def read_latest_in_def disk_read_def)
    ultimately show ?thesis using some p n(2) by (simp add: sth_path_def)
  qed
qed

lemma worm_latest_heads:
  assumes "worm_inv C J st"
  shows "worm_latest_sth J st = Inr None \<and> worm_complete C J st = {} \<or>
      (\<exists>sth body. worm_latest_sth J st = Inr (Some sth) \<and> sth \<in> worm_complete C J st \<and> body_from_cbor C (body_cbor sth) = Inr body \<and>
         (\<forall>x\<in>worm_complete C J st. \<forall>b. body_from_cbor C (body_cbor x) = Inr b \<longrightarrow> tree_size b \<le> tree_size body)) \<or>
      (\<exists>e. worm_latest_sth J st = Inl (Decode e))"
  using assms
proof (cases rule: worm_latest_cases)
  case none
  then show ?thesis by (simp add: worm_complete_def)
next
  case (some n p)
  show ?thesis
  proof (cases "sth_from_json J p")
    case (Inr sth)
    then obtain body where "body_from_cbor C (body_cbor sth) = Inr body" "tree_size body = n"
      using complete_file [OF assms _ Inr, of "pad20 n @ ''.json''"] some(1) by (auto simp: sth_path_def)
    then show ?thesis using some Inr by (auto simp: worm_complete_def)
  qed (simp add: some(3))
qed

lemma worm_latest_torn:
  assumes "worm_inv C J st" "worm_latest_sth J st = Inl e"
  shows "(\<exists>m. e = Decode m) \<and> torn_head J st"
  using assms(1)
proof (cases rule: worm_latest_cases)
  case (some n p)
  then obtain m where m: "sth_from_json J p = Inl m" "e = Decode m"
    using assms(2) by (cases "sth_from_json J p") auto
  obtain sth bs where b: "sth_to_json J sth = Inr bs" "sth_from_json J bs = Inr sth" "prefix p bs"
    using assms(1) some(1) unfolding worm_inv_def sth_path_def by blast
  then have "strict_prefix p bs" using m(1) by (auto simp: strict_prefix_def)
  then show ?thesis using m(2) some(1) b(1) unfolding torn_head_def by blast
qed (use assms(2) in simp)

lemma worm_latest_cosigned:
  assumes "worm_inv C J st"
  shows "(\<exists>x. worm_latest_cosigned_sth J st = Inr x) \<or> (\<exists>m. worm_latest_cosigned_sth J st = Inl (Decode m)) \<and> torn_head J st"
proof (cases "scan_latest None (disk_read_dir (ws_disk st) ''cosigned'')")
  case (Some mx)
  obtain m x where [simp]: "mx = (m, x)" by fastforce
  have "x \<in> set (disk_read_dir (ws_disk st) ''cosigned'')" using scan_latest_spec [OF Some] by simp
  then obtain p where p: "map_of (ws_disk st) (''cosigned'', x) = Some p" unfolding in_read_dir_iff by blast
  obtain co bs n where b: "x = pad20 n @ ''.json''" "costh_to_json J co = Inr bs" "costh_from_json J bs = Inr co" "prefix p bs"
    using assms p unfolding worm_inv_def by blast
  have l: "worm_latest_cosigned_sth J st = and_then (map_err AuditStoreError.Decode (costh_from_json J p)) (\<lambda>co. Inr (Some co))"
    using Some p by (simp add: worm_latest_cosigned_sth_def read_latest_in_def disk_read_def)
  show ?thesis
  proof (cases "costh_from_json J p")
    case (Inl e)
    then have "strict_prefix p bs" using b(3,4) by (auto simp: strict_prefix_def)
    then have "torn_head J st" using p b(1,2) unfolding torn_head_def cosigned_path_def by blast
    then show ?thesis by (simp add: l Inl)
  qed (simp add: l)
qed (simp add: worm_latest_cosigned_sth_def read_latest_in_def)

interpretation worm: audit_heads "worm_ops F C J" C "worm_inv C J" "sth_storable C J" "costh_storable J" worm_sizes "worm_complete C J"
  for F C J
proof (unfold_locales, unfold worm_ops_def store_ops.simps)
  fix st st' :: worm and i j raw h r sth old co
  show "worm_read_leaf st i = Inl (Io NotFound) \<or> (\<exists>raw. worm_read_leaf st i = Inr raw)"
    by (simp add: worm_read_leaf_map split: option.splits)
  show "worm_append_leaf F i raw h st = (Inr (), st') \<Longrightarrow> worm_read_leaf st' i = Inr raw"
    by (simp add: worm_read_leaf_map worm_append_disk(2))
  show "worm_append_leaf F i raw h st = (r, st') \<Longrightarrow> j \<noteq> i \<Longrightarrow> worm_read_leaf st' j = worm_read_leaf st j"
    by (simp add: worm_read_leaf_map worm_append_disk(1))
  show "worm_append_leaf F i raw h st = (r, st') \<Longrightarrow> worm_read_leaf st i = Inr old \<Longrightarrow>
      r \<noteq> Inr () \<and> worm_read_leaf st' i = Inr old"
    using worm_append_disk(3) [of F i raw h st r st' old]
    by (simp add: worm_read_leaf_map split: option.splits)
  show "worm_record_sth F C J sth st = (r, st') \<Longrightarrow> worm_read_leaf st' j = worm_read_leaf st j"
    by (erule worm_record_sth_cases) (simp_all add: worm_read_leaf_map)
  show "worm_record_cosigned_sth F C J co st = (r, st') \<Longrightarrow> worm_read_leaf st' j = worm_read_leaf st j"
    by (erule worm_record_cosigned_cases) (simp_all add: worm_read_leaf_map cosigned_path_def leaf_path_def)
  show "worm_inv C J st \<Longrightarrow> (\<exists>x. worm_latest_cosigned_sth J st = Inr x) \<or> (\<exists>e. worm_latest_cosigned_sth J st = Inl (Decode e))"
    using worm_latest_cosigned by blast
qed (rule worm_append_heads worm_record_heads worm_cosigned_heads worm_latest_heads; assumption)+

end
