(* ===== verification/Audit_Log.thy ===== *)
theory Audit_Log
  imports Merkle Worm_Store "HOL-Library.Sublist"
begin

text \<open>
  \<open>crates/ferro-audit/src/log.rs\<close>: the audit log facade over a store, the Merkle tree and the
  tree head signers. The mutex makes every operation one step. The client lemmas are proved in
  the locale \<open>audit_store\<close>; the properties are their instances for the disk store.
\<close>

section \<open>The code\<close>

datatype AuditLogError =
    Event string
  | Store AuditStoreError
  | Sth SthError
  | Quorum QuorumError
  | Range string
  | Resume string

record log_state =
  lg_tree :: merkle_tree
  lg_latest_sth :: "signed_tree_head option"
  lg_latest_cosigned_sth :: "cosigned_tree_head option"

text \<open>The replay loop of \<open>AuditLog::new\<close> reads leaves until one is missing; \<open>None\<close> is a loop that
  never ends.\<close>

partial_function (option) replay ::
  "'s store_ops \<Rightarrow> (bytes \<Rightarrow> bytes) \<Rightarrow> 's \<Rightarrow> merkle_tree \<Rightarrow> (AuditLogError, merkle_tree) result option" where
  "replay S H st t =
     (case read_leaf S st (tree_len t) of
        Inr raw \<Rightarrow> replay S H st (snd (tree_append t (leaf_hash H raw)))
      | Inl e \<Rightarrow> (if e = Io NotFound then Some (Inr t) else Some (Inl (Store e))))"

definition root_or_zero :: "(bytes \<Rightarrow> bytes) \<Rightarrow> merkle_tree \<Rightarrow> bytes" where
  "root_or_zero H t = (case tree_root H t of None \<Rightarrow> replicate HASH_LEN 0 | Some r \<Rightarrow> r)"

fun prefix_loop :: "merkle_tree \<Rightarrow> nat list \<Rightarrow> merkle_tree \<Rightarrow> (AuditLogError, merkle_tree) result" where
  "prefix_loop t [] pre = Inr pre"
| "prefix_loop t (i # is) pre =
     (case tree_leaf t i of
        None \<Rightarrow> Inl (Resume (''leaf '' @ dec i @ '' missing''))
      | Some hash \<Rightarrow> prefix_loop t is (snd (tree_append pre hash)))"

definition check_latest ::
  "(bytes \<Rightarrow> bytes) \<Rightarrow> body_codec \<Rightarrow> merkle_tree \<Rightarrow> signed_tree_head option \<Rightarrow> (AuditLogError, unit) result" where
  "check_latest H C t latest =
     (case latest of
        None \<Rightarrow> Inr ()
      | Some sth \<Rightarrow>
          and_then (map_err Sth (decode_sth_body C (body_cbor sth))) (\<lambda>body.
          let covered = tree_size body
          in if covered > tree_len t
             then Inl (Resume (''persisted STH covers '' @ dec covered @ '' leaves but only '' @ dec (tree_len t) @ '' are on disk''))
             else and_then (prefix_loop t [0..<covered] tree_new) (\<lambda>pre.
                  if root_or_zero H pre \<noteq> root_hash body
                  then Inl (Resume (''rebuilt root for '' @ dec covered @ '' leaves does not match the persisted STH''))
                  else Inr ())))"

definition AuditLog_new ::
  "'s store_ops \<Rightarrow> (bytes \<Rightarrow> bytes) \<Rightarrow> body_codec \<Rightarrow> 's \<Rightarrow> (AuditLogError, log_state) result option" where
  "AuditLog_new S H C st =
     map_option (\<lambda>r.
       and_then r (\<lambda>t.
       and_then (map_err Store (latest_sth S st)) (\<lambda>latest.
       and_then (check_latest H C t latest) (\<lambda>_.
       and_then (map_err Store (latest_cosigned_sth S st)) (\<lambda>latest_co.
       Inr \<lparr>lg_tree = t, lg_latest_sth = latest, lg_latest_cosigned_sth = latest_co\<rparr>)))))
     (replay S H st tree_new)"

definition log_append ::
  "'s store_ops \<Rightarrow> (bytes \<Rightarrow> bytes) \<Rightarrow> ('ev \<Rightarrow> (string, bytes) result) \<Rightarrow> 'ev \<Rightarrow> log_state \<Rightarrow> 's \<Rightarrow>
   (AuditLogError, nat) result \<times> log_state \<times> 's" where
  "log_append S H encode ev lg st =
     (case encode ev of
        Inl e \<Rightarrow> (Inl (Event e), lg, st)
      | Inr raw \<Rightarrow>
          let hash = leaf_hash H raw; index = tree_len (lg_tree lg)
          in case append_leaf S index raw hash st of
               (Inl e, st') \<Rightarrow> (Inl (Store e), lg, st')
             | (Inr _, st') \<Rightarrow> (Inr index, lg\<lparr>lg_tree := snd (tree_append (lg_tree lg) hash)\<rparr>, st'))"

definition current_body :: "(bytes \<Rightarrow> bytes) \<Rightarrow> log_state \<Rightarrow> int \<Rightarrow> sth_body" where
  "current_body H lg ts =
     \<lparr>tree_size = tree_len (lg_tree lg), root_hash = root_or_zero H (lg_tree lg), sth_timestamp = ts\<rparr>"

definition produce_sth ::
  "'s store_ops \<Rightarrow> (bytes \<Rightarrow> bytes) \<Rightarrow> sth_signer \<Rightarrow> int \<Rightarrow> log_state \<Rightarrow> 's \<Rightarrow>
   (AuditLogError, signed_tree_head) result \<times> log_state \<times> 's" where
  "produce_sth S H signer ts lg st =
     (case snd signer (current_body H lg ts) of
        Inl e \<Rightarrow> (Inl (Sth e), lg, st)
      | Inr sth \<Rightarrow>
          (case record_sth S sth st of
             (Inl e, st') \<Rightarrow> (Inl (Store e), lg, st')
           | (Inr _, st') \<Rightarrow> (Inr sth, lg\<lparr>lg_latest_sth := Some sth\<rparr>, st')))"

definition produce_cosigned_sth ::
  "'s store_ops \<Rightarrow> (bytes \<Rightarrow> bytes) \<Rightarrow> body_codec \<Rightarrow> quorum_signer \<Rightarrow> int \<Rightarrow> log_state \<Rightarrow> 's \<Rightarrow>
   (AuditLogError, cosigned_tree_head) result \<times> log_state \<times> 's" where
  "produce_cosigned_sth S H C quorum ts lg st =
     (case quorum_sign C quorum (current_body H lg ts) of
        Inl e \<Rightarrow> (Inl (Quorum e), lg, st)
      | Inr sth \<Rightarrow>
          (case record_cosigned_sth S sth st of
             (Inl e, st') \<Rightarrow> (Inl (Store e), lg, st')
           | (Inr _, st') \<Rightarrow> (Inr sth, lg\<lparr>lg_latest_cosigned_sth := Some sth\<rparr>, st')))"

record inclusion_proof =
  ip_leaf_hash :: bytes
  ip_leaf_index :: nat
  ip_tree_size :: nat
  ip_root_hash :: bytes
  ip_audit_path :: "bytes list"

record consistency_proof =
  cp_old_size :: nat
  cp_new_size :: nat
  cp_new_root_hash :: bytes
  cp_audit_path :: "bytes list"

text \<open>The two \<open>expect\<close> calls panic when the tree has no root: that is \<open>None\<close>.\<close>

definition log_inclusion_proof ::
  "(bytes \<Rightarrow> bytes) \<Rightarrow> log_state \<Rightarrow> nat \<Rightarrow> (AuditLogError, inclusion_proof) result option" where
  "log_inclusion_proof H lg index =
     (let t = lg_tree lg; out = Range (''index '' @ dec index @ '' >= tree size '' @ dec (tree_len t))
      in case tree_leaf t index of
           None \<Rightarrow> Some (Inl out)
         | Some leaf \<Rightarrow>
             (case tree_inclusion_proof H t index of
                None \<Rightarrow> Some (Inl out)
              | Some ps \<Rightarrow>
                  (case tree_root H t of
                     None \<Rightarrow> None
                   | Some root \<Rightarrow>
                       Some (Inr \<lparr>ip_leaf_hash = leaf, ip_leaf_index = index, ip_tree_size = tree_len t,
                                  ip_root_hash = root, ip_audit_path = ps\<rparr>))))"

definition log_consistency_proof ::
  "(bytes \<Rightarrow> bytes) \<Rightarrow> log_state \<Rightarrow> nat \<Rightarrow> (AuditLogError, consistency_proof) result option" where
  "log_consistency_proof H lg m =
     (let t = lg_tree lg; n = tree_len t
      in if m = 0 \<or> m > n then Some (Inl (Range (''old_size '' @ dec m @ '' not in 1..='' @ dec n)))
         else
           (case tree_consistency_proof H t m n of
              None \<Rightarrow> Some (Inl (Range (''consistency ('' @ dec m @ '','' @ dec n @ '') out of range'')))
            | Some ps \<Rightarrow>
                (case tree_root H t of
                   None \<Rightarrow> None
                 | Some root \<Rightarrow>
                     Some (Inr \<lparr>cp_old_size = m, cp_new_size = n, cp_new_root_hash = root, cp_audit_path = ps\<rparr>))))"

section \<open>Runs\<close>

text \<open>The operations of the log, and a restart of the process on the same store. A signer returns a head that
  decodes to the body it was given and that the store can hold.\<close>

definition signer_ok :: "body_codec \<Rightarrow> (signed_tree_head \<Rightarrow> bool) \<Rightarrow> sth_signer \<Rightarrow> bool" where
  "signer_ok C storable sg \<longleftrightarrow>
     (\<forall>b s. tree_size b < 2 ^ 64 \<longrightarrow> snd sg b = Inr s \<longrightarrow> body_from_cbor C (body_cbor s) = Inr b \<and> storable s)"

definition quorum_ok :: "body_codec \<Rightarrow> (cosigned_tree_head \<Rightarrow> bool) \<Rightarrow> quorum_signer \<Rightarrow> bool" where
  "quorum_ok C co_storable q \<longleftrightarrow> (\<forall>b s. quorum_sign C q b = Inr s \<longrightarrow> co_storable s)"

inductive log_step ::
  "'s store_ops \<Rightarrow> (bytes \<Rightarrow> bytes) \<Rightarrow> body_codec \<Rightarrow> ('ev \<Rightarrow> (string, bytes) result) \<Rightarrow>
   (signed_tree_head \<Rightarrow> bool) \<Rightarrow> (cosigned_tree_head \<Rightarrow> bool) \<Rightarrow> log_state \<times> 's \<Rightarrow> log_state \<times> 's \<Rightarrow> bool"
  for S H C encode storable co_storable where
  append: "log_append S H encode ev lg st = (r, lg', st') \<Longrightarrow>
    log_step S H C encode storable co_storable (lg, st) (lg', st')"
| publish: "tree_len (lg_tree lg) < 2 ^ 64 \<Longrightarrow> signer_ok C storable sg \<Longrightarrow>
    produce_sth S H sg ts lg st = (r, lg', st') \<Longrightarrow>
    log_step S H C encode storable co_storable (lg, st) (lg', st')"
| cosign: "quorum_ok C co_storable q \<Longrightarrow> produce_cosigned_sth S H C q ts lg st = (r, lg', st') \<Longrightarrow>
    log_step S H C encode storable co_storable (lg, st) (lg', st')"
| restart: "AuditLog_new S H C st = Some (Inr lg') \<Longrightarrow>
    log_step S H C encode storable co_storable (lg, st) (lg', st)"

inductive_cases log_stepE: "log_step S H C encode storable co_storable (lg, st) (lg', st')"

lemmas log_step_cases = log_stepE [consumes 1, case_names append publish cosign restart]

text \<open>The operations of a running process.\<close>

inductive running_step ::
  "'s store_ops \<Rightarrow> (bytes \<Rightarrow> bytes) \<Rightarrow> body_codec \<Rightarrow> ('ev \<Rightarrow> (string, bytes) result) \<Rightarrow> log_state \<times> 's \<Rightarrow> log_state \<times> 's \<Rightarrow> bool"
  for S H C encode where
  "log_append S H encode ev lg st = (r, lg', st') \<Longrightarrow> running_step S H C encode (lg, st) (lg', st')"
| "produce_sth S H sg ts lg st = (r1, lg', st') \<Longrightarrow> running_step S H C encode (lg, st) (lg', st')"
| "produce_cosigned_sth S H C q ts lg st = (r2, lg', st') \<Longrightarrow> running_step S H C encode (lg, st) (lg', st')"

definition fresh_log :: log_state where
  "fresh_log = \<lparr>lg_tree = tree_new, lg_latest_sth = None, lg_latest_cosigned_sth = None\<rparr>"

text \<open>A head that describes a prefix of the tree.\<close>

definition head_ok :: "(bytes \<Rightarrow> bytes) \<Rightarrow> body_codec \<Rightarrow> merkle_tree \<Rightarrow> signed_tree_head \<Rightarrow> bool" where
  "head_ok H C t sth \<longleftrightarrow>
     (\<exists>body. body_from_cbor C (body_cbor sth) = Inr body \<and> tree_size body \<le> tree_len t \<and>
        root_hash body = root_or_zero H \<lparr>leaves = take (tree_size body) (leaves t)\<rparr>)"

text \<open>The leaves of the tree are the hashes of the stored leaves, and the store has at most one leaf more.\<close>

definition leaf_inv :: "'s store_ops \<Rightarrow> (bytes \<Rightarrow> bytes) \<Rightarrow> merkle_tree \<Rightarrow> 's \<Rightarrow> bool" where
  "leaf_inv S H t st \<longleftrightarrow>
     (\<forall>i < tree_len t. \<exists>raw. read_leaf S st i = Inr raw \<and> leaves t ! i = leaf_hash H raw) \<and>
     (\<forall>i > tree_len t. read_leaf S st i = Inl (Io NotFound))"

text \<open>Every complete head describes a prefix of the tree, the last published one among them.\<close>

definition head_inv ::
  "(bytes \<Rightarrow> bytes) \<Rightarrow> body_codec \<Rightarrow> ('s \<Rightarrow> bool) \<Rightarrow> ('s \<Rightarrow> nat set) \<Rightarrow> ('s \<Rightarrow> signed_tree_head set) \<Rightarrow> log_state \<Rightarrow> 's \<Rightarrow> bool" where
  "head_inv H C good sizes complete lg st \<longleftrightarrow>
     good st \<and> (\<forall>n\<in>sizes st. n \<le> tree_len (lg_tree lg)) \<and>
     (\<forall>sth\<in>complete st. head_ok H C (lg_tree lg) sth) \<and> (\<forall>sth. lg_latest_sth lg = Some sth \<longrightarrow> sth \<in> complete st)"

text \<open>The tree after a restart: the one before, or with the bytes of one more stored leaf.\<close>

definition resumed :: "'s store_ops \<Rightarrow> (bytes \<Rightarrow> bytes) \<Rightarrow> 's \<Rightarrow> merkle_tree \<Rightarrow> merkle_tree \<Rightarrow> bool" where
  "resumed S H st t t' \<longleftrightarrow> leaves t' = leaves t \<or>
     (\<exists>raw. read_leaf S st (tree_len t) = Inr raw \<and> leaves t' = leaves t @ [leaf_hash H raw])"

lemma head_ok_mono:
  assumes "head_ok H C t sth" "prefix (leaves t) (leaves t')"
  shows "head_ok H C t' sth"
proof -
  obtain zs where "leaves t' = leaves t @ zs" using assms(2) by (auto elim: prefixE)
  then show ?thesis using assms(1) by (auto simp: head_ok_def tree_len_def)
qed

section \<open>The client\<close>

lemma tree_new_simps [simp]: "leaves tree_new = []" "tree_len tree_new = 0"
  by (simp_all add: tree_new_def tree_len_def)

lemma replay_eq:
  assumes "\<And>i. i < n \<Longrightarrow> read_leaf S st i = Inr (raw i)" "read_leaf S st n = Inl (Io NotFound)" "tree_len t \<le> n"
  shows "replay S H st t = Some (Inr \<lparr>leaves = leaves t @ map (\<lambda>i. leaf_hash H (raw i)) [tree_len t..<n]\<rparr>)"
  using assms(3)
proof (induction "n - tree_len t" arbitrary: t)
  case 0
  then have "tree_len t = n" by simp
  then show ?case using assms(2) by (subst replay.simps) simp
next
  case (Suc k)
  then have lt: "tree_len t < n" by simp
  let ?t = "snd (tree_append t (leaf_hash H (raw (tree_len t))))"
  have t': "leaves ?t = leaves t @ [leaf_hash H (raw (tree_len t))]" "tree_len ?t = Suc (tree_len t)"
    by (simp_all add: tree_append_def tree_len_def)
  have "replay S H st t = replay S H st ?t"
    using assms(1) [OF lt] by (subst replay.simps) simp
  also have "\<dots> = Some (Inr \<lparr>leaves = leaves ?t @ map (\<lambda>i. leaf_hash H (raw i)) [tree_len ?t..<n]\<rparr>)"
    using Suc lt by (intro Suc.hyps(1)) (simp_all add: t'(2))
  finally show ?case using lt by (simp add: t' upt_conv_Cons)
qed

lemma prefix_loop_eq:
  "\<forall>i \<in> set is. i < tree_len t \<Longrightarrow> prefix_loop t is p = Inr \<lparr>leaves = leaves p @ map ((!) (leaves t)) is\<rparr>"
  by (induction "is" arbitrary: p) (auto simp: tree_leaf_def tree_append_def tree_len_def)

lemma prefix_loop_take:
  "k \<le> tree_len t \<Longrightarrow> prefix_loop t [0..<k] tree_new = Inr \<lparr>leaves = take k (leaves t)\<rparr>"
  by (subst prefix_loop_eq) (auto simp: tree_new_def tree_len_def list_eq_iff_nth_eq)

lemma check_latest_ok:
  assumes "\<And>sth. latest = Some sth \<Longrightarrow> head_ok H C t sth"
  shows "check_latest H C t latest = Inr ()"
proof (cases latest)
  case None
  then show ?thesis by (simp add: check_latest_def)
next
  case (Some sth)
  then obtain body where "body_from_cbor C (body_cbor sth) = Inr body" "tree_size body \<le> tree_len t"
    "root_hash body = root_or_zero H \<lparr>leaves = take (tree_size body) (leaves t)\<rparr>" using assms unfolding head_ok_def by blast
  then show ?thesis using Some by (simp add: check_latest_def decode_sth_body_def prefix_loop_take Let_def)
qed

context audit_store
begin

lemma leaf_append:
  assumes "log_append S H encode ev lg st = (r, lg', st')" "leaf_inv S H (lg_tree lg) st"
  shows "leaf_inv S H (lg_tree lg') st' \<and> prefix (leaves (lg_tree lg)) (leaves (lg_tree lg'))"
proof (cases "encode ev")
  case (Inl e)
  then show ?thesis using assms by (simp add: log_append_def)
next
  case (Inr raw)
  let ?i = "tree_len (lg_tree lg)"
  obtain r1 st1 where a: "append_leaf S ?i raw (leaf_hash H raw) st = (r1, st1)" by fastforce
  have st': "st' = st1" and lg': "lg' = (if r1 = Inr () then lg\<lparr>lg_tree := snd (tree_append (lg_tree lg) (leaf_hash H raw))\<rparr> else lg)"
    using assms(1) Inr a by (auto simp: log_append_def Let_def split: sum.splits)
  have frame: "read_leaf S st1 j = read_leaf S st j" if "j \<noteq> ?i" for j using append_frame [OF a that] .
  have above: "\<forall>j > ?i. read_leaf S st1 j = Inl (Io NotFound)"
    using assms(2) frame by (simp add: leaf_inv_def)
  have below: "\<forall>j < ?i. \<exists>raw. read_leaf S st1 j = Inr raw \<and> leaves (lg_tree lg) ! j = leaf_hash H raw"
    using assms(2) frame by (simp add: leaf_inv_def)
  show ?thesis
  proof (cases "r1 = Inr ()")
    case True
    then have new: "read_leaf S st1 ?i = Inr raw" using append_read a by blast
    have t: "lg_tree lg' = \<lparr>leaves = leaves (lg_tree lg) @ [leaf_hash H raw]\<rparr>" "tree_len (lg_tree lg') = Suc ?i"
      using True by (simp_all add: lg' tree_append_def tree_len_def)
    have "\<exists>raw. read_leaf S st1 j = Inr raw \<and> leaves (lg_tree lg') ! j = leaf_hash H raw" if "j < Suc ?i" for j
    proof (cases "j = ?i")
      case True
      then show ?thesis using new t(1) by (simp add: tree_len_def)
    next
      case False
      then show ?thesis using that below t(1) by (simp add: tree_len_def nth_append)
    qed
    then show ?thesis using above t unfolding leaf_inv_def by (simp add: st')
  next
    case False
    then have "lg' = lg" by (simp add: lg')
    then show ?thesis using above below by (simp add: leaf_inv_def st')
  qed
qed

lemma publish_frame:
  assumes "produce_sth S H sg ts lg st = (r, lg', st')"
  shows "lg_tree lg' = lg_tree lg" "read_leaf S st' i = read_leaf S st i"
  using assms by (auto simp: produce_sth_def split: sum.splits prod.splits dest: record_frame)

lemma cosign_frame:
  assumes "produce_cosigned_sth S H C q ts lg st = (r, lg', st')"
  shows "lg_tree lg' = lg_tree lg" "lg_latest_sth lg' = lg_latest_sth lg" "read_leaf S st' i = read_leaf S st i"
  using assms by (auto simp: produce_cosigned_sth_def split: sum.splits prod.splits dest: cosigned_frame)

lemma leaf_inv_cong:
  assumes "\<And>i. read_leaf S st' i = read_leaf S st i"
  shows "leaf_inv S H t st' \<longleftrightarrow> leaf_inv S H t st"
  by (simp add: leaf_inv_def assms)

lemma stored_leaves:
  assumes "leaf_inv S H t st"
  obtains raw where "\<And>i. i < tree_len t \<Longrightarrow> read_leaf S st i = Inr (raw i)"
    "leaves t = map (\<lambda>i. leaf_hash H (raw i)) [0..<tree_len t]"
proof -
  have "\<forall>i. \<exists>raw. i < tree_len t \<longrightarrow> read_leaf S st i = Inr raw \<and> leaves t ! i = leaf_hash H raw"
    using assms unfolding leaf_inv_def by blast
  then obtain raw where r: "\<forall>i. i < tree_len t \<longrightarrow> read_leaf S st i = Inr (raw i) \<and> leaves t ! i = leaf_hash H (raw i)"
    by (rule choice [THEN exE])
  have "leaves t = map (\<lambda>i. leaf_hash H (raw i)) [0..<tree_len t]"
  proof (rule nth_equalityI)
    fix i assume i: "i < length (leaves t)"
    then have "leaves t ! i = leaf_hash H (raw i)" using r by (simp only: tree_len_def)
    then show "leaves t ! i = map (\<lambda>i. leaf_hash H (raw i)) [0..<tree_len t] ! i"
      using i by (simp add: tree_len_def)
  qed (simp add: tree_len_def)
  with r show ?thesis by (intro that) auto
qed

lemma resume_replay:
  assumes "leaf_inv S H t0 st"
  shows "\<exists>t. replay S H st tree_new = Some (Inr t) \<and> resumed S H st t0 t \<and> leaf_inv S H t st"
proof -
  let ?n = "tree_len t0"
  obtain raw where raw: "\<And>i. i < ?n \<Longrightarrow> read_leaf S st i = Inr (raw i)" "leaves t0 = map (\<lambda>i. leaf_hash H (raw i)) [0..<?n]"
    using stored_leaves [OF assms] by blast
  consider "read_leaf S st ?n = Inl (Io NotFound)" | x where "read_leaf S st ?n = Inr x" using read_total by blast
  then show ?thesis
  proof cases
    case 1
    have "replay S H st tree_new = Some (Inr \<lparr>leaves = map (\<lambda>i. leaf_hash H (raw i)) [0..<?n]\<rparr>)"
      by (subst replay_eq [OF raw(1) 1]) simp_all
    then have "replay S H st tree_new = Some (Inr \<lparr>leaves = leaves t0\<rparr>)" unfolding raw(2) [symmetric] .
    then show ?thesis using assms by (auto simp: resumed_def leaf_inv_def tree_len_def)
  next
    case (2 x)
    have all: "read_leaf S st i = Inr ((raw(?n := x)) i)" if "i < Suc ?n" for i using that raw(1) 2 by (auto simp: less_Suc_eq)
    moreover have "read_leaf S st (Suc ?n) = Inl (Io NotFound)" using assms by (simp add: leaf_inv_def)
    ultimately have "replay S H st tree_new = Some (Inr \<lparr>leaves = map (\<lambda>i. leaf_hash H ((raw(?n := x)) i)) [0..<Suc ?n]\<rparr>)"
      by (subst replay_eq [of "Suc ?n" S st "raw(?n := x)"]) simp_all
    moreover have eq: "map (\<lambda>i. leaf_hash H ((raw(?n := x)) i)) [0..<Suc ?n] = leaves t0 @ [leaf_hash H x]"
      by (subst raw(2)) simp
    ultimately have r: "replay S H st tree_new = Some (Inr \<lparr>leaves = leaves t0 @ [leaf_hash H x]\<rparr>)" by (simp only:)
    have "leaf_inv S H \<lparr>leaves = leaves t0 @ [leaf_hash H x]\<rparr> st"
      using assms 2 by (simp add: leaf_inv_def tree_len_def nth_append less_Suc_eq all_conj_distrib)
    then show ?thesis using r 2 by (auto simp: resumed_def)
  qed
qed

lemma resume_leaves:
  assumes "AuditLog_new S H C st = Some (Inr lg')" "leaf_inv S H t st"
  shows "leaf_inv S H (lg_tree lg') st" "resumed S H st t (lg_tree lg')"
proof -
  obtain t' where t: "replay S H st tree_new = Some (Inr t')" "resumed S H st t t'" "leaf_inv S H t' st"
    using resume_replay [OF assms(2)] by blast
  then have "lg_tree lg' = t'" using assms(1) by (auto simp: AuditLog_new_def result_simps)
  then show "leaf_inv S H (lg_tree lg') st" "resumed S H st t (lg_tree lg')" using t by simp_all
qed

lemma step_inv:
  assumes "log_step S H C encode storable co_storable (lg, st) (lg', st')" "leaf_inv S H (lg_tree lg) st"
  shows "leaf_inv S H (lg_tree lg') st' \<and> prefix (leaves (lg_tree lg)) (leaves (lg_tree lg'))"
  using assms(1)
proof (cases rule: log_step_cases)
  case append
  then show ?thesis by (rule leaf_append [OF _ assms(2)])
next
  case (publish sg ts r)
  then show ?thesis using publish_frame leaf_inv_cong [of st' st] assms(2) by auto
next
  case (cosign q ts r)
  then show ?thesis using cosign_frame leaf_inv_cong [of st' st] assms(2) by auto
next
  case restart
  then have "leaf_inv S H (lg_tree lg') st" "resumed S H st (lg_tree lg) (lg_tree lg')"
    using resume_leaves [OF restart(2) assms(2)] by simp_all
  then show ?thesis using restart(1) by (auto simp: resumed_def)
qed

lemma steps_inv:
  assumes "(log_step S H C encode storable co_storable)\<^sup>*\<^sup>* (lg, st) (lg', st')" "leaf_inv S H (lg_tree lg) st"
  shows "leaf_inv S H (lg_tree lg') st' \<and> prefix (leaves (lg_tree lg)) (leaves (lg_tree lg'))"
  using assms
proof (induction "(lg', st')" arbitrary: lg' st' rule: rtranclp_induct)
  case base
  then show ?case by simp
next
  case (step y)
  obtain lg1 st1 where y: "y = (lg1, st1)" by fastforce
  have "leaf_inv S H (lg_tree lg1) st1 \<and> prefix (leaves (lg_tree lg)) (leaves (lg_tree lg1))" using step y by blast
  moreover from this have "leaf_inv S H (lg_tree lg') st' \<and> prefix (leaves (lg_tree lg1)) (leaves (lg_tree lg'))"
    using step_inv step.hyps(2) y by blast
  ultimately show ?case by (blast intro: prefix_order.trans)
qed

lemma append_blocked:
  assumes "read_leaf S st (tree_len (lg_tree lg)) = Inr old" "log_append S H encode ev lg st = (r, lg', st')"
  shows "(\<exists>e. r = Inl e) \<and> lg' = lg \<and> read_leaf S st' (tree_len (lg_tree lg)) = Inr old"
proof (cases "encode ev")
  case (Inl e)
  then show ?thesis using assms by (auto simp: log_append_def)
next
  case (Inr raw)
  obtain r1 st1 where a: "append_leaf S (tree_len (lg_tree lg)) raw (leaf_hash H raw) st = (r1, st1)" by fastforce
  have w: "r1 \<noteq> Inr ()" "read_leaf S st1 (tree_len (lg_tree lg)) = Inr old"
    using append_worm [OF a assms(1)] by simp_all
  then obtain e where e: "r1 = Inl e" by (cases r1) simp_all
  have "r = Inl (Store e) \<and> lg' = lg \<and> st' = st1" using assms(2) by (simp add: log_append_def Inr a e)
  then show ?thesis using w(2) by simp
qed

end

context audit_heads
begin

lemma head_append:
  assumes "log_append S H encode ev lg st = (r, lg', st')" "head_inv H C good sizes complete lg st"
    and "prefix (leaves (lg_tree lg)) (leaves (lg_tree lg'))"
  shows "head_inv H C good sizes complete lg' st'"
proof -
  have "good st' \<and> sizes st' = sizes st \<and> complete st' = complete st \<and> lg_latest_sth lg' = lg_latest_sth lg"
    using assms(1,2) append_heads
    by (auto simp: log_append_def head_inv_def Let_def split: sum.splits prod.splits)
  moreover have "tree_len (lg_tree lg) \<le> tree_len (lg_tree lg')" using assms(3) by (simp add: tree_len_def prefix_length_le)
  ultimately show ?thesis
    using assms(2) head_ok_mono [OF _ assms(3)] by (auto simp: head_inv_def)
qed

lemma head_publish:
  assumes "produce_sth S H sg ts lg st = (r, lg', st')" "head_inv H C good sizes complete lg st"
    and "signer_ok C storable sg" "tree_len (lg_tree lg) < 2 ^ 64"
  shows "head_inv H C good sizes complete lg' st'"
proof (cases "snd sg (current_body H lg ts)")
  case (Inl e)
  then show ?thesis using assms by (simp add: produce_sth_def)
next
  case (Inr sth)
  obtain r1 st1 where a: "record_sth S sth st = (r1, st1)" by fastforce
  have st': "st' = st1" and lg': "lg' = (if r1 = Inr () then lg\<lparr>lg_latest_sth := Some sth\<rparr> else lg)"
    using assms(1) Inr a by (auto simp: produce_sth_def split: sum.splits)
  have size: "tree_size (current_body H lg ts) = tree_len (lg_tree lg)" by (simp add: current_body_def)
  then have sth: "body_from_cbor C (body_cbor sth) = Inr (current_body H lg ts)" "storable sth"
    using assms(3,4) Inr unfolding signer_ok_def by metis+
  have "\<lparr>leaves = take (tree_len (lg_tree lg)) (leaves (lg_tree lg))\<rparr> = lg_tree lg"
    by (simp add: tree_len_def)
  then have "head_ok H C (lg_tree lg) sth"
    using sth(1) by (simp add: head_ok_def current_body_def)
  moreover have g: "good st" using assms(2) by (simp add: head_inv_def)
  ultimately show ?thesis
    using assms(2) record_heads [OF a sth(2) g sth(1)] size
    unfolding head_inv_def st' lg' by (auto simp: subset_iff split: if_splits)
qed

lemma head_cosign:
  assumes "produce_cosigned_sth S H C q ts lg st = (r, lg', st')" "head_inv H C good sizes complete lg st" "quorum_ok C co_storable q"
  shows "head_inv H C good sizes complete lg' st'"
proof -
  have "good st' \<and> sizes st' = sizes st \<and> complete st' = complete st"
    using assms cosigned_heads
    by (auto simp: produce_cosigned_sth_def head_inv_def quorum_ok_def split: sum.splits prod.splits)
  then show ?thesis using assms(2) cosign_frame [OF assms(1)] by (simp add: head_inv_def)
qed

text \<open>A restart opens the log, or reports a head that does not decode.\<close>

lemma resume_heads:
  assumes "leaf_inv S H (lg_tree lg) st" "head_inv H C good sizes complete lg st"
  obtains (ok) lg' where "AuditLog_new S H C st = Some (Inr lg')" "resumed S H st (lg_tree lg) (lg_tree lg')"
      "lg_latest_sth lg' = None \<longrightarrow> lg_latest_sth lg = None"
      "\<And>sth. lg_latest_sth lg' = Some sth \<Longrightarrow> sth \<in> complete st \<and> (\<forall>old b body. lg_latest_sth lg = Some old \<longrightarrow>
         body_from_cbor C (body_cbor old) = Inr b \<longrightarrow> body_from_cbor C (body_cbor sth) = Inr body \<longrightarrow> tree_size b \<le> tree_size body)"
  | (torn) e where "AuditLog_new S H C st = Some (Inl (Store (Decode e)))"
      "latest_sth S st = Inl (Decode e) \<or> latest_cosigned_sth S st = Inl (Decode e)"
proof -
  obtain t where t: "replay S H st tree_new = Some (Inr t)" "resumed S H st (lg_tree lg) t"
    using resume_replay [OF assms(1)] by blast
  have good: "good st" using assms(2) by (simp add: head_inv_def)
  have p: "prefix (leaves (lg_tree lg)) (leaves t)" using t(2) by (auto simp: resumed_def)
  show thesis
  proof (cases "\<exists>e. latest_sth S st = Inl (Decode e)")
    case True
    then obtain e where "latest_sth S st = Inl (Decode e)" ..
    then show thesis using t(1) torn [of e] by (simp add: AuditLog_new_def)
  next
    case False
    then obtain latest where latest: "latest_sth S st = Inr latest" "latest = None \<longrightarrow> complete st = {}"
      "\<And>sth. latest = Some sth \<Longrightarrow> sth \<in> complete st \<and> (\<exists>body. body_from_cbor C (body_cbor sth) = Inr body \<and>
         (\<forall>x\<in>complete st. \<forall>b. body_from_cbor C (body_cbor x) = Inr b \<longrightarrow> tree_size b \<le> tree_size body))"
      using latest_heads [OF good] by blast
    have check: "check_latest H C t latest = Inr ()"
      by (rule check_latest_ok) (use assms(2) latest(3) head_ok_mono [OF _ p] in \<open>auto simp: head_inv_def\<close>)
    show thesis
    proof (cases "latest_cosigned_sth S st")
      case (Inl e)
      then obtain m where "e = Decode m" using latest_cosigned [OF good] by auto
      then show thesis using t(1) latest(1) check Inl torn [of m] by (simp add: AuditLog_new_def)
    next
      case (Inr co)
      let ?lg = "\<lparr>lg_tree = t, lg_latest_sth = latest, lg_latest_cosigned_sth = co\<rparr>"
      have "AuditLog_new S H C st = Some (Inr ?lg)"
        using t(1) latest(1) check Inr by (simp add: AuditLog_new_def)
      moreover have "lg_latest_sth ?lg = None \<longrightarrow> lg_latest_sth lg = None"
        using latest(2) assms(2) by (cases "lg_latest_sth lg") (auto simp: head_inv_def)
      moreover have "sth \<in> complete st \<and> (\<forall>old b body. lg_latest_sth lg = Some old \<longrightarrow>
         body_from_cbor C (body_cbor old) = Inr b \<longrightarrow> body_from_cbor C (body_cbor sth) = Inr body \<longrightarrow> tree_size b \<le> tree_size body)"
        if "lg_latest_sth ?lg = Some sth" for sth
        using latest(3) [of sth] that assms(2) by (auto simp: head_inv_def)
      ultimately show thesis using ok [of ?lg] t(2) by simp
    qed
  qed
qed

lemma heads_step:
  assumes "log_step S H C encode storable co_storable (lg, st) (lg', st')" "leaf_inv S H (lg_tree lg) st"
    "head_inv H C good sizes complete lg st"
  shows "head_inv H C good sizes complete lg' st'"
  using assms(1)
proof (cases rule: log_step_cases)
  case (append ev r)
  then show ?thesis using head_append [OF append assms(3)] leaf_append [OF append assms(2)] by blast
next
  case (publish sg ts r)
  then show ?thesis using head_publish [OF publish(3) assms(3) publish(2)] by simp
next
  case (cosign q ts r)
  then show ?thesis using head_cosign [OF cosign(2) assms(3) cosign(1)] by blast
next
  case restart
  from assms(2,3) show ?thesis
  proof (cases rule: resume_heads)
    case (ok lg2)
    then have eq: "lg2 = lg'" using restart by simp
    have p: "prefix (leaves (lg_tree lg)) (leaves (lg_tree lg'))" using ok(2) eq by (auto simp: resumed_def)
    then have "tree_len (lg_tree lg) \<le> tree_len (lg_tree lg')" by (simp add: tree_len_def prefix_length_le)
    then show ?thesis
      using assms(3) ok(4) restart(1) head_ok_mono [OF _ p] unfolding head_inv_def eq by (auto intro: order_trans)
  qed (use restart in simp)
qed

lemma heads_run:
  assumes "(log_step S H C encode storable co_storable)\<^sup>*\<^sup>* (lg, st) (lg', st')" "leaf_inv S H (lg_tree lg) st"
    "head_inv H C good sizes complete lg st"
  shows "head_inv H C good sizes complete lg' st'"
  using assms
proof (induction "(lg', st')" arbitrary: lg' st' rule: rtranclp_induct)
  case base
  then show ?case by simp
next
  case (step y)
  obtain lg1 st1 where y: "y = (lg1, st1)" by fastforce
  have "head_inv H C good sizes complete lg1 st1" using step y by blast
  moreover have "leaf_inv S H (lg_tree lg1) st1" using steps_inv [of H C encode storable co_storable lg st lg1 st1] step y by blast
  ultimately show ?case using heads_step step.hyps(2) y by blast
qed

end

section \<open>Properties\<close>

abbreviation empty_worm :: worm where
  "empty_worm \<equiv> \<lparr>ws_disk = [], ws_clock = 0\<rparr>"

text \<open>The runs of the log on the disk store, where the oracle \<open>F\<close> may refuse or tear any file.\<close>

abbreviation disk_run ::
  "(nat \<Rightarrow> fpath \<Rightarrow> fault option) \<Rightarrow> body_codec \<Rightarrow> head_codec \<Rightarrow> (bytes \<Rightarrow> bytes) \<Rightarrow> ('ev \<Rightarrow> (string, bytes) result) \<Rightarrow>
   log_state \<times> worm \<Rightarrow> log_state \<times> worm \<Rightarrow> bool" where
  "disk_run F C J H encode \<equiv> (log_step (worm_ops F C J) H C encode (sth_storable C J) (costh_storable J))\<^sup>*\<^sup>*"

lemma fresh_leaf_inv: "leaf_inv (worm_ops F C J) H (lg_tree fresh_log) empty_worm"
  by (simp add: leaf_inv_def fresh_log_def worm_ops_def worm_read_leaf_map)

lemma fresh_head_inv: "no_prefix_decodes J \<Longrightarrow> head_inv H C (worm_inv C J) worm_sizes (worm_complete C J) fresh_log empty_worm"
  by (simp add: head_inv_def fresh_log_def worm_inv_def worm_sizes_def worm_complete_def)

lemmas worm_run_inv = worm.steps_inv [OF _ fresh_leaf_inv]
lemmas worm_run_heads = worm.heads_run [OF _ fresh_leaf_inv fresh_head_inv]

lemma worm_append_fails:
  assumes "worm_read_leaf st (tree_len (lg_tree lg)) = Inr old"
    and "log_append (worm_ops F C J) H encode ev lg st = (r, lg', st')"
  shows "(\<exists>e. r = Inl e) \<and> lg' = lg \<and> worm_read_leaf st' (tree_len (lg_tree lg)) = Inr old"
proof -
  have "read_leaf (worm_ops F C J) st (tree_len (lg_tree lg)) = Inr old"
    using assms(1) by (simp add: worm_ops_def)
  from worm.append_blocked [OF this assms(2)] show ?thesis by (simp add: worm_ops_def)
qed


text \<open>C93. A torn publication keeps the log from starting. When the write of a tree head stops half-way, in any
  reachable state, the publication reports an error and leaves the partial file; opening the log again then
  fails with a decoding error, although every leaf is intact, because the partial file has the largest number.\<close>

theorem torn_publication_blocks_restart:
  assumes "no_prefix_decodes J" and "disk_run F C J H encode (fresh_log, empty_worm) (lg, st)"
    and "signer_ok C (sth_storable C J) sg" "tree_len (lg_tree lg) < 2 ^ 64"
    and "snd sg (current_body H lg ts) = Inr sth" "sth_to_json J sth = Inr bs"
    and "map_of (ws_disk st) (sth_path (tree_len (lg_tree lg))) = None"
    and "F (ws_clock st) (sth_path (tree_len (lg_tree lg))) = Some (Write_stops k)" "k < length bs"
  shows "\<exists>st' e. produce_sth (worm_ops F C J) H sg ts lg st = (Inl (Store (Io OtherIo)), lg, st') \<and>
    AuditLog_new (worm_ops F C J) H C st' = Some (Inl (Store (Decode e)))"
proof -
  let ?n = "tree_len (lg_tree lg)"
  have size: "tree_size (current_body H lg ts) = ?n" by (simp add: current_body_def)
  then have body: "body_from_cbor C (body_cbor sth) = Inr (current_body H lg ts)"
    using assms(3-5) unfolding signer_ok_def by metis
  let ?st = "\<lparr>ws_disk = (sth_path ?n, take k bs) # ws_disk st, ws_clock = Suc (ws_clock st)\<rparr>"
  have pub: "produce_sth (worm_ops F C J) H sg ts lg st = (Inl (Store (Io OtherIo)), lg, ?st)"
    using assms(5-8) body size
    by (simp add: produce_sth_def worm_ops_def worm_record_sth_def worm_write_new_def disk_create_new_def)
  have run: "disk_run F C J H encode (fresh_log, empty_worm) (lg, ?st)"
    by (rule rtranclp.rtrancl_into_rtrancl [OF assms(2)]) (rule log_step.publish [OF assms(4,3) pub])
  have inv: "leaf_inv (worm_ops F C J) H (lg_tree lg) ?st" "head_inv H C (worm_inv C J) worm_sizes (worm_complete C J) lg ?st"
    using worm_run_inv [OF run] worm_run_heads [OF run assms(1)] by simp_all
  have "strict_prefix (take k bs) bs" using assms(9) by (simp add: strict_prefix_def take_is_prefix)
  then obtain m where m: "sth_from_json J (take k bs) = Inl m"
    using assms(1,6) unfolding no_prefix_decodes_def by blast
  have top: "j \<le> ?n" if "map_of (ws_disk ?st) (sth_path j) \<noteq> None" for j
    using inv(2) that unfolding head_inv_def worm_sizes_def by blast
  have "worm_inv C J ?st" using inv(2) by (simp add: head_inv_def)
  moreover have here: "map_of (ws_disk ?st) (sth_path ?n) = Some (take k bs)" by simp
  ultimately have latest: "worm_latest_sth J ?st = Inl (Decode m)"
  proof (cases rule: worm_latest_cases)
    case none
    from none(2) [of ?n] here have False by (simp only: option.distinct)
    then show ?thesis ..
  next
    case (some j p)
    have "?n \<le> j" by (rule some(2)) (use here in simp)
    moreover have "j \<le> ?n" by (rule top) (use some(1) in simp)
    ultimately have "j = ?n" by simp
    then have "p = take k bs" using some(1) here by (simp only: option.inject)
    then have "worm_latest_sth J ?st = and_then (map_err AuditStoreError.Decode (Inl m)) (\<lambda>sth. Inr (Some sth))"
      using some(3) m by (simp only:)
    then show ?thesis by (rule trans) simp
  qed
  obtain t where "replay (worm_ops F C J) H ?st tree_new = Some (Inr t)"
    using worm.resume_replay [OF inv(1)] by blast
  then have "AuditLog_new (worm_ops F C J) H C ?st = Some (Inl (Store (Decode m)))"
    using latest by (simp add: AuditLog_new_def worm_ops_def)
  with pub show ?thesis by blast
qed

text \<open>C1. The log is append-only over appends, publications, co-signing and restarts, whichever files are refused or
  torn: a later tree extends an earlier one, every leaf is the hash of the bytes on disk, and the consistency proof
  between the earlier size and the later log is handed out and verifies.\<close>

theorem log_append_only:
  assumes "disk_run F C J H encode (fresh_log, empty_worm) (lg, st)" and "disk_run F C J H encode (lg, st) (lg', st')"
    and "0 < tree_len (lg_tree lg)"
  shows "prefix (leaves (lg_tree lg)) (leaves (lg_tree lg')) \<and>
    (\<forall>i < tree_len (lg_tree lg'). \<exists>raw. worm_read_leaf st' i = Inr raw \<and>
       tree_leaf (lg_tree lg') i = Some (leaf_hash H raw)) \<and>
    (\<exists>cp. log_consistency_proof H lg' (tree_len (lg_tree lg)) = Some (Inr cp) \<and>
       verify_consistency H (cp_old_size cp) (cp_new_size cp) (root_or_zero H (lg_tree lg))
         (cp_new_root_hash cp) (cp_audit_path cp))"
proof -
  have inv: "leaf_inv (worm_ops F C J) H (lg_tree lg') st'" and p: "prefix (leaves (lg_tree lg)) (leaves (lg_tree lg'))"
    using worm.steps_inv [OF assms(2)] worm_run_inv [OF assms(1)] by blast+
  obtain zs where zs: "leaves (lg_tree lg') = leaves (lg_tree lg) @ zs" using p by (auto elim: prefixE)
  have "\<forall>i < tree_len (lg_tree lg'). \<exists>raw. worm_read_leaf st' i = Inr raw \<and> tree_leaf (lg_tree lg') i = Some (leaf_hash H raw)"
    using inv unfolding leaf_inv_def by (simp add: worm_ops_def tree_leaf_def tree_len_def)
  moreover have "verify_consistency H (length (leaves (lg_tree lg))) (length (leaves (lg_tree lg'))) (mth H (leaves (lg_tree lg)))
      (mth H (leaves (lg_tree lg'))) (consistency_path H (length (leaves (lg_tree lg))) (leaves (lg_tree lg')))"
    using verify_consistency_complete [of "length (leaves (lg_tree lg))" "leaves (lg_tree lg')" H] zs assms(3)
    by (simp add: tree_len_def Suc_le_eq)
  ultimately show ?thesis
    using p zs assms(3)
    by (simp add: log_consistency_proof_def Let_def tree_len_def tree_consistency_proof_def tree_root_def root_or_zero_def)
qed

text \<open>C23. Inclusion proofs of the log: no index makes the call panic, a proof is returned exactly for the indices
  in range, and it verifies for the leaf it names.\<close>

theorem log_inclusion_ok:
  "\<exists>r. log_inclusion_proof H lg index = Some r \<and>
    (case r of
       Inl e \<Rightarrow> tree_len (lg_tree lg) \<le> index
     | Inr ip \<Rightarrow> index < tree_len (lg_tree lg) \<and> ip_leaf_index ip = index \<and>
         tree_leaf (lg_tree lg) index = Some (ip_leaf_hash ip) \<and>
         verify_inclusion H (ip_leaf_hash ip) index (ip_tree_size ip) (ip_root_hash ip) (ip_audit_path ip) = Some True)"
  using path_walk [of index "leaves (lg_tree lg)" H "[]"]
  by (cases "index < tree_len (lg_tree lg)")
    (auto simp: log_inclusion_proof_def Let_def tree_leaf_def tree_len_def tree_inclusion_proof_def tree_root_def verify_inclusion_walk)

lemma running_step_blocked:
  assumes "running_step (worm_ops F C J) H C encode (lg, st) (lg', st')" "worm_read_leaf st (tree_len (lg_tree lg)) = Inr old"
  shows "lg_tree lg' = lg_tree lg \<and> worm_read_leaf st' (tree_len (lg_tree lg)) = Inr old"
  using assms(1)
proof (cases rule: running_step.cases)
  case (1 ev r)
  then show ?thesis using worm_append_fails [OF assms(2) 1] by simp
next
  case (2 sg ts r)
  have "read_leaf (worm_ops F C J) st' i = read_leaf (worm_ops F C J) st i" for i by (rule worm.publish_frame(2) [OF 2])
  then show ?thesis using worm.publish_frame(1) [OF 2] assms(2) by (simp add: worm_ops_def)
next
  case (3 q ts r)
  have "read_leaf (worm_ops F C J) st' i = read_leaf (worm_ops F C J) st i" for i by (rule worm.cosign_frame(3) [OF 3])
  then show ?thesis using worm.cosign_frame(1) [OF 3] assms(2) by (simp add: worm_ops_def)
qed

text \<open>C24. A leaf file left behind by a failed append blocks the running log: over any further appends,
  publications and co-signings every append fails and the tree stays as it is, until a restart adopts the file.\<close>

theorem failed_append_blocks:
  assumes "worm_read_leaf st (tree_len (lg_tree lg)) = Inr old"
    and "(running_step (worm_ops F C J) H C encode)\<^sup>*\<^sup>* (lg, st) (lg', st')"
  shows "lg_tree lg' = lg_tree lg \<and> worm_read_leaf st' (tree_len (lg_tree lg)) = Inr old \<and>
    (\<forall>ev r lg2 st2. log_append (worm_ops F C J) H encode ev lg' st' = (r, lg2, st2) \<longrightarrow> (\<exists>e. r = Inl e))"
proof -
  have *: "lg_tree lg' = lg_tree lg \<and> worm_read_leaf st' (tree_len (lg_tree lg)) = Inr old"
    using assms(2)
  proof (induction "(lg', st')" arbitrary: lg' st' rule: rtranclp_induct)
    case base
    then show ?case using assms(1) by simp
  next
    case (step y)
    obtain lg1 st1 where y: "y = (lg1, st1)" by fastforce
    then have 1: "lg_tree lg1 = lg_tree lg" "worm_read_leaf st1 (tree_len (lg_tree lg)) = Inr old" using step.hyps(3) by blast+
    from running_step_blocked [OF step.hyps(2) [unfolded y], of old] 1 show ?case by simp
  qed
  have "\<exists>e. r = Inl e" if "log_append (worm_ops F C J) H encode ev lg' st' = (r, lg2, st2)" for ev r lg2 st2
    using worm_append_fails [OF _ that, of old] * by simp
  with * show ?thesis by blast
qed

section \<open>Witnesses\<close>

text \<open>One head can be stored; no prefix of its text decodes.\<close>

abbreviation toy_sth :: signed_tree_head where
  "toy_sth \<equiv> \<lparr>body_cbor = [], signer_kid = [], signature_b64 = []\<rparr>"

definition toy_head_codec :: head_codec where
  "toy_head_codec = \<lparr>sth_to_json = (\<lambda>x. if x = toy_sth then Inr [1] else Inl []), sth_from_json = (\<lambda>bs. if bs = [1] then Inr toy_sth else Inl []),
     costh_to_json = (\<lambda>_. Inl []), costh_from_json = (\<lambda>_. Inl [])\<rparr>"

lemma toy_no_prefix: "no_prefix_decodes toy_head_codec"
  by (auto simp: no_prefix_decodes_def toy_head_codec_def strict_prefix_def)

abbreviation toy_ops :: "(nat \<Rightarrow> fpath \<Rightarrow> fault option) \<Rightarrow> worm store_ops" where
  "toy_ops F \<equiv> worm_ops F toy_codec toy_head_codec"

abbreviation toy_log :: log_state where
  "toy_log \<equiv> \<lparr>lg_tree = \<lparr>leaves = [leaf_hash toy_hash [7]]\<rparr>, lg_latest_sth = None, lg_latest_cosigned_sth = None\<rparr>"

abbreviation toy_worm :: worm where
  "toy_worm \<equiv> \<lparr>ws_disk = [(hash_path 0, leaf_hash toy_hash [7]), (leaf_path 0, [7])], ws_clock = Suc (Suc 0)\<rparr>"

lemma toy_append: "log_append (toy_ops (\<lambda>_ _. None)) toy_hash Inr [7] fresh_log empty_worm = (Inr 0, toy_log, toy_worm)"
  by (simp add: log_append_def fresh_log_def worm_ops_def worm_append_leaf_def worm_write_new_def disk_create_new_def
      tree_append_def tree_new_def tree_len_def Let_def)

lemma toy_run:
  "(log_step (toy_ops (\<lambda>_ _. None)) toy_hash toy_codec Inr (sth_storable toy_codec toy_head_codec) (costh_storable toy_head_codec))\<^sup>*\<^sup>*
     (fresh_log, empty_worm) (toy_log, toy_worm)"
  using log_step.append [OF toy_append] by (rule r_into_rtranclp)


text \<open>The head of the empty log, written to a disk that stops at once.\<close>

abbreviation empty_codec :: body_codec where
  "empty_codec \<equiv> \<lparr>body_to_cbor = (\<lambda>_. Inr []), body_from_cbor = (\<lambda>_. Inr (current_body toy_hash fresh_log 0))\<rparr>"

abbreviation empty_signer :: sth_signer where
  "empty_signer \<equiv> ('''', \<lambda>b. if b = current_body toy_hash fresh_log 0 then Inr toy_sth else Inl SignatureInvalid)"

theorem torn_publication_blocks_restart_witness:
  "\<exists>st e. produce_sth (worm_ops (\<lambda>_ _. Some (Write_stops 0)) empty_codec toy_head_codec) toy_hash empty_signer 0 fresh_log empty_worm =
      (Inl (Store (Io OtherIo)), fresh_log, st) \<and>
    AuditLog_new (worm_ops (\<lambda>_ _. Some (Write_stops 0)) empty_codec toy_head_codec) toy_hash empty_codec st = Some (Inl (Store (Decode e)))"
proof (rule torn_publication_blocks_restart [OF toy_no_prefix rtranclp.rtrancl_refl, where sth = toy_sth and bs = "[1]" and k = 0])
  show "signer_ok empty_codec (sth_storable empty_codec toy_head_codec) empty_signer"
    by (simp add: signer_ok_def sth_storable_def toy_head_codec_def)
qed (simp_all add: toy_head_codec_def fresh_log_def)

theorem log_append_only_witness:
  "\<exists>cp. log_consistency_proof toy_hash toy_log 1 = Some (Inr cp) \<and>
     verify_consistency toy_hash (cp_old_size cp) (cp_new_size cp) (root_or_zero toy_hash \<lparr>leaves = [leaf_hash toy_hash [7]]\<rparr>)
       (cp_new_root_hash cp) (cp_audit_path cp)"
  using log_append_only [OF toy_run rtranclp.rtrancl_refl] by (simp add: tree_len_def)

text \<open>The file with the hash of the leaf is refused.\<close>

abbreviation refuse_hash :: "nat \<Rightarrow> fpath \<Rightarrow> fault option" where
  "refuse_hash \<equiv> (\<lambda>_ p. if p = hash_path 0 then Some Open_fails else None)"

theorem failed_append_blocks_witness:
  "(let st = \<lparr>ws_disk = [(leaf_path 0, [7])], ws_clock = Suc (Suc 0)\<rparr> in
    log_append (toy_ops refuse_hash) toy_hash Inr [7] fresh_log empty_worm = (Inl (Store (Io OtherIo)), fresh_log, st) \<and>
    (\<forall>ev r lg2 st2. log_append (toy_ops refuse_hash) toy_hash Inr ev fresh_log st = (r, lg2, st2) \<longrightarrow> (\<exists>e. r = Inl e)))"
proof -
  have "log_append (toy_ops refuse_hash) toy_hash Inr [7] fresh_log empty_worm =
      (Inl (Store (Io OtherIo)), fresh_log, \<lparr>ws_disk = [(leaf_path 0, [7])], ws_clock = Suc (Suc 0)\<rparr>)"
    by (simp add: log_append_def fresh_log_def worm_ops_def worm_append_leaf_def worm_write_new_def disk_create_new_def
        tree_new_def tree_len_def Let_def)
  moreover have "worm_read_leaf \<lparr>ws_disk = [(leaf_path 0, [7])], ws_clock = Suc (Suc 0)\<rparr> (tree_len (lg_tree fresh_log)) = Inr [7]"
    by (simp add: worm_read_leaf_map fresh_log_def)
  ultimately show ?thesis
    using failed_append_blocks [OF _ rtranclp.rtrancl_refl, of _ fresh_log "[7]" refuse_hash toy_codec toy_head_codec toy_hash Inr]
    by (simp add: Let_def)
qed

end
