(* ===== verification/Log_Spec.thy ===== *)
theory Log_Spec
  imports Audit_Log
begin

text \<open>
  What the audit log of \<open>crates/ferro-audit/src/log.rs\<close> promises its callers, and that it keeps the
  promise: the abstract log is the list of the encoded events, a step of the implementation (append,
  publication, co-signing, restart, with any storage faults) leaves the list alone or adds one
  event at its end. The refinement relation ties the list to the Merkle tree in memory and to the
  leaves in the store; the simulation is proved once in the locale \<open>audit_store\<close>.
\<close>

section \<open>Specification\<close>

inductive spec_step :: "bytes list \<Rightarrow> bytes list \<Rightarrow> bool" where
  keep: "spec_step xs xs"
| extend: "spec_step xs (xs @ [raw])"

definition log_refines :: "'s store_ops \<Rightarrow> (bytes \<Rightarrow> bytes) \<Rightarrow> log_state \<Rightarrow> 's \<Rightarrow> bytes list \<Rightarrow> bool" where
  "log_refines S H lg st xs \<longleftrightarrow>
     leaf_inv S H (lg_tree lg) st \<and> leaves (lg_tree lg) = map (leaf_hash H) xs \<and>
     (\<forall>i < length xs. read_leaf S st i = Inr (xs ! i))"

section \<open>Simulation\<close>

context audit_store
begin

lemma refines_len: "log_refines S H lg st xs \<Longrightarrow> tree_len (lg_tree lg) = length xs"
  by (simp add: log_refines_def tree_len_def)

lemma refines_keep:
  assumes "log_refines S H lg st xs" and "leaf_inv S H (lg_tree lg') st'"
    and "leaves (lg_tree lg') = leaves (lg_tree lg)" and "\<And>i. i < length xs \<Longrightarrow> read_leaf S st' i = read_leaf S st i"
  shows "log_refines S H lg' st' xs"
  using assms by (simp add: log_refines_def)

lemma refines_extend:
  assumes "log_refines S H lg st xs" and "leaf_inv S H (lg_tree lg') st'"
    and "leaves (lg_tree lg') = leaves (lg_tree lg) @ [leaf_hash H raw]" and "read_leaf S st' (length xs) = Inr raw"
    and "\<And>i. i < length xs \<Longrightarrow> read_leaf S st' i = read_leaf S st i"
  shows "log_refines S H lg' st' (xs @ [raw])"
  using assms by (auto simp: log_refines_def nth_append less_Suc_eq)

lemma append_refines:
  assumes R: "log_refines S H lg st xs" and a: "log_append S H encode ev lg st = (r, lg', st')"
  shows "case r of
      Inl e \<Rightarrow> log_refines S H lg' st' xs
    | Inr i \<Rightarrow> i = length xs \<and> (\<exists>raw. encode ev = Inr raw \<and> log_refines S H lg' st' (xs @ [raw]))"
proof -
  have inv: "leaf_inv S H (lg_tree lg') st'"
    using leaf_append [OF a] R by (simp add: log_refines_def)
  show ?thesis
  proof (cases "encode ev")
    case (Inl e)
    then show ?thesis using a R by (auto simp: log_append_def)
  next
    case (Inr raw)
    obtain r1 st1 where s: "append_leaf S (length xs) raw (leaf_hash H raw) st = (r1, st1)" by fastforce
    have frame: "read_leaf S st1 i = read_leaf S st i" if "i < length xs" for i
      using append_frame [OF s] that by simp
    show ?thesis
    proof (cases r1)
      case (Inl e)
      then have "r = Inl (Store e)" "lg' = lg" "st' = st1"
        using a Inr s by (simp_all add: log_append_def refines_len [OF R] Let_def)
      then show ?thesis
        using refines_keep [OF R inv] frame by simp
    next
      case (Inr u)
      then have ok: "append_leaf S (length xs) raw (leaf_hash H raw) st = (Inr (), st1)"
        using s by simp
      have "r = Inr (length xs)" "st' = st1" "leaves (lg_tree lg') = leaves (lg_tree lg) @ [leaf_hash H raw]"
        using a \<open>encode ev = Inr raw\<close> ok
        by (auto simp: log_append_def refines_len [OF R] Let_def tree_append_def)
      then show ?thesis
        using refines_extend [OF R inv] append_read [OF ok] frame \<open>encode ev = Inr raw\<close> by simp
    qed
  qed
qed

lemma step_refines:
  assumes R: "log_refines S H lg st xs"
    and step: "log_step S H C encode storable co_storable (lg, st) (lg', st')"
  shows "\<exists>ys. spec_step xs ys \<and> log_refines S H lg' st' ys"
proof -
  have inv: "leaf_inv S H (lg_tree lg) st" using R by (simp add: log_refines_def)
  note inv' = conjunct1 [OF step_inv [OF step inv]]
  from step show ?thesis
  proof (cases rule: log_step_cases)
    case (append ev r)
    show ?thesis
    proof (cases r)
      case (Inl e)
      then show ?thesis using append_refines [OF R append] spec_step.keep by auto
    next
      case (Inr i)
      then show ?thesis using append_refines [OF R append] spec_step.extend by auto
    qed
  next
    case (publish sg ts r)
    have "log_refines S H lg' st' xs"
      by (rule refines_keep [OF R inv']) (simp_all add: publish_frame [OF publish(3)])
    then show ?thesis using spec_step.keep by blast
  next
    case (cosign q ts r)
    have "log_refines S H lg' st' xs"
      by (rule refines_keep [OF R inv']) (simp_all add: cosign_frame [OF cosign(2)])
    then show ?thesis using spec_step.keep by blast
  next
    case restart
    from resume_leaves(2) [OF restart(2) inv] consider "leaves (lg_tree lg') = leaves (lg_tree lg)"
      | raw where "read_leaf S st (tree_len (lg_tree lg)) = Inr raw" "leaves (lg_tree lg') = leaves (lg_tree lg) @ [leaf_hash H raw]"
      by (auto simp: resumed_def)
    then show ?thesis
    proof cases
      case 1
      then show ?thesis using refines_keep [OF R inv'] restart spec_step.keep by blast
    next
      case (2 raw)
      then show ?thesis
        using refines_extend [OF R inv', of raw] restart spec_step.extend by (auto simp: refines_len [OF R])
    qed
  qed
qed

end

section \<open>Properties\<close>

abbreviation disk_refines ::
  "(nat \<Rightarrow> fpath \<Rightarrow> fault option) \<Rightarrow> body_codec \<Rightarrow> head_codec \<Rightarrow> (bytes \<Rightarrow> bytes) \<Rightarrow> log_state \<Rightarrow> worm \<Rightarrow> bytes list \<Rightarrow> bool" where
  "disk_refines F C J H \<equiv> log_refines (worm_ops F C J) H"

text \<open>
  C2. The audit log on disk refines the list of its events. The empty log stands for the empty list.
  Every step of the implementation is a step of the specification, whichever files are refused or torn, and
  across restarts; an append that reports index \<open>i\<close> has put its event at position \<open>i\<close> of the list,
  and an append that reports an error has not changed it. A restart may add one entry, the bytes on disk of
  a leaf whose append had failed; they may be a truncated event.
\<close>

theorem log_refines_events:
  "disk_refines F C J H fresh_log empty_worm [] \<and>
    (\<forall>lg st xs. disk_refines F C J H lg st xs \<longrightarrow>
      (\<forall>lg' st'. log_step (worm_ops F C J) H C encode (sth_storable C J) (costh_storable J) (lg, st) (lg', st') \<longrightarrow>
         (\<exists>ys. spec_step xs ys \<and> disk_refines F C J H lg' st' ys)) \<and>
      (\<forall>ev r lg' st'. log_append (worm_ops F C J) H encode ev lg st = (r, lg', st') \<longrightarrow>
         (case r of
            Inl e \<Rightarrow> disk_refines F C J H lg' st' xs
          | Inr i \<Rightarrow> i = length xs \<and> (\<exists>raw. encode ev = Inr raw \<and> disk_refines F C J H lg' st' (xs @ [raw])))))"
proof (intro conjI allI impI)
  show "disk_refines F C J H fresh_log empty_worm []"
    unfolding log_refines_def by (simp add: fresh_leaf_inv) (simp add: fresh_log_def)
qed (erule (1) worm.step_refines, erule (1) worm.append_refines)

theorem log_refines_events_witness:
  "disk_refines (\<lambda>_ _. None) toy_codec toy_head_codec toy_hash toy_log toy_worm [[7]]"
proof -
  note r = log_refines_events [of "\<lambda>_ _. None" toy_codec toy_head_codec toy_hash "Inr :: bytes \<Rightarrow> (string, bytes) result"]
  from r have "disk_refines (\<lambda>_ _. None) toy_codec toy_head_codec toy_hash fresh_log empty_worm []" ..
  with r toy_append have "\<exists>raw. Inr [7] = (Inr raw :: (string, bytes) result) \<and>
      disk_refines (\<lambda>_ _. None) toy_codec toy_head_codec toy_hash toy_log toy_worm ([] @ [raw])"
    by fastforce
  then show ?thesis by simp
qed

end
