(* ===== verification/Anchor.thy ===== *)
theory Anchor
  imports Disk Tree_Head
begin

text \<open>
  \<open>crates/ferro-audit/src/anchor.rs\<close>: the disk-backed queue of tree heads that wait for an external
  transparency log, and one drain pass of its publisher. The log itself (\<open>Anchor::submit\<close>) and
  the JSON codecs are arguments. The oracle \<open>F\<close> decides how the creation of a file fails, \<open>R\<close> which removals
  succeed; the code ignores a removal that fails. Times are mathematical integers; the marker file of an entry is
  the ASCII text that \<open>enqueue\<close> writes.
\<close>

section \<open>The code\<close>

record anchor_receipt =
  anchor_name :: string
  ar_tree_size :: nat
  log_index :: nat
  receipt_bytes :: bytes
  anchored_at_unix :: int

datatype AnchorError = Transient string | Permanent string

datatype AnchorQueueError =
    Io io_error
  | AlreadyExists fpath
  | Codec string
  | Malformed string

record anchor_codec =
  ac_sth_to_json :: "cosigned_tree_head \<Rightarrow> (string, bytes) result"
  ac_sth_from_json :: "bytes \<Rightarrow> (string, cosigned_tree_head) result"
  receipt_to_json :: "anchor_receipt \<Rightarrow> (string, bytes) result"
  receipt_from_json :: "bytes \<Rightarrow> (string, anchor_receipt) result"

definition pending_sth_path :: "nat \<Rightarrow> fpath" where
  "pending_sth_path n = (''pending'', pad20 n @ ''.sth.json'')"

definition pending_enq_path :: "nat \<Rightarrow> fpath" where
  "pending_enq_path n = (''pending'', pad20 n @ ''.enq'')"

definition receipt_path :: "nat \<Rightarrow> fpath" where
  "receipt_path n = (''receipts'', pad20 n @ ''.json'')"

definition dead_sth_path :: "nat \<Rightarrow> fpath" where
  "dead_sth_path n = (''dead'', pad20 n @ ''.sth.json'')"

definition dead_err_path :: "nat \<Rightarrow> fpath" where
  "dead_err_path n = (''dead'', pad20 n @ ''.err'')"

definition queue_write_new ::
  "(fpath \<Rightarrow> fault option) \<Rightarrow> fpath \<Rightarrow> bytes \<Rightarrow> disk \<Rightarrow> (AnchorQueueError, unit) result \<times> disk" where
  "queue_write_new F p bs d =
     (case disk_create_new F p bs d of
        (r, d') \<Rightarrow>
          (case r of Inr _ \<Rightarrow> Inr () | Inl Exists \<Rightarrow> Inl (AlreadyExists p) | Inl (Failed e) \<Rightarrow> Inl (Io e), d'))"

definition enqueue ::
  "(fpath \<Rightarrow> fault option) \<Rightarrow> body_codec \<Rightarrow> anchor_codec \<Rightarrow> cosigned_tree_head \<Rightarrow> int \<Rightarrow> disk \<Rightarrow>
   (AnchorQueueError, bool) result \<times> disk" where
  "enqueue F C J sth now d =
     (case body_from_cbor C (co_body_cbor sth) of
        Inl e \<Rightarrow> (Inl (Codec (''cbor decode: '' @ e)), d)
      | Inr body \<Rightarrow>
          let n = tree_size body
          in if disk_exists d (pending_sth_path n) then (Inr False, d)
             else if disk_exists d (receipt_path n) then (Inr False, d)
             else
               (case ac_sth_to_json J sth of
                  Inl e \<Rightarrow> (Inl (Codec e), d)
                | Inr bs \<Rightarrow>
                    (case queue_write_new F (pending_sth_path n) bs d of
                       (Inl e, d1) \<Rightarrow> (Inl e, d1)
                     | (Inr _, d1) \<Rightarrow>
                         (case queue_write_new F (pending_enq_path n) (str_bytes (dec_int now)) d1 of
                            (Inl e, d2) \<Rightarrow> (Inl e, d2)
                          | (Inr _, d2) \<Rightarrow> (Inr True, d2)))))"

record pending_entry =
  pe_tree_size :: nat
  pe_sth :: cosigned_tree_head
  pe_enqueued_at :: int

fun pending_names :: "string list \<Rightarrow> (nat \<times> string) list" where
  "pending_names [] = []"
| "pending_names (name # names) =
     (case strip_suffix ''.sth.json'' name of
        None \<Rightarrow> pending_names names
      | Some stem \<Rightarrow>
          (case parse_u64 stem of
             None \<Rightarrow> pending_names names
           | Some n \<Rightarrow> (n, name) # pending_names names))"

definition is_space :: "u8 \<Rightarrow> bool" where
  "is_space b \<longleftrightarrow> b = 0x20 \<or> (0x09 \<le> b \<and> b \<le> 0x0d)"

definition parse_marker :: "bytes \<Rightarrow> (AnchorQueueError, int) result" where
  "parse_marker bs =
     (if \<exists>b \<in> set bs. 0x80 \<le> b then Inl (Malformed ''invalid marker'')
      else let trimmed = rev (dropWhile is_space (rev (dropWhile is_space bs)))
           in ok_or (Malformed ''invalid marker'') (parse_i64 (map (\<lambda>b. char_of (unat b)) trimmed)))"

fun read_pending :: "anchor_codec \<Rightarrow> disk \<Rightarrow> (nat \<times> string) list \<Rightarrow> (AnchorQueueError, pending_entry list) result" where
  "read_pending J d [] = Inr []"
| "read_pending J d ((n, name) # rest) =
     and_then (map_err Io (disk_read d (''pending'', name))) (\<lambda>bs.
     and_then (map_err Codec (ac_sth_from_json J bs)) (\<lambda>sth.
     and_then (map_err Io (disk_read d (pending_enq_path n))) (\<lambda>enq.
     and_then (parse_marker enq) (\<lambda>at.
     and_then (read_pending J d rest) (\<lambda>out.
     Inr (\<lparr>pe_tree_size = n, pe_sth = sth, pe_enqueued_at = at\<rparr> # out))))))"

definition pending :: "anchor_codec \<Rightarrow> disk \<Rightarrow> (AnchorQueueError, pending_entry list) result" where
  "pending J d = read_pending J d (sort_key fst (pending_names (disk_read_dir d ''pending'')))"

text \<open>\<open>let _ = remove_file(..)\<close>: best effort.\<close>

definition try_remove :: "(fpath \<Rightarrow> bool) \<Rightarrow> fpath \<Rightarrow> disk \<Rightarrow> disk" where
  "try_remove R p d = (if R p then disk_remove p d else d)"

definition mark_anchored ::
  "(fpath \<Rightarrow> fault option) \<Rightarrow> (fpath \<Rightarrow> bool) \<Rightarrow> anchor_codec \<Rightarrow> nat \<Rightarrow> anchor_receipt \<Rightarrow> disk \<Rightarrow>
   (AnchorQueueError, fpath) result \<times> disk" where
  "mark_anchored F R J n receipt d =
     (case receipt_to_json J receipt of
        Inl e \<Rightarrow> (Inl (Codec e), d)
      | Inr bs \<Rightarrow>
          (case queue_write_new F (receipt_path n) bs d of
             (Inl e, d1) \<Rightarrow> (Inl e, d1)
           | (Inr _, d1) \<Rightarrow>
               (Inr (receipt_path n), try_remove R (pending_enq_path n) (try_remove R (pending_sth_path n) d1))))"

definition quarantine ::
  "(fpath \<Rightarrow> fault option) \<Rightarrow> (fpath \<Rightarrow> bool) \<Rightarrow> nat \<Rightarrow> string \<Rightarrow> disk \<Rightarrow> (AnchorQueueError, unit) result \<times> disk" where
  "quarantine F R n reason d =
     (case disk_read d (pending_sth_path n) of
        Inl e \<Rightarrow> (Inl (Io e), d)
      | Inr bs \<Rightarrow>
          (case queue_write_new F (dead_sth_path n) bs d of
             (Inl e, d1) \<Rightarrow> (Inl e, d1)
           | (Inr _, d1) \<Rightarrow>
               (case queue_write_new F (dead_err_path n) (str_bytes reason) d1 of
                  (Inl e, d2) \<Rightarrow> (Inl e, d2)
                | (Inr _, d2) \<Rightarrow>
                    (Inr (), try_remove R (pending_enq_path n) (try_remove R (pending_sth_path n) d2)))))"

definition queue_receipt :: "anchor_codec \<Rightarrow> disk \<Rightarrow> nat \<Rightarrow> (AnchorQueueError, anchor_receipt option) result" where
  "queue_receipt J d n =
     (if \<not> disk_exists d (receipt_path n) then Inr None
      else and_then (map_err Io (disk_read d (receipt_path n))) (\<lambda>bs.
           and_then (map_err Codec (receipt_from_json J bs)) (\<lambda>r. Inr (Some r))))"

fun oldest_of :: "int option \<Rightarrow> pending_entry list \<Rightarrow> int option" where
  "oldest_of oldest [] = oldest"
| "oldest_of oldest (e # es) =
     oldest_of (Some (case oldest of None \<Rightarrow> pe_enqueued_at e | Some t \<Rightarrow> min t (pe_enqueued_at e))) es"

definition backlog_seconds :: "anchor_codec \<Rightarrow> disk \<Rightarrow> int \<Rightarrow> (AnchorQueueError, int option) result" where
  "backlog_seconds J d now =
     and_then (pending J d) (\<lambda>es. Inr (map_option (\<lambda>t. now - t) (oldest_of None es)))"

record drain_outcome =
  published :: nat
  transient_failures :: nat
  quarantined :: nat
  backlog_after :: "int option"

definition DrainOutcome_default :: drain_outcome where
  "DrainOutcome_default = \<lparr>published = 0, transient_failures = 0, quarantined = 0, backlog_after = None\<rparr>"

definition made_progress :: "drain_outcome \<Rightarrow> bool" where
  "made_progress o' \<longleftrightarrow> published o' + quarantined o' > 0"

fun drain_loop ::
  "(fpath \<Rightarrow> fault option) \<Rightarrow> (fpath \<Rightarrow> bool) \<Rightarrow> anchor_codec \<Rightarrow> (cosigned_tree_head \<Rightarrow> (AnchorError, anchor_receipt) result) \<Rightarrow>
   pending_entry list \<Rightarrow> drain_outcome \<Rightarrow> disk \<Rightarrow> (AnchorQueueError, drain_outcome) result \<times> disk" where
  "drain_loop F R J submit [] out d = (Inr out, d)"
| "drain_loop F R J submit (e # es) out d =
     (case submit (pe_sth e) of
        Inr receipt \<Rightarrow>
          (case mark_anchored F R J (pe_tree_size e) receipt d of
             (Inl err, d') \<Rightarrow> (Inl err, d')
           | (Inr _, d') \<Rightarrow> drain_loop F R J submit es (out\<lparr>published := published out + 1\<rparr>) d')
      | Inl (Transient _) \<Rightarrow> (Inr (out\<lparr>transient_failures := transient_failures out + 1\<rparr>), d)
      | Inl (Permanent reason) \<Rightarrow>
          (case quarantine F R (pe_tree_size e) reason d of
             (Inl err, d') \<Rightarrow> (Inl err, d')
           | (Inr _, d') \<Rightarrow> drain_loop F R J submit es (out\<lparr>quarantined := quarantined out + 1\<rparr>) d'))"

definition drain_once ::
  "(fpath \<Rightarrow> fault option) \<Rightarrow> (fpath \<Rightarrow> bool) \<Rightarrow> anchor_codec \<Rightarrow> (cosigned_tree_head \<Rightarrow> (AnchorError, anchor_receipt) result) \<Rightarrow>
   int \<Rightarrow> disk \<Rightarrow> (AnchorQueueError, drain_outcome) result \<times> disk" where
  "drain_once F R J submit now d =
     (case pending J d of
        Inl err \<Rightarrow> (Inl err, d)
      | Inr es \<Rightarrow>
          (case drain_loop F R J submit es DrainOutcome_default d of
             (Inl err, d') \<Rightarrow> (Inl err, d')
           | (Inr out, d') \<Rightarrow>
               (and_then (backlog_seconds J d' now) (\<lambda>b. Inr (out\<lparr>backlog_after := b\<rparr>)), d')))"

section \<open>Paths and files\<close>

lemma queue_paths [simp]:
  "pending_sth_path m = pending_sth_path n \<longleftrightarrow> m = n" "receipt_path m = receipt_path n \<longleftrightarrow> m = n"
  "dead_sth_path m = dead_sth_path n \<longleftrightarrow> m = n" "pending_enq_path m = pending_enq_path n \<longleftrightarrow> m = n"
  "dead_err_path m = dead_err_path n \<longleftrightarrow> m = n"
  "pending_sth_path m \<noteq> pending_enq_path n" "pending_enq_path n \<noteq> pending_sth_path m"
  "dead_sth_path m \<noteq> dead_err_path n" "dead_err_path n \<noteq> dead_sth_path m"
  "pending_sth_path m \<noteq> receipt_path n" "receipt_path n \<noteq> pending_sth_path m"
  "pending_sth_path m \<noteq> dead_sth_path n" "dead_sth_path n \<noteq> pending_sth_path m"
  "pending_sth_path m \<noteq> dead_err_path n" "dead_err_path n \<noteq> pending_sth_path m"
  "pending_enq_path m \<noteq> receipt_path n" "receipt_path n \<noteq> pending_enq_path m"
  "pending_enq_path m \<noteq> dead_sth_path n" "dead_sth_path n \<noteq> pending_enq_path m"
  "pending_enq_path m \<noteq> dead_err_path n" "dead_err_path n \<noteq> pending_enq_path m"
  "receipt_path m \<noteq> dead_sth_path n" "dead_sth_path n \<noteq> receipt_path m"
  "receipt_path m \<noteq> dead_err_path n" "dead_err_path n \<noteq> receipt_path m"
  by (auto simp: pending_sth_path_def pending_enq_path_def receipt_path_def dead_sth_path_def dead_err_path_def)

lemma queue_write_new_map:
  assumes "queue_write_new F p bs d = (r, d')"
  shows "q \<noteq> p \<Longrightarrow> map_of d' q = map_of d q"
    and "r = Inr () \<Longrightarrow> map_of d' p = Some bs \<and> map_of d p = None"
    and "map_of d p = Some old \<Longrightarrow> r = Inl (AlreadyExists p) \<and> d' = d"
proof -
  obtain r1 d1 where 1: "disk_create_new F p bs d = (r1, d1)" by fastforce
  note m = disk_create_new_map [OF 1]
  have d: "d' = d1" and r: "r = Inr () \<longleftrightarrow> r1 = Inr ()" "r1 = Inl Exists \<Longrightarrow> r = Inl (AlreadyExists p)"
    using assms 1 by (auto simp: queue_write_new_def split: sum.splits create_error.splits)
  show "map_of d' q = map_of d q" if "q \<noteq> p" using m(1) [OF that] d by simp
  show "map_of d' p = Some bs \<and> map_of d p = None" if "r = Inr ()" using m(2) r that d by simp
  show "r = Inl (AlreadyExists p) \<and> d' = d" if "map_of d p = Some old" using m(3) [OF that] r d by simp
qed

lemma queue_write_new_keeps: "queue_write_new F p bs d = (r, d') \<Longrightarrow> disk_exists d q \<Longrightarrow> disk_exists d' q"
  using queue_write_new_map [of F p bs d r d'] unfolding disk_exists_def by (cases "q = p") (auto simp del: not_None_eq)

lemma queue_write_new_exists: "queue_write_new F p bs d = (Inr u, d') \<Longrightarrow> disk_exists d' p"
  using queue_write_new_map(2) [of F p bs d "Inr u" d'] by (simp add: disk_exists_def)

text \<open>The runs of the queue: operations of the code, with any faults and any answers of a log that issues only \<open>issued\<close> receipts.\<close>

definition honest :: "(cosigned_tree_head \<Rightarrow> anchor_receipt \<Rightarrow> bool) \<Rightarrow> (cosigned_tree_head \<Rightarrow> (AnchorError, anchor_receipt) result) \<Rightarrow> bool" where
  "honest issued submit \<longleftrightarrow> (\<forall>x r. submit x = Inr r \<longrightarrow> issued x r)"

inductive queue_step :: "body_codec \<Rightarrow> anchor_codec \<Rightarrow> (cosigned_tree_head \<Rightarrow> anchor_receipt \<Rightarrow> bool) \<Rightarrow> disk \<Rightarrow> disk \<Rightarrow> bool"
  for C J issued where
  enqueue: "enqueue F C J sth now d = (r, d') \<Longrightarrow> queue_step C J issued d d'"
| drain: "drain_once F R J submit now d = (r, d') \<Longrightarrow> honest issued submit \<Longrightarrow> queue_step C J issued d d'"

text \<open>
  Every file in \<open>pending/\<close> carries a name that \<open>enqueue\<close> writes, so the key read back from a name is the one
  it was made from.
\<close>

definition names_ok :: "disk \<Rightarrow> bool" where
  "names_ok d \<longleftrightarrow> (\<forall>name. map_of d (''pending'', name) \<noteq> None \<longrightarrow>
     (\<exists>n. (''pending'', name) = pending_sth_path n \<or> (''pending'', name) = pending_enq_path n))"

lemma names_ok_empty: "names_ok []"
  by (simp add: names_ok_def)

lemma names_ok_write:
  assumes "names_ok d" "queue_write_new F p bs d = (r, d')"
    and "fst p = ''pending'' \<Longrightarrow> \<exists>n. p = pending_sth_path n \<or> p = pending_enq_path n"
  shows "names_ok d'"
  unfolding names_ok_def
proof (intro allI impI)
  fix name assume "map_of d' (''pending'', name) \<noteq> None"
  then show "\<exists>n. (''pending'', name) = pending_sth_path n \<or> (''pending'', name) = pending_enq_path n"
    using assms queue_write_new_map(1) [OF assms(2), of "(''pending'', name)"]
    by (cases "p = (''pending'', name)") (auto simp: names_ok_def)
qed

lemma names_ok_remove: "names_ok d \<Longrightarrow> names_ok (try_remove R p d)"
  by (auto simp: names_ok_def try_remove_def)

lemma names_ok_enqueue: "enqueue F C J sth now d = (r, d') \<Longrightarrow> names_ok d \<Longrightarrow> names_ok d'"
  by (auto simp: enqueue_def Let_def split: sum.splits if_splits prod.splits elim!: names_ok_write [rotated])

lemma names_ok_mark: "mark_anchored F R J m receipt d = (r, d') \<Longrightarrow> names_ok d \<Longrightarrow> names_ok d'"
  by (auto simp: mark_anchored_def receipt_path_def split: sum.splits prod.splits
      intro!: names_ok_remove elim!: names_ok_write [rotated])

lemma names_ok_quarantine: "quarantine F R m reason d = (r, d') \<Longrightarrow> names_ok d \<Longrightarrow> names_ok d'"
  by (auto simp: quarantine_def dead_sth_path_def dead_err_path_def split: sum.splits prod.splits
      intro!: names_ok_remove elim!: names_ok_write [rotated])

lemma names_ok_drain_loop: "drain_loop F R J submit es out d = (r, d') \<Longrightarrow> names_ok d \<Longrightarrow> names_ok d'"
  by (induction es arbitrary: out d)
    (auto split: sum.splits AnchorError.splits prod.splits dest: names_ok_mark names_ok_quarantine)

lemma names_ok_step: "queue_step C J issued d d' \<Longrightarrow> names_ok d \<Longrightarrow> names_ok d'"
  by (auto elim!: queue_step.cases simp: drain_once_def split: sum.splits prod.splits
      dest: names_ok_enqueue names_ok_drain_loop)

lemma names_ok_run: "(queue_step C J issued)\<^sup>*\<^sup>* d d' \<Longrightarrow> names_ok d \<Longrightarrow> names_ok d'"
  by (induction rule: rtranclp_induct) (blast intro: names_ok_step)+

text \<open>What never changes: complete files outside \<open>pending/\<close>, and every file that \<open>pending/\<close> does not lose.\<close>

lemma queue_write_new_kept: "queue_write_new F p bs d = (r, d') \<Longrightarrow> map_of d q = Some x \<Longrightarrow> map_of d' q = Some x"
  using queue_write_new_map [of F p bs d r d'] by (cases "q = p") auto

lemma try_remove_map [simp]: "map_of (try_remove R p d) q = (if q = p \<and> R p then None else map_of d q)"
  by (auto simp: try_remove_def)

lemma enqueue_kept: "enqueue F C J sth now d = (r, d') \<Longrightarrow> map_of d q = Some x \<Longrightarrow> map_of d' q = Some x"
  by (auto simp: enqueue_def Let_def split: sum.splits if_splits prod.splits dest: queue_write_new_kept)

lemma mark_kept:
  assumes "mark_anchored F R J m receipt d = (r, d')" "map_of d q = Some x" "q \<noteq> pending_sth_path m" "q \<noteq> pending_enq_path m"
  shows "map_of d' q = Some x"
  using assms by (auto simp: mark_anchored_def split: sum.splits prod.splits dest: queue_write_new_kept)

lemma quarantine_kept:
  assumes "quarantine F R m reason d = (r, d')" "map_of d q = Some x" "q \<noteq> pending_sth_path m" "q \<noteq> pending_enq_path m"
  shows "map_of d' q = Some x"
  using assms by (auto simp: quarantine_def split: sum.splits prod.splits dest: queue_write_new_kept)

lemma drain_loop_kept:
  assumes "drain_loop F R J submit es out d = (r, d')" "map_of d q = Some x"
    and "\<forall>e\<in>set es. q \<noteq> pending_sth_path (pe_tree_size e) \<and> q \<noteq> pending_enq_path (pe_tree_size e)"
  shows "map_of d' q = Some x"
  using assms
  by (induction es arbitrary: out d)
    (auto split: sum.splits AnchorError.splits prod.splits dest: mark_kept quarantine_kept)

text \<open>The entries of a listing, and what the listing says about each.\<close>

lemma pending_names_set:
  "(n, name) \<in> set (pending_names names) \<longleftrightarrow>
     name \<in> set names \<and> (\<exists>stem. strip_suffix ''.sth.json'' name = Some stem \<and> parse_u64 stem = Some n)"
  by (induction names) (auto split: option.splits)

lemma enq_name: "stem @ ''.sth.json'' \<noteq> s @ ''.enq''"
proof
  assume "stem @ ''.sth.json'' = s @ ''.enq''"
  then have "last (stem @ ''.sth.json'') = last (s @ ''.enq'')" by (simp only:)
  then show False by simp
qed

lemma read_pending_entries:
  "read_pending J d xs = Inr es \<Longrightarrow>
     map pe_tree_size es = map fst xs \<and>
     list_all2 (\<lambda>(n, name) e. \<exists>bs. map_of d (''pending'', name) = Some bs \<and> ac_sth_from_json J bs = Inr (pe_sth e)) xs es"
proof (induction xs arbitrary: es)
  case (Cons x xs)
  then show ?case by (cases x) (auto simp: result_simps disk_read_def split: option.splits)
qed simp

lemma pending_entry:
  assumes "pending J d = Inr es" "names_ok d" "e \<in> set es"
  shows "\<exists>bs. map_of d (pending_sth_path (pe_tree_size e)) = Some bs \<and> ac_sth_from_json J bs = Inr (pe_sth e)"
proof -
  let ?xs = "sort_key fst (pending_names (disk_read_dir d ''pending''))"
  have sizes: "map pe_tree_size es = map fst ?xs"
    and rows: "list_all2 (\<lambda>(n, name) e. \<exists>bs. map_of d (''pending'', name) = Some bs \<and> ac_sth_from_json J bs = Inr (pe_sth e)) ?xs es"
    using read_pending_entries [of J d ?xs es] assms(1) by (simp_all add: pending_def)
  obtain i where i: "i < length es" "e = es ! i" using assms(3) by (auto simp: in_set_conv_nth)
  obtain n name where x: "?xs ! i = (n, name)" by (cases "?xs ! i")
  have len: "length ?xs = length es" using rows by (rule list_all2_lengthD)
  obtain bs where bs: "map_of d (''pending'', name) = Some bs" "ac_sth_from_json J bs = Inr (pe_sth e)"
    using list_all2_nthD2 [OF rows i(1)] by (auto simp: x i(2))
  have n: "pe_tree_size e = n"
    using arg_cong [OF sizes, of "\<lambda>l. l ! i"] i len by (simp add: x)
  have "(n, name) \<in> set ?xs" using i(1) len x by (metis nth_mem)
  then obtain stem where stem: "name = stem @ ''.sth.json''" "parse_u64 stem = Some n"
    by (auto simp: pending_names_set strip_suffix_Some)
  have "\<exists>k. (''pending'', name) = pending_sth_path k \<or> (''pending'', name) = pending_enq_path k"
    using assms(2) bs(1) by (simp add: names_ok_def)
  then obtain k where "name = pad20 k @ ''.sth.json''"
    using enq_name by (auto simp: pending_sth_path_def pending_enq_path_def stem(1))
  with stem have "stem = pad20 k" "k = n" by (auto simp: parse_u64_pad20_eq split: if_splits)
  then show ?thesis using bs stem(1) by (auto simp: pending_sth_path_def n)
qed

section \<open>Nothing is lost\<close>

text \<open>
  The head \<open>sth\<close> of size \<open>n\<close>, whose JSON text is \<open>bs\<close>, is safe: its complete text is in \<open>pending/\<close> or in \<open>dead/\<close>, or
  \<open>receipts/\<close> holds the complete text of a receipt that the log issued for it.
\<close>

definition head_safe ::
  "anchor_codec \<Rightarrow> (cosigned_tree_head \<Rightarrow> anchor_receipt \<Rightarrow> bool) \<Rightarrow> cosigned_tree_head \<Rightarrow> nat \<Rightarrow> bytes \<Rightarrow> disk \<Rightarrow> bool" where
  "head_safe J issued sth n bs d \<longleftrightarrow>
     map_of d (pending_sth_path n) = Some bs \<or> map_of d (dead_sth_path n) = Some bs \<or>
     (\<exists>receipt rb. issued sth receipt \<and> receipt_to_json J receipt = Inr rb \<and> map_of d (receipt_path n) = Some rb)"

lemma head_safe_kept:
  assumes "head_safe J issued sth n bs d"
    and "\<And>q x. map_of d q = Some x \<Longrightarrow> q \<in> {pending_sth_path n, dead_sth_path n, receipt_path n} \<Longrightarrow> map_of d' q = Some x"
  shows "head_safe J issued sth n bs d'"
  using assms unfolding head_safe_def by blast

lemma head_safe_mark:
  assumes "mark_anchored F R J m receipt d = (r, d')" "head_safe J issued sth n bs d"
    and "m = n \<Longrightarrow> map_of d (pending_sth_path n) = Some bs \<Longrightarrow> issued sth receipt"
  shows "head_safe J issued sth n bs d'"
proof (cases "m = n \<and> map_of d (pending_sth_path n) = Some bs")
  case True
  then have "issued sth receipt" using assms(3) by simp
  with True show ?thesis
    using assms(1) queue_write_new_map(2) [of F "receipt_path n" _ d "Inr ()"]
    by (auto simp: mark_anchored_def head_safe_def split: sum.splits prod.splits dest: queue_write_new_kept)
next
  case False
  with assms(2) show ?thesis
    unfolding head_safe_def using mark_kept [OF assms(1)] by (metis queue_paths)
qed

lemma head_safe_quarantine:
  assumes "quarantine F R m reason d = (r, d')" "head_safe J issued sth n bs d"
  shows "head_safe J issued sth n bs d'"
proof (cases "m = n \<and> map_of d (pending_sth_path n) = Some bs")
  case True
  then have bs: "map_of d (pending_sth_path n) = Some bs" by simp
  show ?thesis
  proof (cases "r = Inr ()")
    case ok: True
    obtain d1 d2 where w: "queue_write_new F (dead_sth_path n) bs d = (Inr (), d1)" "queue_write_new F (dead_err_path n) (str_bytes reason) d1 = (Inr (), d2)"
      "d' = try_remove R (pending_enq_path n) (try_remove R (pending_sth_path n) d2)"
      using assms(1) ok True by (auto simp: quarantine_def disk_read_def split: sum.splits prod.splits)
    have "map_of d2 (dead_sth_path n) = Some bs"
      using queue_write_new_map(2) [OF w(1)] queue_write_new_kept [OF w(2)] by simp
    then show ?thesis by (simp add: head_safe_def w(3))
  next
    case False
    then have "map_of d' (pending_sth_path n) = Some bs"
      using assms(1) True bs by (auto simp: quarantine_def disk_read_def split: sum.splits prod.splits dest: queue_write_new_kept)
    then show ?thesis by (simp add: head_safe_def)
  qed
next
  case False
  with assms(2) show ?thesis
    unfolding head_safe_def using quarantine_kept [OF assms(1)] by (metis queue_paths)
qed

lemma mark_no_pending:
  "mark_anchored F R J m receipt d = (r, d') \<Longrightarrow> map_of d' (pending_sth_path n) = Some x \<Longrightarrow> map_of d (pending_sth_path n) = Some x"
  by (auto simp: mark_anchored_def split: sum.splits prod.splits if_splits simp: queue_write_new_map(1))

lemma quarantine_no_pending:
  "quarantine F R m reason d = (r, d') \<Longrightarrow> map_of d' (pending_sth_path n) = Some x \<Longrightarrow> map_of d (pending_sth_path n) = Some x"
  by (auto simp: quarantine_def split: sum.splits prod.splits if_splits simp: queue_write_new_map(1))

lemma head_safe_drain_loop:
  assumes "honest issued submit" "drain_loop F R J submit es out d = (r, d')" "head_safe J issued sth n bs d"
    and "map_of d (pending_sth_path n) = Some bs \<Longrightarrow> \<forall>e\<in>set es. pe_tree_size e = n \<longrightarrow> pe_sth e = sth"
  shows "head_safe J issued sth n bs d'"
  using assms(2-)
proof (induction es arbitrary: out d)
  case (Cons e es)
  show ?case
  proof (cases "submit (pe_sth e)")
    case (Inr receipt)
    obtain r1 d1 where m: "mark_anchored F R J (pe_tree_size e) receipt d = (r1, d1)" by fastforce
    have "head_safe J issued sth n bs d1"
      by (rule head_safe_mark [OF m Cons.prems(2)]) (use Cons.prems(3) assms(1) Inr in \<open>auto simp: honest_def\<close>)
    moreover have "map_of d1 (pending_sth_path n) = Some bs \<Longrightarrow> \<forall>e\<in>set es. pe_tree_size e = n \<longrightarrow> pe_sth e = sth"
      using Cons.prems(3) mark_no_pending [OF m] by simp
    ultimately show ?thesis
      using Cons.prems(1) Cons.IH [of _ d1] by (auto simp: Inr m split: sum.splits)
  next
    case (Inl err)
    then show ?thesis
    proof (cases err)
      case (Permanent reason)
      obtain r1 d1 where q: "quarantine F R (pe_tree_size e) reason d = (r1, d1)" by fastforce
      have "head_safe J issued sth n bs d1" by (rule head_safe_quarantine [OF q Cons.prems(2)])
      moreover have "map_of d1 (pending_sth_path n) = Some bs \<Longrightarrow> \<forall>e\<in>set es. pe_tree_size e = n \<longrightarrow> pe_sth e = sth"
        using Cons.prems(3) quarantine_no_pending [OF q] by simp
      ultimately show ?thesis
        using Cons.prems(1) Cons.IH [of _ d1] by (auto simp: Inl Permanent q split: sum.splits)
    qed (use Cons.prems in \<open>auto simp: Inl\<close>)
  qed
qed simp

lemma head_safe_step:
  assumes "queue_step C J issued d d'" "names_ok d" "head_safe J issued sth n bs d" "ac_sth_from_json J bs = Inr sth"
  shows "head_safe J issued sth n bs d'"
  using assms(1)
proof cases
  case (enqueue F sth' now r)
  then show ?thesis using head_safe_kept [OF assms(3)] enqueue_kept by blast
next
  case (drain F R submit now r)
  have entries: "pe_sth e = sth"
    if "pending J d = Inr es" "map_of d (pending_sth_path n) = Some bs" "e \<in> set es" "pe_tree_size e = n" for es e
    using pending_entry [OF that(1) assms(2) that(3)] that(2,4) assms(4) by auto
  have "head_safe J issued sth n bs d'"
    if "pending J d = Inr es" "drain_loop F R J submit es out d = (r', d')" for es out r'
    using head_safe_drain_loop [OF drain(2) that(2) assms(3)] entries [OF that(1)] by blast
  then show ?thesis
    using drain(1) assms(3) by (auto simp: drain_once_def split: sum.splits prod.splits)
qed

lemma head_safe_run:
  assumes "(queue_step C J issued)\<^sup>*\<^sup>* d d'" "names_ok d" "head_safe J issued sth n bs d" "ac_sth_from_json J bs = Inr sth"
  shows "head_safe J issued sth n bs d'"
  using assms
proof (induction rule: rtranclp_induct)
  case (step d1 d2)
  then show ?case using head_safe_step names_ok_run by blast
qed

lemma enqueue_True:
  assumes "enqueue F C J sth now d = (Inr True, d')" "body_from_cbor C (co_body_cbor sth) = Inr body"
  obtains bs where "ac_sth_to_json J sth = Inr bs" "map_of d' (pending_sth_path (tree_size body)) = Some bs"
proof -
  from assms obtain bs d1 where w: "ac_sth_to_json J sth = Inr bs" "queue_write_new F (pending_sth_path (tree_size body)) bs d = (Inr (), d1)"
    "queue_write_new F (pending_enq_path (tree_size body)) (str_bytes (dec_int now)) d1 = (Inr (), d')"
    by (auto simp: enqueue_def Let_def split: if_splits sum.splits prod.splits)
  show thesis
    by (rule that [OF w(1)]) (use queue_write_new_map(2) [OF w(2)] queue_write_new_kept [OF w(3)] in simp)
qed

section \<open>Entries that block the queue\<close>

lemma read_pending_fails:
  assumes "(n, name) \<in> set xs"
    and "map_of d (''pending'', name) = None \<or> (\<exists>bs e. map_of d (''pending'', name) = Some bs \<and> ac_sth_from_json J bs = Inl e) \<or>
      map_of d (pending_enq_path n) = None"
  shows "\<exists>e. read_pending J d xs = Inl e"
  using assms(1)
proof (induction xs)
  case (Cons x xs)
  obtain m nm where x: "x = (m, nm)" by (cases x)
  show ?case
  proof (cases "x = (n, name)")
    case True
    then show ?thesis using assms(2) x
      by (auto simp: disk_read_def split: option.splits sum.splits)
        (metis and_then.simps map_err.simps sum.exhaust)+
  next
    case False
    then obtain e where "read_pending J d xs = Inl e" using Cons by auto
    then show ?thesis
      by (cases "read_pending J d (x # xs)") (auto simp: x result_simps)
  qed
qed simp

lemma pending_fails:
  assumes "map_of d (pending_sth_path n) = Some x" "n < 2 ^ 64"
    and "(\<exists>e. ac_sth_from_json J x = Inl e) \<or> map_of d (pending_enq_path n) = None"
  shows "\<exists>e. pending J d = Inl e"
proof -
  have "(n, pad20 n @ ''.sth.json'') \<in> set (sort_key fst (pending_names (disk_read_dir d ''pending'')))"
    using assms(1,2) by (auto simp: pending_names_set in_read_dir_iff pending_sth_path_def parse_u64_pad20)
  from read_pending_fails [OF this, of d J] assms(1,3) show ?thesis
    by (auto simp: pending_def pending_sth_path_def)
qed

text \<open>Once the listing fails for an entry it fails for ever: no drain pass gets past it and nothing removes it.\<close>

lemma blocked_run:
  assumes "(queue_step C J issued)\<^sup>*\<^sup>* d d'" "map_of d (pending_sth_path n) = Some x" "n < 2 ^ 64" "ac_sth_from_json J x = Inl e"
  shows "map_of d' (pending_sth_path n) = Some x"
  using assms
proof (induction rule: rtranclp_induct)
  case (step d1 d2)
  then have x: "map_of d1 (pending_sth_path n) = Some x" by simp
  then obtain err where "pending J d1 = Inl err" using pending_fails step.prems by blast
  with step.hyps(2) x show ?case
    by (auto elim!: queue_step.cases simp: drain_once_def dest: enqueue_kept)
qed

lemma dead_kept_loop:
  "drain_loop F R J submit es out d = (r, d') \<Longrightarrow> disk_exists d (dead_sth_path n) \<Longrightarrow> disk_exists d' (dead_sth_path n)"
  using drain_loop_kept [of F R J submit es out d r d' "dead_sth_path n"] by (auto simp: disk_exists_def)

lemma dead_run:
  assumes "(queue_step C J issued)\<^sup>*\<^sup>* d d'" "disk_exists d (dead_sth_path n)"
  shows "disk_exists d' (dead_sth_path n)"
  using assms
proof (induction rule: rtranclp_induct)
  case (step d1 d2)
  then have "disk_exists d1 (dead_sth_path n)" by simp
  with step.hyps(2) show ?case
    by (auto elim!: queue_step.cases simp: drain_once_def split: sum.splits prod.splits dest: dead_kept_loop)
      (auto simp: disk_exists_def dest: enqueue_kept)
qed simp

lemma requeue_accepted:
  assumes "quarantine F (\<lambda>_. True) (tree_size body) reason d = (Inr (), d1)" "\<not> disk_exists d (receipt_path (tree_size body))"
    and "body_from_cbor C (co_body_cbor sth) = Inr body" "ac_sth_to_json J sth = Inr bs"
  obtains d2 where "enqueue (\<lambda>_. None) C J sth now d1 = (Inr True, d2)" "disk_exists d2 (dead_sth_path (tree_size body))"
proof -
  let ?n = "tree_size body"
  obtain x da db where w: "queue_write_new F (dead_sth_path ?n) x d = (Inr (), da)" "queue_write_new F (dead_err_path ?n) (str_bytes reason) da = (Inr (), db)"
    "d1 = try_remove (\<lambda>_. True) (pending_enq_path ?n) (try_remove (\<lambda>_. True) (pending_sth_path ?n) db)"
    using assms(1) by (auto simp: quarantine_def split: sum.splits prod.splits)
  have "map_of db (receipt_path ?n) = None" "map_of db (dead_sth_path ?n) = Some x"
    using queue_write_new_map(1) [OF w(1), of "receipt_path ?n"] queue_write_new_map(1) [OF w(2), of "receipt_path ?n"]
      queue_write_new_map(2) [OF w(1)] queue_write_new_kept [OF w(2)] assms(2) by (simp_all add: disk_exists_def)
  then have "map_of d1 (receipt_path ?n) = None" "map_of d1 (pending_sth_path ?n) = None" "map_of d1 (pending_enq_path ?n) = None"
    "map_of d1 (dead_sth_path ?n) = Some x" by (simp_all add: w(3))
  then have "enqueue (\<lambda>_. None) C J sth now d1 =
      (Inr True, (pending_enq_path ?n, str_bytes (dec_int now)) # (pending_sth_path ?n, bs) # d1)"
    and "disk_exists ((pending_enq_path ?n, str_bytes (dec_int now)) # (pending_sth_path ?n, bs) # d1) (dead_sth_path ?n)"
    using assms(3,4) by (simp_all add: enqueue_def Let_def queue_write_new_def disk_create_new_def disk_exists_def)
  then show thesis by (rule that)
qed

lemma drain_loop_stops:
  assumes "disk_exists d (dead_sth_path (pe_tree_size e))" "submit (pe_sth e) = Inl (Permanent why)"
    and "\<forall>x\<in>set es. \<forall>why. submit (pe_sth x) \<noteq> Inl (Transient why)"
  shows "\<exists>err. drain_loop F R J submit (es @ e # es') out d = (Inl err, snd (drain_loop F R J submit es out d))"
  using assms(1,3)
proof (induction es arbitrary: out d)
  case Nil
  then obtain old where "map_of d (dead_sth_path (pe_tree_size e)) = Some old" by (auto simp: disk_exists_def)
  then have "queue_write_new F (dead_sth_path (pe_tree_size e)) bs d = (Inl (AlreadyExists (dead_sth_path (pe_tree_size e))), d)" for bs
    using queue_write_new_map(3) [of F "dead_sth_path (pe_tree_size e)" bs d] by (metis surj_pair)
  then show ?case using assms(2) by (auto simp: quarantine_def split: sum.splits)
next
  case (Cons x es)
  have dead: "disk_exists d1 (dead_sth_path (pe_tree_size e))"
    if "drain_loop F R J submit [x] out d = (r, d1)" for r d1
    using dead_kept_loop [OF that Cons.prems(1)] .
  show ?case
    using Cons dead by (auto split: sum.splits AnchorError.splits prod.splits)
qed

text \<open>
  A drain pass that reaches the entry of size \<open>n\<close> and is refused by the log fails there, with the disk as
  the entries before it left it.
\<close>

definition drain_stuck_at :: "anchor_codec \<Rightarrow> nat \<Rightarrow> disk \<Rightarrow> bool" where
  "drain_stuck_at J n d \<longleftrightarrow>
     (\<forall>es e es' F R submit now why. pending J d = Inr (es @ e # es') \<longrightarrow> pe_tree_size e = n \<longrightarrow>
        submit (pe_sth e) = Inl (Permanent why) \<longrightarrow> (\<forall>x\<in>set es. \<forall>w. submit (pe_sth x) \<noteq> Inl (Transient w)) \<longrightarrow>
        (\<exists>err. drain_once F R J submit now d = (Inl err, snd (drain_loop F R J submit es DrainOutcome_default d))))"

lemma dead_stuck: "disk_exists d (dead_sth_path n) \<Longrightarrow> drain_stuck_at J n d"
  unfolding drain_stuck_at_def
proof (intro allI impI)
  fix es e es' F R now why and submit :: "cosigned_tree_head \<Rightarrow> (AnchorError, anchor_receipt) result"
  assume a: "disk_exists d (dead_sth_path n)" "pending J d = Inr (es @ e # es')" "pe_tree_size e = n"
    "submit (pe_sth e) = Inl (Permanent why)" "\<forall>x\<in>set es. \<forall>w. submit (pe_sth x) \<noteq> Inl (Transient w)"
  then obtain err where "drain_loop F R J submit (es @ e # es') DrainOutcome_default d =
      (Inl err, snd (drain_loop F R J submit es DrainOutcome_default d))"
    using drain_loop_stops [of d e submit why es F R J es' DrainOutcome_default] by blast
  with a(2) show "\<exists>err. drain_once F R J submit now d = (Inl err, snd (drain_loop F R J submit es DrainOutcome_default d))"
    by (auto simp: drain_once_def)
qed

section \<open>Properties of the queue\<close>


text \<open>C95. An \<open>enqueue\<close> whose first write is torn stops all anchoring. It reports an error, but leaves the partial
  file; a retry with a healthy disk then reports that the head is already queued and writes nothing; and from then on
  every drain pass fails, for all heads in the queue, whatever is enqueued later. The head itself is
  nowhere on disk. (No proper prefix of the JSON text of a head decodes.)\<close>

theorem torn_enqueue_blocks_anchoring:
  assumes "body_from_cbor C (co_body_cbor sth) = Inr body" "tree_size body < 2 ^ 64" "ac_sth_to_json J sth = Inr bs"
    and "\<not> disk_exists d (pending_sth_path (tree_size body))" "\<not> disk_exists d (receipt_path (tree_size body))"
    and "F (pending_sth_path (tree_size body)) = Some (Write_stops k)" "ac_sth_from_json J (take k bs) = Inl err"
  shows "\<exists>d1. enqueue F C J sth now d = (Inl (Io OtherIo), d1) \<and>
    enqueue (\<lambda>_. None) C J sth now' d1 = (Inr False, d1) \<and>
    (\<forall>d2. (queue_step C J issued)\<^sup>*\<^sup>* d1 d2 \<longrightarrow>
       map_of d2 (pending_sth_path (tree_size body)) = Some (take k bs) \<and>
       (\<forall>F R submit now. \<exists>e. drain_once F R J submit now d2 = (Inl e, d2)))"
proof -
  let ?d1 = "(pending_sth_path (tree_size body), take k bs) # d"
  have e: "enqueue F C J sth now d = (Inl (Io OtherIo), ?d1)"
    using assms by (simp add: enqueue_def Let_def queue_write_new_def disk_create_new_def disk_exists_def)
  have retry: "enqueue (\<lambda>_. None) C J sth now' ?d1 = (Inr False, ?d1)"
    using assms(1) by (simp add: enqueue_def Let_def disk_exists_def)
  have "map_of d2 (pending_sth_path (tree_size body)) = Some (take k bs) \<and>
       (\<forall>F R submit now. \<exists>e. drain_once F R J submit now d2 = (Inl e, d2))"
    if "(queue_step C J issued)\<^sup>*\<^sup>* ?d1 d2" for d2
  proof -
    have m: "map_of d2 (pending_sth_path (tree_size body)) = Some (take k bs)"
      by (rule blocked_run [OF that _ assms(2,7)]) simp
    then obtain e where "pending J d2 = Inl e" using pending_fails assms(2,7) by blast
    then show ?thesis using m by (simp add: drain_once_def)
  qed
  with e retry show ?thesis by blast
qed


section \<open>Witnesses\<close>

abbreviation toy_costh :: cosigned_tree_head where
  "toy_costh \<equiv> \<lparr>co_body_cbor = [], signatures = []\<rparr>"

definition toy_anchor_codec :: anchor_codec where
  "toy_anchor_codec = \<lparr>ac_sth_to_json = (\<lambda>x. if x = toy_costh then Inr [1] else Inl []),
     ac_sth_from_json = (\<lambda>bs. if bs = [1] then Inr toy_costh else Inl []),
     receipt_to_json = (\<lambda>_. Inr []), receipt_from_json = (\<lambda>_. Inl [])\<rparr>"

lemma toy_enqueue:
  "enqueue (\<lambda>_. None) toy_codec toy_anchor_codec toy_costh 5 d =
     (Inr True, (pending_enq_path 1, str_bytes (dec_int 5)) # (pending_sth_path 1, [1]) # d)"
  if "\<not> disk_exists d (pending_sth_path 1)" "\<not> disk_exists d (receipt_path 1)" "\<not> disk_exists d (pending_enq_path 1)"
  using that
  by (simp add: enqueue_def toy_codec_def toy_body_def toy_anchor_codec_def Let_def queue_write_new_def disk_create_new_def
      disk_exists_def)

lemma toy_costh_body: "body_from_cbor toy_codec (co_body_cbor toy_costh) = Inr toy_body"
  by (simp add: toy_codec_def)


theorem torn_enqueue_blocks_anchoring_witness:
  "\<exists>d1. enqueue (\<lambda>_. Some (Write_stops 0)) toy_codec toy_anchor_codec toy_costh 5 [] = (Inl (Io OtherIo), d1) \<and>
    enqueue (\<lambda>_. None) toy_codec toy_anchor_codec toy_costh 6 d1 = (Inr False, d1) \<and>
    (\<exists>e. drain_once (\<lambda>_. None) (\<lambda>_. True) toy_anchor_codec (\<lambda>_. Inl (Transient [])) 7 d1 = (Inl e, d1))"
proof -
  have "ac_sth_to_json toy_anchor_codec toy_costh = Inr [1]" "ac_sth_from_json toy_anchor_codec (take 0 [1]) = Inl []"
    "tree_size toy_body < 2 ^ 64"
    "\<not> disk_exists [] (pending_sth_path (tree_size toy_body))" "\<not> disk_exists [] (receipt_path (tree_size toy_body))"
    by (simp_all add: toy_anchor_codec_def toy_body_def disk_exists_def)
  from torn_enqueue_blocks_anchoring [OF toy_costh_body this(3,1,4,5) refl this(2), of 5 6 "\<lambda>_ _. True"]
  show ?thesis by blast
qed

text \<open>A disk with one pending head, and the same head after a quarantine and a second enqueue.\<close>

abbreviation toy_disk :: disk where
  "toy_disk \<equiv> [(pending_enq_path 1, [53]), (pending_sth_path 1, [1])]"

abbreviation toy_dead_disk :: disk where
  "toy_dead_disk \<equiv> toy_disk @ [(dead_err_path 1, []), (dead_sth_path 1, [1])]"

lemma toy_marker: "parse_marker [53] = Inr 5"
proof -
  have "char_of (53 :: nat) = CHR ''5''" by (simp add: char_of_eq_iff)
  then show ?thesis by (simp add: parse_marker_def is_space_def parse_i64_def parse_nat_def digit_val_def)
qed

lemma toy_names: "pending_names (disk_read_dir toy_dead_disk ''pending'') = [(1, pad20 1 @ ''.sth.json'')]"
proof -
  have "disk_read_dir toy_dead_disk ''pending'' = [pad20 1 @ ''.enq'', pad20 1 @ ''.sth.json'']"
    by (simp add: disk_read_dir_def pending_enq_path_def pending_sth_path_def dead_sth_path_def dead_err_path_def)
  moreover have "strip_suffix ''.sth.json'' (pad20 1 @ ''.sth.json'') = Some (pad20 1)" by (rule strip_suffix_append)
  moreover have "strip_suffix ''.sth.json'' (pad20 1 @ ''.enq'') = None"
    using enq_name strip_suffix_Some by (cases "strip_suffix ''.sth.json'' (pad20 1 @ ''.enq'')") (metis, metis)
  moreover have "parse_u64 (pad20 1) = Some 1" by (rule parse_u64_pad20) simp
  ultimately show ?thesis by simp
qed

lemma toy_pending:
  "pending toy_anchor_codec toy_dead_disk = Inr [\<lparr>pe_tree_size = 1, pe_sth = toy_costh, pe_enqueued_at = 5\<rparr>]"
  unfolding pending_def toy_names
  by (simp add: disk_read_def toy_anchor_codec_def toy_marker) (simp add: pending_sth_path_def pending_enq_path_def dead_sth_path_def dead_err_path_def toy_marker)


end
