(* ===== verification/Gf256.thy ===== *)
theory Gf256
  imports Prelude
begin

text \<open>
  The finite-field arithmetic of \<open>crates/ferro-tee/src/shamir.rs\<close> (\<open>gf_mul\<close>, \<open>gf_pow\<close>,
  \<open>gf_inv\<close>, \<open>eval\<close>) on bytes, and the proof that it is a field: the type \<open>gf256\<close>
  wraps a byte and is an instance of the library's class \<open>field\<close>, with \<open>XOR\<close> as addition
  and \<open>gf_mul\<close> as multiplication.
\<close>

section \<open>The code\<close>

text \<open>\<open>RIJNDAEL\<close>, \<open>gf_mul\<close>: eight rounds of shift-and-add.\<close>

definition RIJNDAEL :: u16 where
  "RIJNDAEL = 0x11b"

definition gf_double :: "u8 \<Rightarrow> u8" where
  "gf_double a =
     (let hi = a AND 0x80; a1 = push_bit 1 a
      in if hi \<noteq> 0 then a1 XOR ucast (RIJNDAEL AND 0xff) else a1)"

fun gf_mul_loop :: "nat \<Rightarrow> u8 \<Rightarrow> u8 \<Rightarrow> u8 \<Rightarrow> u8" where
  "gf_mul_loop 0 a b p = p"
| "gf_mul_loop (Suc n) a b p =
     gf_mul_loop n (gf_double a) (drop_bit 1 b) (if b AND 1 \<noteq> 0 then p XOR a else p)"

definition gf_mul :: "u8 \<Rightarrow> u8 \<Rightarrow> u8" where
  "gf_mul a b = gf_mul_loop 8 a b 0"

text \<open>\<open>gf_pow\<close>: square and multiply over a 32-bit exponent.\<close>

function gf_pow_loop :: "u8 \<Rightarrow> u8 \<Rightarrow> u32 \<Rightarrow> u8" where
  "gf_pow_loop acc base n =
     (if n > 0
      then gf_pow_loop (if n AND 1 = 1 then gf_mul acc base else acc) (gf_mul base base) (drop_bit 1 n)
      else acc)"
  by pat_completeness auto
termination
  by (relation "measure (\<lambda>(acc, base, n). unat n)")
    (auto simp: unat_div drop_bit_eq_div word_gt_0 unat_gt_0)

declare gf_pow_loop.simps [simp del]

definition gf_pow :: "u8 \<Rightarrow> u32 \<Rightarrow> u8" where
  "gf_pow a n = gf_pow_loop 1 a n"

definition gf_inv :: "u8 \<Rightarrow> u8" where
  "gf_inv a = gf_pow a 254"

text \<open>\<open>eval\<close>: Horner's rule, constant coefficient first.\<close>

definition gf_eval :: "bytes \<Rightarrow> u8 \<Rightarrow> u8" where
  "gf_eval coeffs x = foldl (\<lambda>acc c. gf_mul acc x XOR c) 0 (rev coeffs)"

section \<open>Linearity\<close>

lemma xor_shift_u8: "push_bit n (a XOR b :: u8) = push_bit n a XOR push_bit n b"
  by (simp add: push_bit_xor)

lemma msb_u8_iff: "(a :: u8) AND 0x80 \<noteq> 0 \<longleftrightarrow> bit a 7"
proof -
  have "(0x80 :: u8) = push_bit 7 1" by simp
  then show ?thesis
    by (metis and_exp_eq_0_iff_not_bit push_bit_eq_mult mult_1 exp_eq_zero_iff)
qed

lemma lsb_u8_iff: "(b :: u8) AND 1 \<noteq> 0 \<longleftrightarrow> bit b 0"
  by (simp add: and_one_eq odd_iff_mod_2_eq_one bit_0)

lemma gf_double_eq:
  "gf_double a = push_bit 1 a XOR (if bit a 7 then 0x1b else 0)"
  by (simp add: gf_double_def msb_u8_iff RIJNDAEL_def Let_def)

lemma gf_double_xor: "gf_double (a XOR b) = gf_double a XOR gf_double b"
  by (auto simp: gf_double_eq bit_xor_iff push_bit_xor ac_simps)

lemma gf_double_0 [simp]: "gf_double 0 = 0"
  by (simp add: gf_double_eq)

text \<open>Every byte is built from \<open>1\<close> by doubling and addition; a property closed under
  both holds of all bytes.\<close>

lemma bit_if_0: "bit (if c then x else 0 :: u8) n \<longleftrightarrow> c \<and> bit x n"
  by simp

lemma byte_bits:
  "(b :: u8) = (if bit b 0 then 1 else 0) XOR (if bit b 1 then 2 else 0)
     XOR (if bit b 2 then 4 else 0) XOR (if bit b 3 then 8 else 0)
     XOR (if bit b 4 then 16 else 0) XOR (if bit b 5 then 32 else 0)
     XOR (if bit b 6 then 64 else 0) XOR (if bit b 7 then 128 else 0)" (is "b = ?bits")
proof (rule bit_word_eqI)
  fix n assume "n < LENGTH(8)"
  then have "n \<in> {0, 1, 2, 3, 4, 5, 6, 7}" by auto
  then show "bit b n = bit ?bits n"
    by (elim insertE emptyE) (simp_all add: bit_xor_iff bit_if_0 split del: if_split)
qed

lemma byte_induct:
  assumes zero: "P (0 :: u8)" and one: "P 1"
    and xor: "\<And>a b. P a \<Longrightarrow> P b \<Longrightarrow> P (a XOR b)"
    and double: "\<And>a. P a \<Longrightarrow> P (gf_double a)"
  shows "P b"
proof -
  have d: "gf_double 1 = 2" "gf_double 2 = 4" "gf_double 4 = 8" "gf_double 8 = 16"
    "gf_double 16 = 32" "gf_double 32 = 64" "gf_double 64 = 128"
    by (simp_all add: gf_double_eq)
  have p: "P 2" "P 4" "P 8" "P 16" "P 32" "P 64" "P 128"
    using double [OF one] double [of 2] double [of 4] double [of 8] double [of 16]
      double [of 32] double [of 64]
    by (simp_all add: d)
  show ?thesis
    by (subst byte_bits [of b]) (intro xor; simp add: zero one p)
qed

lemma gf_mul_loop_acc: "gf_mul_loop n a b (p XOR q) = gf_mul_loop n a b p XOR q"
  by (induction n arbitrary: a b p q) (simp_all add: ac_simps)

lemma gf_mul_loop_0: "gf_mul_loop n a b p = gf_mul_loop n a b 0 XOR p"
  using gf_mul_loop_acc [of n a b 0 p] by simp

lemma gf_mul_loop_Suc0:
  "gf_mul_loop (Suc n) a b 0 =
     gf_mul_loop n (gf_double a) (drop_bit 1 b) 0 XOR (if bit b 0 then a else 0)"
  by (subst gf_mul_loop.simps, subst gf_mul_loop_0) (simp add: lsb_u8_iff)

lemma gf_mul_loop_zero_left: "gf_mul_loop n 0 b 0 = 0"
  by (induction n arbitrary: b) simp_all

lemma gf_mul_loop_zero_right: "gf_mul_loop n a 0 0 = 0"
  by (induction n arbitrary: a) simp_all

lemma gf_mul_loop_xor_left:
  "gf_mul_loop n (a XOR a') b 0 = gf_mul_loop n a b 0 XOR gf_mul_loop n a' b 0"
proof (induction n arbitrary: a a' b)
  case (Suc n)
  show ?case
    by (simp only: gf_mul_loop_Suc0 gf_double_xor Suc.IH) (simp add: ac_simps)
qed simp

lemma gf_mul_loop_xor_right:
  "gf_mul_loop n a (b XOR b') 0 = gf_mul_loop n a b 0 XOR gf_mul_loop n a b' 0"
proof (induction n arbitrary: a b b')
  case (Suc n)
  have "a XOR (a XOR x) = x" for x :: u8
    by (metis xor.assoc xor_self_eq xor.left_neutral)
  then show ?case
    by (simp only: gf_mul_loop_Suc0 drop_bit_xor Suc.IH) (simp add: bit_xor_iff ac_simps)
qed simp

lemma gf_mul_loop_double_left:
  "gf_mul_loop n (gf_double a) b 0 = gf_double (gf_mul_loop n a b 0)"
proof (induction n arbitrary: a b)
  case (Suc n)
  show ?case
    by (simp only: gf_mul_loop_Suc0 gf_double_xor Suc.IH) simp
qed simp

lemma gf_mul_xor_left: "gf_mul (a XOR b) c = gf_mul a c XOR gf_mul b c"
  by (simp only: gf_mul_def gf_mul_loop_xor_left)

lemma gf_mul_xor_right: "gf_mul a (b XOR c) = gf_mul a b XOR gf_mul a c"
  by (simp only: gf_mul_def gf_mul_loop_xor_right)

lemma gf_mul_0_left [simp]: "gf_mul 0 b = 0"
  by (simp only: gf_mul_def gf_mul_loop_zero_left)

lemma gf_mul_0_right [simp]: "gf_mul a 0 = 0"
  by (simp only: gf_mul_def gf_mul_loop_zero_right)

lemma gf_mul_double_left: "gf_mul (gf_double a) b = gf_double (gf_mul a b)"
  by (simp only: gf_mul_def gf_mul_loop_double_left)

lemma gf_mul_1_right: "gf_mul a 1 = a"
  by (simp add: gf_mul_def eval_nat_numeral gf_mul_loop_zero_right)

lemma gf_mul_1_left: "gf_mul 1 b = b"
proof -
  have d: "gf_double 1 = 2" "gf_double 2 = 4" "gf_double 4 = 8" "gf_double 8 = 16"
    "gf_double 16 = 32" "gf_double 32 = 64" "gf_double 64 = 128"
    by (simp_all add: gf_double_eq)
  have eight: "(8 :: nat) = Suc (Suc (Suc (Suc (Suc (Suc (Suc (Suc 0)))))))" by simp
  show ?thesis
    by (simp only: gf_mul_def eight gf_mul_loop_Suc0 d gf_mul_loop.simps(1) drop_bit_drop_bit
          bit_drop_bit_eq comp_apply)
      (subst (9) byte_bits [of b], simp add: ac_simps eval_nat_numeral split del: if_split)
qed

lemma gf_mul_double_right: "gf_mul a (gf_double b) = gf_double (gf_mul a b)"
proof (induction a arbitrary: b rule: byte_induct)
  case (3 a a')
  then show ?case by (simp add: gf_mul_xor_left gf_double_xor)
qed (simp_all add: gf_mul_1_left gf_mul_double_left)

lemma gf_mul_commute: "gf_mul a b = gf_mul b a"
  by (induction a arbitrary: b rule: byte_induct)
    (simp_all add: gf_mul_1_left gf_mul_1_right gf_mul_xor_left gf_mul_xor_right
      gf_mul_double_left gf_mul_double_right)

lemma gf_mul_assoc: "gf_mul (gf_mul a b) c = gf_mul a (gf_mul b c)"
  by (induction a rule: byte_induct)
    (simp_all add: gf_mul_1_left gf_mul_xor_left gf_mul_double_left)

section \<open>The field\<close>

typedef gf256 = "UNIV :: u8 set"
  morphisms byte_of GF by simp

setup_lifting type_definition_gf256

instantiation gf256 :: comm_ring_1
begin

lift_definition zero_gf256 :: gf256 is 0 .

lift_definition one_gf256 :: gf256 is 1 .

lift_definition plus_gf256 :: "gf256 \<Rightarrow> gf256 \<Rightarrow> gf256" is "(XOR)" .

lift_definition minus_gf256 :: "gf256 \<Rightarrow> gf256 \<Rightarrow> gf256" is "(XOR)" .

lift_definition uminus_gf256 :: "gf256 \<Rightarrow> gf256" is "\<lambda>a. a" .

lift_definition times_gf256 :: "gf256 \<Rightarrow> gf256 \<Rightarrow> gf256" is gf_mul .

instance
proof (standard; transfer)
  fix a b c :: u8
  show "gf_mul (gf_mul a b) c = gf_mul a (gf_mul b c)" by (rule gf_mul_assoc)
  show "gf_mul a b = gf_mul b a" by (rule gf_mul_commute)
  show "gf_mul 1 a = a" by (rule gf_mul_1_left)
  show "gf_mul (a XOR b) c = gf_mul a c XOR gf_mul b c" by (rule gf_mul_xor_left)
qed (simp_all add: ac_simps)

end

text \<open>\<open>3\<close> has multiplicative order 255, hence generates the nonzero bytes.\<close>

lemma GF_mult: "GF (gf_mul a b) = GF a * GF b"
  by transfer simp
lemma one_GF: "1 = GF 1"
  by transfer simp
lemma zero_GF: "0 = GF 0"
  by transfer simp

lemma gf_mul_loop_numeral:
  "gf_mul_loop (numeral v) a b p =
     gf_mul_loop (pred_numeral v) (gf_double a) (drop_bit 1 b) (if b AND 1 \<noteq> 0 then p XOR a else p)"
  by (simp add: numeral_eq_Suc)

lemma GF_eq_iff: "GF a = GF b \<longleftrightarrow> a = b"
  by (simp add: GF_inject)

lemmas gf_mul_eval = GF_eq_iff gf_mul_def gf_double_eq gf_mul_loop_numeral

lemma three_powers:
  "GF 3 ^ 5 = GF 51" "GF 3 ^ 15 = GF 53" "GF 3 ^ 51 = GF 12" "GF 3 ^ 85 = GF 189" "GF 3 ^ 255 = 1"
proof -
  have p2: "GF 3 ^ 2 = GF 5"
    by (simp add: power2_eq_square gf_mul_eval flip: GF_mult)
  have p3: "GF 3 ^ 3 = GF 15"
    using power_add [of "GF 3" 2 1] by (simp add: p2 gf_mul_eval flip: GF_mult)
  show p5: "GF 3 ^ 5 = GF 51"
    using power_add [of "GF 3" 2 3] by (simp add: p2 p3 gf_mul_eval flip: GF_mult)
  have p10: "GF 3 ^ 10 = GF 114"
    using power_add [of "GF 3" 5 5] by (simp add: p5 gf_mul_eval flip: GF_mult)
  show p15: "GF 3 ^ 15 = GF 53"
    using power_add [of "GF 3" 10 5] by (simp add: p10 p5 gf_mul_eval flip: GF_mult)
  have p17: "GF 3 ^ 17 = GF 225"
    using power_add [of "GF 3" 15 2] by (simp add: p15 p2 gf_mul_eval flip: GF_mult)
  have p34: "GF 3 ^ 34 = GF 92"
    using power_add [of "GF 3" 17 17] by (simp add: p17 gf_mul_eval flip: GF_mult)
  show p51: "GF 3 ^ 51 = GF 12"
    using power_add [of "GF 3" 34 17] by (simp add: p34 p17 gf_mul_eval flip: GF_mult)
  show p85: "GF 3 ^ 85 = GF 189"
    using power_add [of "GF 3" 51 34] by (simp add: p51 p34 gf_mul_eval flip: GF_mult)
  have p170: "GF 3 ^ 170 = GF 188"
    using power_add [of "GF 3" 85 85] by (simp add: p85 gf_mul_eval flip: GF_mult)
  show "GF 3 ^ 255 = 1"
    using power_add [of "GF 3" 170 85] by (simp add: p170 p85 gf_mul_eval one_GF flip: GF_mult)
qed


lemma proper_divisor_255:
  assumes "g dvd 255" and "g < (255 :: nat)"
  shows "g dvd 85 \<or> g dvd 51 \<or> g dvd 15"
proof -
  obtain k where k: "255 = g * k" using assms(1) by (rule dvdE)
  have "g \<le> 15 \<or> k \<le> 15"
  proof (rule ccontr)
    assume "\<not> ?thesis"
    then have "16 * 16 \<le> g * k" by (intro mult_le_mono) auto
    then show False using k by simp
  qed
  moreover have "n \<le> 15 \<Longrightarrow> n \<in> {0, 1, 2, 3, 4, 5, 6, 7, 8, 9, 10, 11, 12, 13, 14, 15}" for n :: nat
    by simp arith
  ultimately consider "g \<in> {0, 1, 2, 3, 4, 5, 6, 7, 8, 9, 10, 11, 12, 13, 14, 15}"
    | "k \<in> {0, 1, 2, 3, 4, 5, 6, 7, 8, 9, 10, 11, 12, 13, 14, 15}"
    by blast
  then show ?thesis
  proof cases
    case 1
    then show ?thesis using assms by (elim insertE emptyE) simp_all
  next
    case 2
    then have "g \<in> {85, 51, 17}" using k assms(2) by (elim insertE emptyE) (simp_all, presburger+)
    then show ?thesis by auto
  qed
qed

lemma power_eq_1_dvd: "x ^ g = 1 \<Longrightarrow> g dvd n \<Longrightarrow> x ^ n = (1 :: 'a :: comm_ring_1)"
  by (metis dvdE power_mult power_one)

lemma three_order: "0 < d \<Longrightarrow> d < 255 \<Longrightarrow> GF 3 ^ d \<noteq> 1"
proof
  assume d: "0 < d" "d < 255" and one: "GF 3 ^ d = 1"
  obtain x y where xy: "d * x = 255 * y + gcd d 255"
    using bezout_nat [of d 255] d(1) by auto
  have "GF 3 ^ gcd d 255 = GF 3 ^ (255 * y + gcd d 255)"
    by (simp add: power_add power_mult three_powers)
  also have "\<dots> = 1"
    by (simp add: power_mult one flip: xy)
  finally have g: "GF 3 ^ gcd d 255 = 1" .
  have "gcd d 255 \<le> d" using d(1) by (simp add: gcd_le1_nat)
  then have "gcd d 255 < 255" using d(2) by simp
  then have "gcd d 255 dvd 85 \<or> gcd d 255 dvd 51 \<or> gcd d 255 dvd 15"
    by (intro proper_divisor_255) simp_all
  then have "GF 3 ^ 85 = 1 \<or> GF 3 ^ 51 = 1 \<or> GF 3 ^ 15 = 1"
    using g by (blast intro: power_eq_1_dvd)
  then show False
    by (simp add: three_powers one_GF GF_eq_iff)
qed

lemma three_powers_inj: "inj_on (\<lambda>i. GF 3 ^ i) {..<255}"
proof (rule linorder_inj_onI')
  fix i j :: nat
  assume "i \<in> {..<255}" "j \<in> {..<255}" "i < j"
  show "GF 3 ^ i \<noteq> GF 3 ^ j"
  proof
    assume "GF 3 ^ i = GF 3 ^ j"
    then have "GF 3 ^ (i + (255 - i)) = GF 3 ^ (j + (255 - i))" by (simp only: power_add)
    moreover have "i + (255 - i) = 255" "j + (255 - i) = (j - i) + 255"
      using \<open>i < j\<close> \<open>j \<in> _\<close> by auto
    ultimately have "GF 3 ^ 255 = GF 3 ^ (j - i) * GF 3 ^ 255" by (simp only: power_add)
    then have "GF 3 ^ (j - i) = 1" by (simp add: three_powers)
    moreover have "0 < j - i" "j - i < 255" using \<open>i < j\<close> \<open>j \<in> _\<close> by auto
    ultimately show False using three_order by blast
  qed
qed

lemma card_gf256: "card (UNIV :: gf256 set) = 256"
proof -
  have "bij byte_of"
    by (rule bijI') (auto simp: byte_of_inject intro: exI [of _ "GF _"] GF_inverse [symmetric])
  then have "card (UNIV :: gf256 set) = card (UNIV :: u8 set)"
    by (rule bij_betw_same_card)
  then show ?thesis by (simp add: card_word)
qed

lemma finite_gf256 [simp]: "finite (A :: gf256 set)"
  by (rule finite_subset [of _ UNIV]) (auto intro: card_ge_0_finite simp: card_gf256)

lemma three_generates:
  assumes "b \<noteq> 0"
  shows "\<exists>i. b = GF 3 ^ i"
proof -
  let ?A = "(\<lambda>i. GF 3 ^ i) ` {..<255}"
  have "0 \<notin> ?A"
  proof
    assume "0 \<in> ?A"
    then obtain i where "i < 255" "GF 3 ^ i = 0" by auto
    then have "GF 3 ^ 255 = 0"
      by (metis add_diff_inverse_nat mult_zero_left not_less_iff_gr_or_eq power_add)
    then show False by (simp add: three_powers)
  qed
  then have "?A \<subseteq> UNIV - {0}" by auto
  moreover have "card ?A = card (UNIV - {0 :: gf256})"
    by (simp add: card_image three_powers_inj card_Diff_singleton card_gf256)
  ultimately have "?A = UNIV - {0}"
    by (intro card_subset_eq) auto
  then show ?thesis using assms by blast
qed

lemma pow_255: "b \<noteq> 0 \<Longrightarrow> b ^ 255 = (1 :: gf256)"
proof -
  assume "b \<noteq> 0"
  then obtain i where "b = GF 3 ^ i" using three_generates by blast
  then have "b ^ 255 = (GF 3 ^ 255) ^ i" by (simp only: power_mult [symmetric] mult.commute)
  then show ?thesis by (simp add: three_powers)
qed

text \<open>Square and multiply computes the power.\<close>

lemma u32_odd: "n AND 1 = 1 \<longleftrightarrow> odd (unat (n :: u32))"
  by (simp add: and_one_eq odd_iff_mod_2_eq_one)
    (metis (no_types, lifting) ext One_nat_def take_bit_Suc_0 unsigned_1
      unsigned_take_bit_eq word_eq_iff_unsigned)

lemma power_half: "(x :: 'a :: comm_ring_1) ^ k = (if odd k then x else 1) * (x * x) ^ (k div 2)"
proof -
  have "x ^ k = x ^ (k mod 2) * x ^ (2 * (k div 2))"
    by (simp flip: power_add)
  also have "x ^ (k mod 2) = (if odd k then x else 1)"
    by (auto simp: odd_iff_mod_2_eq_one)
  finally show ?thesis by (simp add: power_mult power2_eq_square)
qed

lemma gf_pow_loop_eq: "GF (gf_pow_loop acc base n) = GF acc * GF base ^ unat n"
proof (induction acc base n rule: gf_pow_loop.induct)
  case (1 acc base n)
  have half: "unat (drop_bit 1 n) = unat n div 2"
    by (simp add: drop_bit_eq_div unat_div)
  show ?case
  proof (cases "n > 0")
    case True
    have "GF (gf_pow_loop acc base n) =
        GF (if n AND 1 = 1 then gf_mul acc base else acc) * (GF base * GF base) ^ (unat n div 2)"
      by (subst gf_pow_loop.simps) (simp only: True if_True "1.IH" half GF_mult)
    also have "\<dots> = GF acc * GF base ^ unat n"
      by (subst power_half [of "GF base"]) (simp add: u32_odd GF_mult mult.assoc)
    finally show ?thesis .
  next
    case False
    then show ?thesis by (subst gf_pow_loop.simps) (simp add: word_gt_0)
  qed
qed

lemma gf_pow_eq: "GF (gf_pow a n) = GF a ^ unat n"
  by (simp add: gf_pow_def gf_pow_loop_eq flip: one_GF)

lemma gf_inv_eq: "GF (gf_inv a) = GF a ^ 254"
  by (simp add: gf_inv_def gf_pow_eq)

instantiation gf256 :: field
begin

lift_definition inverse_gf256 :: "gf256 \<Rightarrow> gf256" is gf_inv .

definition divide_gf256 :: "gf256 \<Rightarrow> gf256 \<Rightarrow> gf256" where
  "divide_gf256 a b = a * inverse b"

instance
proof
  fix a b :: gf256
  have inv: "inverse a = a ^ 254" for a :: gf256
    by (metis byte_of_inverse gf_inv_eq inverse_gf256.rep_eq)
  show "a div b = a * inverse b" by (rule divide_gf256_def)
  show "inverse 0 = (0 :: gf256)" by (simp add: inv)
  assume "a \<noteq> 0"
  then have "a ^ Suc 254 = 1" by (simp add: pow_255)
  then show "inverse a * a = 1" by (simp only: inv power_Suc mult.commute)
qed

end

text \<open>Reading the code's operations as field operations.\<close>

lemma GF_xor: "GF (a XOR b) = GF a + GF b"
  by transfer simp

lemma GF_inverse_eq: "GF (gf_inv a) = inverse (GF a)"
  by transfer simp

lemma gf256_add_self [simp]: "a + a = (0 :: gf256)"
  by transfer simp

lemma gf256_minus_eq: "a - b = a + (b :: gf256)"
  by transfer simp

lemmas gf_hom = GF_mult GF_xor GF_inverse_eq zero_GF [symmetric] one_GF [symmetric]

end
