(* ===== verification/Poly_Fun.thy ===== *)
theory Poly_Fun
  imports Main
begin

text \<open>
  Polynomial functions over a field, as far as secret sharing needs them: Horner evaluation of
  a coefficient list, the bound on the number of roots, Lagrange interpolation, and the
  uniqueness of the polynomial of bounded degree through given points.
\<close>

section \<open>Horner evaluation\<close>

fun horner :: "'a :: comm_ring_1 list \<Rightarrow> 'a \<Rightarrow> 'a" where
  "horner [] x = 0"
| "horner (c # cs) x = horner cs x * x + c"

definition polyfun :: "nat \<Rightarrow> ('a :: comm_ring_1 \<Rightarrow> 'a) \<Rightarrow> bool" where
  "polyfun n f \<longleftrightarrow> (\<exists>cs. length cs = n \<and> (\<forall>x. f x = horner cs x))"

lemma polyfun_horner [intro]: "polyfun (length cs) (horner cs)"
  by (auto simp: polyfun_def)

lemma horner_append_zeros: "horner (cs @ replicate k 0) x = horner cs x"
  by (induction cs) (simp, induction k, simp_all)

lemma horner_replicate: "horner (replicate k 0) x = 0"
  by (induction k) simp_all

lemma horner_map2_add:
  "length cs = length ds \<Longrightarrow> horner (map2 (+) cs ds) x = horner cs x + horner ds x"
  by (induction cs ds rule: list_induct2) (simp_all add: algebra_simps)

lemma horner_map_mult: "horner (map ((*) a) cs) x = a * horner cs x"
  by (induction cs) (simp_all add: algebra_simps)

lemma polyfun_mono: "polyfun m f \<Longrightarrow> m \<le> n \<Longrightarrow> polyfun n f"
proof -
  assume "polyfun m f" "m \<le> n"
  then obtain cs where "length cs = m" "\<And>x. f x = horner cs x"
    by (auto simp: polyfun_def)
  then show "polyfun n f" using \<open>m \<le> n\<close> unfolding polyfun_def
    by (intro exI [of _ "cs @ replicate (n - m) 0"]) (simp add: horner_append_zeros)
qed

lemma polyfun_add: "polyfun n f \<Longrightarrow> polyfun n g \<Longrightarrow> polyfun n (\<lambda>x. f x + g x)"
proof -
  assume "polyfun n f" "polyfun n g"
  then obtain cs ds where "length cs = n" "\<And>x. f x = horner cs x"
    "length ds = n" "\<And>x. g x = horner ds x" by (auto simp: polyfun_def)
  then show ?thesis unfolding polyfun_def
    by (intro exI [of _ "map2 (+) cs ds"]) (simp add: horner_map2_add)
qed

lemma polyfun_smult: "polyfun n f \<Longrightarrow> polyfun n (\<lambda>x. a * f x)"
  unfolding polyfun_def by (metis horner_map_mult length_map)

lemma polyfun_diff: "polyfun n f \<Longrightarrow> polyfun n g \<Longrightarrow> polyfun n (\<lambda>x. f x - g x)"
  using polyfun_add [of n f "\<lambda>x. (-1) * g x"] polyfun_smult [of n g "-1"] by simp

lemma polyfun_zero: "polyfun n (\<lambda>_. 0)"
  unfolding polyfun_def by (intro exI [of _ "replicate n 0"]) (simp add: horner_replicate)

lemma polyfun_const: "polyfun (Suc n) (\<lambda>_. c)"
  by (rule polyfun_mono [of "Suc 0"]) (auto simp: polyfun_def intro: exI [of _ "[c]"])

lemma polyfun_mult_linear: "polyfun n f \<Longrightarrow> polyfun (Suc n) (\<lambda>x. f x * (x - a))"
proof -
  assume f: "polyfun n f"
  then obtain cs where "length cs = n" "\<And>x. f x = horner cs x" by (auto simp: polyfun_def)
  then have "polyfun (Suc n) (\<lambda>x. f x * x)"
    unfolding polyfun_def by (intro exI [of _ "0 # cs"]) simp
  moreover have "polyfun (Suc n) (\<lambda>x. a * f x)"
    by (intro polyfun_smult polyfun_mono [OF f]) simp
  ultimately have "polyfun (Suc n) (\<lambda>x. f x * x - a * f x)" by (rule polyfun_diff)
  then show ?thesis by (simp add: algebra_simps)
qed

lemma polyfun_prod:
  "finite K \<Longrightarrow> polyfun (Suc (card K)) (\<lambda>x. \<Prod>k\<in>K. x - k)"
proof (induction K rule: finite_induct)
  case empty
  then show ?case by (simp add: polyfun_const)
next
  case (insert k K)
  then show ?case using polyfun_mult_linear [of _ "\<lambda>x. \<Prod>k\<in>K. x - k" k]
    by (simp add: mult.commute)
qed

lemma polyfun_sum:
  "(\<And>j. j \<in> J \<Longrightarrow> polyfun n (f j)) \<Longrightarrow> polyfun n (\<lambda>x. \<Sum>j\<in>J. f j x)"
  by (induction J rule: infinite_finite_induct) (simp_all add: polyfun_zero polyfun_add)

section \<open>Roots\<close>

lemma horner_divide:
  "\<exists>qs. length qs = length cs \<and> (\<forall>x. horner (c # cs) x = horner (c # cs) a + (x - a) * horner qs x)"
proof (induction cs arbitrary: c)
  case Nil
  then show ?case by simp
next
  case (Cons d ds)
  obtain qs where q: "length qs = length ds \<and>
      (\<forall>x. horner (d # ds) x = horner (d # ds) a + (x - a) * horner qs x)"
    using Cons.IH [of d] by (rule exE)
  note qs = conjunct1 [OF q] conjunct2 [OF q, rule_format]
  have alg: "(H + (x - a) * Q) * x + c = (H * a + c) + (x - a) * (Q * x + H)" for H Q x
    by (simp add: algebra_simps)
  have step: "horner (c # d # ds) x =
      horner (c # d # ds) a + (x - a) * horner (horner (d # ds) a # qs) x" for x
    unfolding horner.simps(2) [of c "d # ds"] horner.simps(2) [of "horner (d # ds) a" qs]
    by (subst qs(2)) (rule alg)
  show ?case
  proof (intro exI conjI allI)
    show "length (horner (d # ds) a # qs) = length (d # ds)" using qs(1) by simp
  qed (rule step)
qed

lemma horner_roots:
  fixes cs :: "'a :: idom list"
  assumes "finite A" and "length cs \<le> card A" and "\<And>a. a \<in> A \<Longrightarrow> horner cs a = 0"
  shows "horner cs x = 0"
  using assms
proof (induction "length cs" arbitrary: cs A)
  case 0
  then show ?case by simp
next
  case (Suc n)
  obtain c ds where cs: "cs = c # ds" using Suc.hyps(2) by (cases cs) auto
  have "A \<noteq> {}" using Suc.hyps(2) Suc.prems(2) by auto
  then obtain a where a: "a \<in> A" by blast
  obtain qs where q: "length qs = length ds \<and>
      (\<forall>x. horner (c # ds) x = horner (c # ds) a + (x - a) * horner qs x)"
    using horner_divide [of ds c a] by (rule exE)
  note qs = conjunct1 [OF q] conjunct2 [OF q, rule_format]
  have q0: "horner cs x = (x - a) * horner qs x" for x
    using qs(2) [of x] Suc.prems(3) [OF a] unfolding cs by (simp only: add_0)
  have "horner qs x = 0"
  proof (rule Suc.hyps(1))
    show "n = length qs" using Suc.hyps(2) qs(1) cs by simp
    show "finite (A - {a})" using Suc.prems(1) by simp
    show "length qs \<le> card (A - {a})"
      using Suc.hyps(2) Suc.prems(2) qs(1) cs card_Diff_singleton [OF a] by simp
    show "horner qs b = 0" if "b \<in> A - {a}" for b
      using Suc.prems(3) [of b] that unfolding q0 by simp
  qed
  then show ?case unfolding q0 by simp
qed

lemma polyfun_unique:
  fixes f :: "'a :: idom \<Rightarrow> 'a"
  assumes "polyfun n f" "polyfun n g" "finite A" "n \<le> card A" "\<And>a. a \<in> A \<Longrightarrow> f a = g a"
  shows "f x = g x"
proof -
  obtain cs where cs: "length cs = n \<and> (\<forall>x. f x - g x = horner cs x)"
    using polyfun_diff [OF assms(1,2)] unfolding polyfun_def by (rule exE)
  then have eq: "horner cs x = f x - g x" for x by simp
  have "horner cs x = 0"
  proof (rule horner_roots [OF assms(3)])
    show "length cs \<le> card A" using cs assms(4) by simp
    show "horner cs a = 0" if "a \<in> A" for a unfolding eq using assms(5) [OF that] by simp
  qed
  then show ?thesis unfolding eq by simp
qed

section \<open>Lagrange interpolation\<close>

theorem lagrange_interpolation:
  fixes f :: "'a :: field \<Rightarrow> 'a"
  assumes "finite X" and "polyfun n f" and "n \<le> card X"
  shows "(\<Sum>j\<in>X. f j * (\<Prod>k\<in>X - {j}. (z - k) / (j - k))) = f z" (is "?L z = _")
proof -
  have basis: "polyfun (card X) (\<lambda>z. \<Prod>k\<in>X - {j}. (z - k) / (j - k))" if "j \<in> X" for j
  proof -
    have eq: "(\<lambda>z. \<Prod>k\<in>X - {j}. (z - k) / (j - k)) =
        (\<lambda>z. inverse (\<Prod>k\<in>X - {j}. j - k) * (\<Prod>k\<in>X - {j}. z - k))"
      by (rule ext, subst prod_dividef) (simp only: divide_inverse mult.commute)
    have card: "card X = Suc (card (X - {j}))"
      using card_Suc_Diff1 [OF assms(1) that] by (rule sym)
    have "polyfun (Suc (card (X - {j}))) (\<lambda>z. \<Prod>k\<in>X - {j}. z - k)"
      using assms(1) by (intro polyfun_prod) simp
    then show ?thesis
      unfolding eq card by (rule polyfun_smult)
  qed
  have at: "(\<Prod>k\<in>X - {j}. (x - k) / (j - k)) = (if j = x then 1 else 0)" if "x \<in> X" "j \<in> X" for x j
  proof (cases "j = x")
    case True
    then show ?thesis by (auto intro!: prod.neutral split: if_splits)
  next
    case False
    then have "x \<in> X - {j}" "(x - x) / (j - x) = 0" using that by auto
    then have "\<exists>k\<in>X - {j}. (x - k) / (j - k) = 0" by blast
    then have "(\<Prod>k\<in>X - {j}. (x - k) / (j - k)) = 0" using assms(1) by (intro prod_zero) auto
    then show ?thesis using False by simp
  qed
  show ?thesis
  proof (rule polyfun_unique [of "card X" ?L f X])
    show "polyfun (card X) ?L"
      by (intro polyfun_sum polyfun_smult basis)
    show "polyfun (card X) f" using assms by (blast intro: polyfun_mono)
    show "?L x = f x" if "x \<in> X" for x
    proof -
      have "?L x = (\<Sum>j\<in>X. if j = x then f j else 0)"
        by (rule sum.cong [OF refl], subst at [OF that]) auto
      then show ?thesis using assms(1) that by simp
    qed
  qed (use assms in auto)
qed

end
