(* ===== verification/Shamir.thy ===== *)
theory Shamir
  imports Gf256 Poly_Fun
begin

text \<open>
  \<open>crates/ferro-tee/src/shamir.rs\<close>, \<open>cluster.rs\<close>, \<open>key.rs\<close> and \<open>error.rs\<close>: splitting
  a secret into shares, combining shares by Lagrange interpolation at \<open>0\<close>, and the
  threshold reconstruction driver. The operating system's random generator is the argument
  \<open>fill\<close>: \<open>fill i n\<close> are the \<open>n\<close> bytes that the \<open>i\<close>-th call of
  \<open>fill_bytes\<close> writes. Page locking is the argument \<open>mlock\<close>.
\<close>

section \<open>Data\<close>

datatype TeeError =
    Mlock string
  | BadReportSignature
  | BadReport string
  | MeasurementNotAllowed
  | Codec string
  | Seal
  | PskTranscript
  | NotEnoughShares nat nat
  | DuplicateShare u8
  | InvalidShareIndex u8
  | ShareLength
  | MlKem

record share =
  share_x :: u8
  share_y :: bytes

record share_set =
  threshold :: nat
  total :: nat
  shares :: "share list"

definition SHAMIR_THRESHOLD :: nat where
  "SHAMIR_THRESHOLD = 3"

definition SHAMIR_SHARES :: nat where
  "SHAMIR_SHARES = 5"

section \<open>Split\<close>

fun split_loop ::
  "(nat \<Rightarrow> nat \<Rightarrow> bytes) \<Rightarrow> nat \<Rightarrow> nat \<Rightarrow> bytes \<Rightarrow> bytes \<Rightarrow> share list \<Rightarrow> share list" where
  "split_loop fill t i [] coeffs shs = shs"
| "split_loop fill t i (s # ss) coeffs shs =
     (let coeffs1 = coeffs[0 := s];
          coeffs2 = (if t > 1 then take 1 coeffs1 @ fill i (length coeffs1 - 1) else coeffs1)
      in split_loop fill t (Suc i) ss coeffs2
           (map (\<lambda>sh. sh\<lparr>share_y := (share_y sh)[i := gf_eval coeffs2 (share_x sh)]\<rparr>) shs))"

definition shamir_split ::
  "(nat \<Rightarrow> nat \<Rightarrow> bytes) \<Rightarrow> bytes \<Rightarrow> nat \<Rightarrow> nat \<Rightarrow> (TeeError, share_set) result" where
  "shamir_split fill secret t n =
     (if t = 0 \<or> t > n \<or> n > 255 then Inl (BadReport ''invalid shamir parameters'')
      else
        let shs = map (\<lambda>x. \<lparr>share_x = word_of_nat x, share_y = replicate (length secret) 0\<rparr>) [1..<Suc n]
        in Inr \<lparr>threshold = t, total = n,
                shares = split_loop fill t 0 secret (replicate t 0) shs\<rparr>)"

section \<open>Combine\<close>

fun check_shares :: "nat \<Rightarrow> share list \<Rightarrow> TeeError option" where
  "check_shares len [] = None"
| "check_shares len (s # ss) =
     (if share_x s = 0 then Some (InvalidShareIndex 0)
      else if length (share_y s) \<noteq> len then Some ShareLength
      else check_shares len ss)"

fun first_duplicate :: "share list \<Rightarrow> u8 option" where
  "first_duplicate [] = None"
| "first_duplicate (s # ss) =
     (if share_x s \<in> set (map share_x ss) then Some (share_x s) else first_duplicate ss)"

definition weight :: "share list \<Rightarrow> nat \<Rightarrow> u8" where
  "weight shs j =
     (let (num, den) =
        foldl (\<lambda>(num, den) k.
            if k = j then (num, den)
            else (gf_mul num (share_x (shs ! k)),
                  gf_mul den (share_x (shs ! j) XOR share_x (shs ! k))))
          (1, 1) [0..<length shs]
      in gf_mul num (gf_inv den))"

definition combine_byte :: "share list \<Rightarrow> bytes \<Rightarrow> nat \<Rightarrow> u8" where
  "combine_byte shs ws i =
     foldl (\<lambda>acc j. acc XOR gf_mul (share_y (shs ! j) ! i) (ws ! j)) 0 [0..<length shs]"

definition combine :: "share list \<Rightarrow> (TeeError, bytes) result" where
  "combine shs =
     (case shs of
        [] \<Rightarrow> Inl (NotEnoughShares 0 1)
      | s0 # _ \<Rightarrow>
          let len = length (share_y s0)
          in case check_shares len shs of
               Some e \<Rightarrow> Inl e
             | None \<Rightarrow>
                 (case first_duplicate shs of
                    Some x \<Rightarrow> Inl (DuplicateShare x)
                  | None \<Rightarrow>
                      let ws = map (weight shs) [0..<length shs]
                      in Inr (map (combine_byte shs ws) [0..<len])))"

section \<open>Protected keys and the reconstruction driver\<close>

record protected_key =
  buf :: bytes
  locked :: bool

text \<open>\<open>ProtectedKey::new\<close>, \<open>wipe\<close> and \<open>drop\<close>.\<close>

definition ProtectedKey_new ::
  "(bytes \<Rightarrow> string option) \<Rightarrow> bytes \<Rightarrow> (TeeError, protected_key) result" where
  "ProtectedKey_new mlock secret =
     (case mlock secret of
        Some e \<Rightarrow> Inl (Mlock e)
      | None \<Rightarrow> Inr \<lparr>buf = secret, locked = True\<rparr>)"

definition wipe :: "protected_key \<Rightarrow> protected_key" where
  "wipe k = k\<lparr>buf := replicate (length (buf k)) 0\<rparr>"

definition drop_key :: "protected_key \<Rightarrow> protected_key" where
  "drop_key k = (wipe k)\<lparr>locked := False\<rparr>"

record share_holder =
  index :: u8
  share :: share

definition ShareHolder_new :: "share \<Rightarrow> share_holder" where
  "ShareHolder_new s = \<lparr>index = share_x s, share = s\<rparr>"

definition reconstruct ::
  "(bytes \<Rightarrow> string option) \<Rightarrow> nat \<Rightarrow> nat \<Rightarrow> share_holder list \<Rightarrow> (TeeError, protected_key) result" where
  "reconstruct mlock t n holders =
     (if length holders < t then Inl (NotEnoughShares (length holders) t)
      else
        let chosen = map share (take t holders)
        in and_then (combine chosen) (\<lambda>secret.
             if length secret \<noteq> n then Inl ShareLength
             else ProtectedKey_new mlock secret))"

section \<open>What split computes\<close>

definition split_coeffs :: "(nat \<Rightarrow> nat \<Rightarrow> bytes) \<Rightarrow> nat \<Rightarrow> bytes \<Rightarrow> nat \<Rightarrow> bytes" where
  "split_coeffs fill t secret i = secret ! i # fill i (t - 1)"

lemma split_loop_eq:
  assumes fill: "\<And>i n. length (fill i n) = n" and t: "0 < t"
    and "length coeffs = t" and "\<forall>sh \<in> set shs. length (share_y sh) = i + length ss"
  shows "split_loop fill t i ss coeffs shs =
    map (\<lambda>sh. sh\<lparr>share_y := take i (share_y sh) @
      map (\<lambda>k. gf_eval (ss ! k # fill (i + k) (t - 1)) (share_x sh)) [0..<length ss]\<rparr>) shs"
  using assms(3,4)
proof (induction ss arbitrary: i coeffs shs)
  case Nil
  then show ?case by (simp add: map_idI)
next
  case (Cons s ss)
  let ?c = "s # fill i (t - 1)"
  have c: "(if t > 1 then take 1 (coeffs[0 := s]) @ fill i (length (coeffs[0 := s]) - 1)
      else coeffs[0 := s]) = ?c"
  proof (cases "t > 1")
    case True
    then show ?thesis using Cons.prems(1) by (cases coeffs) auto
  next
    case False
    then have "t = 1" using t by simp
    moreover have "fill i 0 = []" using fill [of i 0] by simp
    ultimately show ?thesis using Cons.prems(1) by (cases coeffs) auto
  qed
  let ?shs = "map (\<lambda>sh. sh\<lparr>share_y := (share_y sh)[i := gf_eval ?c (share_x sh)]\<rparr>) shs"
  have "split_loop fill t i (s # ss) coeffs shs = split_loop fill t (Suc i) ss ?c ?shs"
    by (simp only: split_loop.simps Let_def c)
  also have "\<dots> = map (\<lambda>sh. sh\<lparr>share_y := take (Suc i) (share_y sh) @
      map (\<lambda>k. gf_eval (ss ! k # fill (Suc i + k) (t - 1)) (share_x sh)) [0..<length ss]\<rparr>) ?shs"
    using Cons.prems t by (intro Cons.IH) (auto simp: fill)
  also have "\<dots> = map (\<lambda>sh. sh\<lparr>share_y := take i (share_y sh) @
      map (\<lambda>k. gf_eval ((s # ss) ! k # fill (i + k) (t - 1)) (share_x sh)) [0..<length (s # ss)]\<rparr>) shs"
    using Cons.prems(2)
    by (auto simp: upt_conv_Cons map_Suc_upt [symmetric] take_Suc_conv_app_nth comp_def
        simp del: upt_Suc)
  finally show ?case .
qed

definition share_at :: "(nat \<Rightarrow> nat \<Rightarrow> bytes) \<Rightarrow> nat \<Rightarrow> bytes \<Rightarrow> nat \<Rightarrow> share" where
  "share_at fill t secret x =
     \<lparr>share_x = word_of_nat x,
      share_y = map (\<lambda>i. gf_eval (split_coeffs fill t secret i) (word_of_nat x)) [0..<length secret]\<rparr>"

lemma shamir_split_Inr:
  assumes fill: "\<And>i n. length (fill i n) = n"
  shows "shamir_split fill secret t n = Inr S \<longleftrightarrow>
    0 < t \<and> t \<le> n \<and> n \<le> 255 \<and>
    S = \<lparr>threshold = t, total = n, shares = map (share_at fill t secret) [1..<Suc n]\<rparr>"
proof (cases "t = 0 \<or> t > n \<or> n > 255")
  case True
  then show ?thesis by (auto simp: shamir_split_def)
next
  case False
  then have "split_loop fill t 0 secret (replicate t 0)
      (map (\<lambda>x. \<lparr>share_x = word_of_nat x, share_y = replicate (length secret) 0\<rparr>) [1..<Suc n]) =
    map (share_at fill t secret) [1..<Suc n]"
    by (subst split_loop_eq [OF fill]) (auto simp: split_coeffs_def comp_def share_at_def)
  with False show ?thesis by (auto simp: shamir_split_def)
qed

lemma shares_of_split:
  assumes "\<And>i n. length (fill i n) = n" and "shamir_split fill secret t n = Inr S"
  shows "set (shares S) = share_at fill t secret ` {1..n}"
  using assms(2) unfolding shamir_split_Inr [OF assms(1)]
  by (auto simp: atLeastLessThanSuc_atLeastAtMost simp del: upt_Suc)

section \<open>What combine computes\<close>

lemma GF_eval: "GF (gf_eval cs x) = horner (map GF cs) (GF x)"
  by (induction cs) (simp_all add: gf_eval_def gf_hom)

lemma GF_foldl_xor:
  "distinct js \<Longrightarrow> GF (foldl (\<lambda>acc j. acc XOR h j) a js) = GF a + (\<Sum>j\<in>set js. GF (h j))"
  by (induction js arbitrary: a) (simp_all add: gf_hom add.assoc)

lemma GF_foldl_num_den:
  "distinct ks \<Longrightarrow>
    map_prod GF GF (foldl (\<lambda>(num, den) k. if k = j then (num, den)
      else (gf_mul num (f k), gf_mul den (g k))) (a, b) ks) =
    (GF a * (\<Prod>k\<in>set ks - {j}. GF (f k)), GF b * (\<Prod>k\<in>set ks - {j}. GF (g k)))"
proof (induction ks arbitrary: a b)
  case (Cons k ks)
  have "set (k # ks) - {j} = (if k = j then set ks - {j} else insert k (set ks - {j}))" by auto
  with Cons show ?case by (simp add: gf_hom mult.assoc)
qed simp

lemma GF_weight:
  "GF (weight shs j) = (\<Prod>k\<in>{..<length shs} - {j}.
     GF (share_x (shs ! k)) / (GF (share_x (shs ! j)) + GF (share_x (shs ! k))))"
proof -
  obtain num den where nd: "foldl (\<lambda>(num, den) k. if k = j then (num, den)
      else (gf_mul num (share_x (shs ! k)), gf_mul den (share_x (shs ! j) XOR share_x (shs ! k))))
      (1, 1) [0..<length shs] = (num, den)" by fastforce
  have "GF num = (\<Prod>k\<in>{..<length shs} - {j}. GF (share_x (shs ! k)))"
    "GF den = (\<Prod>k\<in>{..<length shs} - {j}. GF (share_x (shs ! j)) + GF (share_x (shs ! k)))"
    using GF_foldl_num_den [of "[0..<length shs]" j "\<lambda>k. share_x (shs ! k)"
        "\<lambda>k. share_x (shs ! j) XOR share_x (shs ! k)" 1 1]
    unfolding nd by (simp_all add: gf_hom atLeast0LessThan)
  then show ?thesis
    by (subst prod_dividef) (simp add: weight_def nd gf_hom divide_inverse)
qed

lemma sum_set_conv_nth: "distinct xs \<Longrightarrow> (\<Sum>x\<in>set xs. F x) = (\<Sum>j<length xs. F (xs ! j))"
  by (simp add: sum.distinct_set_conv_list sum_list_sum_nth atLeast0LessThan)

lemma prod_set_diff_conv_nth:
  assumes "distinct xs" "j < length xs"
  shows "(\<Prod>x\<in>set xs - {xs ! j}. F x) = (\<Prod>k\<in>{..<length xs} - {j}. F (xs ! k))"
proof -
  have "inj_on ((!) xs) ({..<length xs} - {j})"
    using assms(1) by (auto simp: inj_on_def nth_eq_iff_index_eq)
  moreover have "(!) xs ` ({..<length xs} - {j}) = set xs - {xs ! j}"
    using assms by (auto simp: in_set_conv_nth nth_eq_iff_index_eq)
  ultimately show ?thesis
    by (metis (no_types, lifting) comp_apply prod.cong prod.reindex)
qed

lemma interpolate_shares:
  assumes "distinct (map share_x shs)" and "polyfun n f" and "n \<le> length shs"
  shows "(\<Sum>j<length shs. f (GF (share_x (shs ! j))) * GF (weight shs j)) = f 0"
proof -
  let ?xs = "map (\<lambda>s. GF (share_x s)) shs"
  have d: "distinct ?xs"
    using assms(1) by (simp add: distinct_map inj_on_def GF_eq_iff)
  have "f 0 = (\<Sum>x\<in>set ?xs. f x * (\<Prod>k\<in>set ?xs - {x}. (0 - k) / (x - k)))"
    using assms(2,3) d by (intro lagrange_interpolation [symmetric, of _ n]) (simp_all only: distinct_card length_map finite_set)
  also have "\<dots> = (\<Sum>j<length ?xs. f (?xs ! j) * (\<Prod>k\<in>set ?xs - {?xs ! j}. (0 - k) / (?xs ! j - k)))"
    using d by (rule sum_set_conv_nth)
  also have "\<dots> = (\<Sum>j<length shs. f (GF (share_x (shs ! j))) * GF (weight shs j))"
  proof (rule sum.cong)
    fix j assume j: "j \<in> {..<length shs}"
    have "(\<Prod>k\<in>set ?xs - {?xs ! j}. (0 - k) / (?xs ! j - k)) = GF (weight shs j)"
      using j d unfolding GF_weight
      by (subst prod_set_diff_conv_nth) (auto intro!: prod.cong simp: gf256_minus_eq)
    then show "f (?xs ! j) * (\<Prod>k\<in>set ?xs - {?xs ! j}. (0 - k) / (?xs ! j - k)) =
        f (GF (share_x (shs ! j))) * GF (weight shs j)"
      using j by simp
  qed simp
  finally show ?thesis by simp
qed

lemma GF_combine_byte:
  "GF (combine_byte shs (map (weight shs) [0..<length shs]) i) =
    (\<Sum>j<length shs. GF (share_y (shs ! j) ! i) * GF (weight shs j))"
  by (simp add: combine_byte_def GF_foldl_xor gf_hom atLeast0LessThan)

lemma check_shares_None:
  "check_shares len shs = None \<longleftrightarrow> (\<forall>s \<in> set shs. share_x s \<noteq> 0 \<and> length (share_y s) = len)"
  by (induction shs) auto

lemma first_duplicate_None: "first_duplicate shs = None \<longleftrightarrow> distinct (map share_x shs)"
  by (induction shs) auto

lemma combine_ok:
  assumes "shs \<noteq> []" "distinct (map share_x shs)"
    "\<And>s. s \<in> set shs \<Longrightarrow> share_x s \<noteq> 0 \<and> length (share_y s) = len"
  shows "combine shs = Inr (map (combine_byte shs (map (weight shs) [0..<length shs])) [0..<len])"
proof -
  have "check_shares len shs = None" "first_duplicate shs = None"
    using assms by (simp_all add: check_shares_None first_duplicate_None)
  then show ?thesis using assms(1,3) by (cases shs) (simp_all add: combine_def Let_def)
qed

lemma unat_u8 [simp]: "x \<le> 255 \<Longrightarrow> unat (word_of_nat x :: u8) = x"
  by (simp add: unat_of_nat)

lemma word_of_nat_neq_0: "0 < x \<Longrightarrow> x \<le> 255 \<Longrightarrow> (word_of_nat x :: u8) \<noteq> 0"
  using unat_u8 [of x] by fastforce

lemma split_share:
  assumes fill: "\<And>i n. length (fill i n) = n"
    and S: "shamir_split fill secret t n = Inr S" and s: "s \<in> set (shares S)"
  shows "share_x s \<noteq> 0" "length (share_y s) = length secret"
    "i < length secret \<Longrightarrow> share_y s ! i = gf_eval (split_coeffs fill t secret i) (share_x s)"
proof -
  obtain x where x: "x \<in> {1..n}" "s = share_at fill t secret x"
    using s unfolding shares_of_split [OF fill S] by (rule imageE)
  have "n \<le> 255" using S unfolding shamir_split_Inr [OF fill] by simp
  with x show "share_x s \<noteq> 0" by (simp add: share_at_def word_of_nat_neq_0)
  show "length (share_y s) = length secret" by (simp add: x share_at_def)
  show "i < length secret \<Longrightarrow> share_y s ! i = gf_eval (split_coeffs fill t secret i) (share_x s)"
    by (simp add: x share_at_def)
qed

text \<open>Shares of polynomials of degree below the number of shares combine to the constant
  coefficients.\<close>

lemma combine_interpolates:
  assumes "shs \<noteq> []" and dist: "distinct (map share_x shs)"
    and sh: "\<And>s. s \<in> set shs \<Longrightarrow> share_x s \<noteq> 0 \<and> length (share_y s) = len"
    and poly: "\<And>s i. s \<in> set shs \<Longrightarrow> i < len \<Longrightarrow> share_y s ! i = gf_eval (c i # cs i) (share_x s)"
    and deg: "\<And>i. Suc (length (cs i)) \<le> length shs"
  shows "combine shs = Inr (map c [0..<len])"
proof -
  have "combine_byte shs (map (weight shs) [0..<length shs]) i = c i" if i: "i < len" for i
  proof -
    let ?f = "horner (map GF (c i # cs i))"
    have "GF (combine_byte shs (map (weight shs) [0..<length shs]) i) =
        (\<Sum>j<length shs. ?f (GF (share_x (shs ! j))) * GF (weight shs j))"
      unfolding GF_combine_byte
      by (rule sum.cong) (auto simp: poly [OF nth_mem i] GF_eval simp del: horner.simps)
    also have "\<dots> = ?f 0"
      using polyfun_horner [of "map GF (c i # cs i)"] deg [of i]
      by (intro interpolate_shares [OF dist]) (simp_all del: horner.simps)
    also have "\<dots> = GF (c i)" by simp
    finally show ?thesis by (simp add: GF_eq_iff)
  qed
  then show ?thesis
    using combine_ok [OF assms(1) dist sh] by simp
qed

lemma combine_shares_of_split:
  assumes fill: "\<And>i n. length (fill i n) = n"
    and S: "shamir_split fill secret t n = Inr S"
    and sub: "set shs \<subseteq> set (shares S)" and dist: "distinct (map share_x shs)"
    and enough: "t \<le> length shs"
  shows "combine shs = Inr secret"
proof -
  have t: "0 < t" using S shamir_split_Inr [OF fill] by simp
  note sh = split_share [OF fill S subsetD [OF sub]]
  have "combine shs = Inr (map ((!) secret) [0..<length secret])"
    by (rule combine_interpolates [OF _ dist, where cs = "\<lambda>i. fill i (t - 1)"])
      (use enough t sh fill in \<open>auto simp: split_coeffs_def\<close>)
  then show ?thesis by (simp add: map_nth)
qed

section \<open>Fewer shares than the threshold say nothing about the secret\<close>

lemma card_u8_nonzero: "card (UNIV - {0 :: u8}) = 255"
  by (simp add: card_word card_Diff_singleton)

lemma card_gf256_nonzero: "card (UNIV - {0 :: gf256}) = 255"
  by (subst card_Diff_singleton) (simp_all add: card_gf256)

lemma horner_zero_coeffs:
  "length es \<le> 255 \<Longrightarrow> (\<And>x. x \<noteq> 0 \<Longrightarrow> horner es x = 0) \<Longrightarrow> set es \<subseteq> {0 :: gf256}"
proof (induction es)
  case (Cons e es)
  have all: "horner (e # es) x = 0" for x
  proof (rule horner_roots)
    show "finite (UNIV - {0 :: gf256})" by simp
    show "length (e # es) \<le> card (UNIV - {0 :: gf256})"
      using Cons.prems(1) unfolding card_gf256_nonzero .
    show "horner (e # es) a = 0" if "a \<in> UNIV - {0}" for a
      using that by (intro Cons.prems(2)) simp
  qed
  have e: "e = 0" using all [of 0] by simp
  have es: "horner es x = 0" if "x \<noteq> 0" for x
    using all [of x] that e by simp
  have "set es \<subseteq> {0}"
    using Cons.prems(1) by (intro Cons.IH es) simp_all
  with e show ?case by simp
qed simp

lemma eval_inj:
  assumes xs: "distinct xs" "0 \<notin> set xs" and len: "length cs = length xs" "length ds = length xs"
    and eq: "map (gf_eval (s # cs)) xs = map (gf_eval (s # ds)) xs"
  shows "cs = ds"
proof -
  let ?es = "map2 (\<lambda>c d. GF c - GF d) cs ds"
  have horner_es: "horner ?es z = horner (map GF cs) z - horner (map GF ds) z" for z
    using len(1)[folded len(2)]
  proof (induction cs ds rule: list_induct2)
    case (Cons c cs d ds)
    then show ?case by (simp add: left_diff_distrib)
  qed simp
  have "card (set xs) \<le> card (UNIV - {0 :: u8})" using xs(2) by (intro card_mono) auto
  then have short: "length xs \<le> 255" using xs(1) by (simp add: distinct_card card_u8_nonzero)
  have "horner ?es z = 0" for z
  proof (rule horner_roots [of "GF ` set xs"])
    show "length ?es \<le> card (GF ` set xs)"
      using xs(1) len by (simp add: card_image distinct_card inj_on_def GF_eq_iff)
    fix a assume "a \<in> GF ` set xs"
    then obtain x where x: "x \<in> set xs" "a = GF x" by blast
    then have "GF x \<noteq> 0" using xs(2) by (auto simp: zero_GF GF_eq_iff)
    moreover have "GF (gf_eval (s # cs) x) = GF (gf_eval (s # ds) x)" using eq x by auto
    ultimately show "horner ?es a = 0" by (simp add: GF_eval horner_es x(2))
  qed simp
  then have "set ?es \<subseteq> {0}" using short len by (intro horner_zero_coeffs) simp_all
  then have "?es ! i = 0" if "i < length xs" for i
    using nth_mem [of i ?es] len that by auto
  then have "cs ! i = ds ! i" if "i < length xs" for i
    using that len by (simp add: GF_eq_iff)
  then show ?thesis using len by (intro nth_equalityI) simp_all
qed

lemma eval_unique_coeffs:
  assumes "distinct xs" "0 \<notin> set xs" "length ys = length xs"
  shows "\<exists>!cs. length cs = length xs \<and> map (gf_eval (s # cs)) xs = ys"
proof -
  let ?L = "{cs :: bytes. length cs = length xs}" and ?F = "\<lambda>cs. map (gf_eval (s # cs)) xs"
  have "inj_on ?F ?L"
  proof (rule inj_onI)
    fix cs ds assume "cs \<in> ?L" "ds \<in> ?L" and eq: "?F cs = ?F ds"
    then have "length cs = length xs" "length ds = length xs" by simp_all
    then show "cs = ds" by (rule eval_inj [OF assms(1,2) _ _ eq])
  qed
  moreover have "finite ?L" using finite_lists_length_eq [of "UNIV :: u8 set"] by simp
  moreover have "?F ` ?L \<subseteq> ?L" by auto
  ultimately have "?F ` ?L = ?L" by (intro endo_inj_surj)
  moreover have "ys \<in> ?L" using assms(3) by simp
  ultimately have "ys \<in> ?F ` ?L" by (simp only:)
  then obtain cs where "ys = ?F cs" "cs \<in> ?L" by (rule imageE)
  then have cs: "length cs = length xs" "?F cs = ys" by simp_all
  show ?thesis
  proof (rule ex1I [of _ cs])
    show "length cs = length xs \<and> ?F cs = ys" using cs by simp
    show "ds = cs" if "length ds = length xs \<and> ?F ds = ys" for ds
      using that cs by (intro eval_inj [OF assms(1,2), of ds cs s]) (simp_all only:)
  qed
qed

lemma extend_points:
  assumes "distinct xs" "0 \<notin> set xs" "length xs \<le> k" "k \<le> 255"
  obtains zs :: bytes where "distinct zs" "0 \<notin> set zs" "length zs = k" "set xs \<subseteq> set zs"
proof -
  obtain B where "set xs \<subseteq> B" "B \<subseteq> UNIV - {0 :: u8}" "card B = k"
    using exists_subset_between [of "set xs" k "UNIV - {0 :: u8}"] assms card_u8_nonzero
    by (auto simp: distinct_card)
  moreover obtain zs where "set zs = B" "distinct zs"
    using finite_distinct_list [of B] by auto
  ultimately show ?thesis using that [of zs] by (auto simp: distinct_card)
qed

lemma split_hides_aux:
  assumes fill: "\<And>i n. length (fill i n) = n"
    and S: "shamir_split fill secret t n = Inr S"
    and obs: "set obs \<subseteq> set (shares S)" "distinct (map share_x obs)" "length obs < t"
    and secret': "length secret' = length secret"
  shows "\<exists>fill' S'. (\<forall>i n. length (fill' i n) = n) \<and>
    shamir_split fill' secret' t n = Inr S' \<and> set obs \<subseteq> set (shares S')"
proof -
  have t: "0 < t" "t \<le> n" "n \<le> 255" using S shamir_split_Inr [OF fill] by auto
  have "0 \<notin> set (map share_x obs)" using split_share(1) [OF fill S] obs(1) by force
  then obtain zs :: bytes where zs: "distinct zs" "0 \<notin> set zs" "length zs = t - 1"
    "set (map share_x obs) \<subseteq> set zs"
    by (rule extend_points [OF obs(2), of "t - 1"]) (use obs(3) t in auto)
  have ex: "\<exists>!cs. length cs = t - 1 \<and>
      map (gf_eval (secret' ! i # cs)) zs = map (gf_eval (split_coeffs fill t secret i)) zs" for i
    using eval_unique_coeffs [OF zs(1,2) length_map] unfolding zs(3) .
  define G where "G i = (THE cs. length cs = t - 1 \<and>
    map (gf_eval (secret' ! i # cs)) zs = map (gf_eval (split_coeffs fill t secret i)) zs)" for i
  note G = theI' [OF ex, folded G_def]
  define fill' where "fill' i m = (if m = t - 1 then G i else replicate m 0)" for i m
  have fill': "length (fill' i m) = m" for i m using G [of i] by (simp add: fill'_def)
  have agree: "gf_eval (split_coeffs fill' t secret' i) x = gf_eval (split_coeffs fill t secret i) x"
    if "x \<in> set zs" for i x
  proof -
    have "split_coeffs fill' t secret' i = secret' ! i # G i"
      by (simp add: split_coeffs_def fill'_def)
    then show ?thesis using conjunct2 [OF G [of i]] that by (simp only: map_eq_conv)
  qed
  obtain S' where S': "shamir_split fill' secret' t n = Inr S'"
    using t by (simp add: shamir_split_def Let_def)
  have "s \<in> set (shares S')" if s: "s \<in> set obs" for s
  proof -
    have "s \<in> set (shares S)" using s obs(1) by auto
    then obtain x where x: "x \<in> {1..n}" and sx: "s = share_at fill t secret x"
      unfolding shares_of_split [OF fill S] by (rule imageE)
    have "share_x s \<in> set zs" using s zs(4) by auto
    then have "word_of_nat x \<in> set zs" unfolding sx by (simp add: share_at_def)
    then have "s = share_at fill' t secret' x"
      unfolding sx share_at_def secret' by (simp only: agree)
    then show ?thesis using x unfolding shares_of_split [OF fill' S'] by (rule image_eqI)
  qed
  then show ?thesis using fill' S' by blast
qed

section \<open>Properties\<close>

text \<open>Multiplying a nonzero byte by the inverse that \<open>gf_inv\<close> computes (a power to the
  254) gives one, for all 255 nonzero bytes.\<close>

theorem gf_inverse_correct: "a \<noteq> 0 \<Longrightarrow> gf_mul a (gf_inv a) = 1"
  using right_inverse [of "GF a"] by (simp add: GF_eq_iff zero_GF one_GF flip: GF_mult GF_inverse_eq)

theorem gf_inverse_correct_witness: "(0x53 :: u8) \<noteq> 0 \<and> gf_mul 0x53 (gf_inv 0x53) = 1"
  using gf_inverse_correct [of "0x53"] by simp

text \<open>C6. Whatever the random coefficients, any list of at least \<open>threshold\<close> shares with
  distinct indices, taken from a successful split, combines to exactly the secret.\<close>

theorem combine_split:
  assumes "\<And>i n. length (fill i n) = n"
    and "shamir_split fill secret t n = Inr S"
    and "set shs \<subseteq> set (shares S)" and "distinct (map share_x shs)"
    and "t \<le> length shs"
  shows "combine shs = Inr secret"
  using assms by (rule combine_shares_of_split)

lemma example_points:
  "[Suc 0..<4] = [1, 2, 3]" "[0..<Suc (Suc 0)] = [0, 1]"
  by (simp_all add: upt_rec)

lemma example_evals: "gf_eval [7, 5] 1 = 2" "gf_eval [9, 5] 1 = 12"
  "gf_eval [7, 5] 2 = 13" "gf_eval [9, 5] 2 = 3"
  "gf_eval [7, 5] 3 = 8" "gf_eval [9, 5] 3 = 6"
  by (simp_all add: gf_eval_def gf_mul_eval)

lemma example_split:
  "shamir_split (\<lambda>i n. replicate n 5) [7, 9] 2 3 =
     Inr \<lparr>threshold = 2, total = 3,
          shares = [\<lparr>share_x = 1, share_y = [2, 12]\<rparr>, \<lparr>share_x = 2, share_y = [13, 3]\<rparr>,
                    \<lparr>share_x = 3, share_y = [8, 6]\<rparr>]\<rparr>"
  by (subst shamir_split_Inr) (simp_all add: example_points share_at_def split_coeffs_def example_evals del: upt_Suc)

theorem combine_split_witness:
  "combine [\<lparr>share_x = 3, share_y = [8, 6]\<rparr>, \<lparr>share_x = 1, share_y = [2, 12]\<rparr>] = Inr [7, 9]"
  by (rule combine_split [OF _ example_split]) auto

text \<open>C9. Perfect secrecy below the threshold: for every other secret of the same length there are
  random coefficients under which the split of that secret contains exactly the observed
  shares, as long as fewer than \<open>threshold\<close> are observed.\<close>

theorem split_hides:
  assumes "\<And>i n. length (fill i n) = n"
    and "shamir_split fill secret t n = Inr S"
    and "set obs \<subseteq> set (shares S)" and "distinct (map share_x obs)" and "length obs < t"
    and "length secret' = length secret"
  shows "\<exists>fill' S'. (\<forall>i n. length (fill' i n) = n) \<and>
    shamir_split fill' secret' t n = Inr S' \<and> set obs \<subseteq> set (shares S')"
  using assms by (rule split_hides_aux)

theorem split_hides_witness:
  "\<exists>fill' S'. (\<forall>i n. length (fill' i n) = n) \<and>
    shamir_split fill' [200, 1] 2 3 = Inr S' \<and>
    set [\<lparr>share_x = 1, share_y = [2, 12]\<rparr>] \<subseteq> set (shares S')"
  by (rule split_hides [OF _ example_split]) auto

text \<open>C17. \<open>combine\<close> succeeds exactly on a nonempty list of shares with pairwise distinct nonzero
  indices and equal lengths; every other input is an error.\<close>

theorem combine_accepts_iff:
  "(\<exists>out. combine shs = Inr out) \<longleftrightarrow>
     shs \<noteq> [] \<and> (\<forall>s \<in> set shs. share_x s \<noteq> 0) \<and>
     (\<forall>s \<in> set shs. length (share_y s) = length (share_y (hd shs))) \<and>
     distinct (map share_x shs)"
proof (cases shs)
  case Nil
  then show ?thesis by (simp add: combine_def)
next
  case (Cons s ss)
  have "(\<exists>out. combine shs = Inr out) \<longleftrightarrow>
      check_shares (length (share_y s)) shs = None \<and> first_duplicate shs = None"
    by (simp add: combine_def Cons Let_def del: check_shares.simps first_duplicate.simps
        split: option.splits)
  then show ?thesis
    unfolding check_shares_None first_duplicate_None using Cons by auto
qed

theorem combine_accepts_iff_witness:
  "(\<exists>out. combine [\<lparr>share_x = 3, share_y = [8, 6]\<rparr>, \<lparr>share_x = 1, share_y = [2, 12]\<rparr>] = Inr out) \<and>
   \<not> (\<exists>out. combine [\<lparr>share_x = 3, share_y = [8, 6]\<rparr>, \<lparr>share_x = 3, share_y = [2, 12]\<rparr>] = Inr out)"
  by (simp add: combine_accepts_iff)

text \<open>C18. The reconstruction driver, over any survivors of a split with distinct indices: with
  fewer than \<open>threshold\<close> of them it reports \<open>NotEnoughShares\<close> with both counts; otherwise it
  returns the secret in a locked buffer, unless the page lock itself fails.\<close>

theorem reconstruct_survivors:
  assumes "\<And>i n. length (fill i n) = n"
    and "shamir_split fill secret t n = Inr S"
    and "set shs \<subseteq> set (shares S)" and "distinct (map share_x shs)"
  shows "reconstruct mlock t (length secret) (map ShareHolder_new shs) =
    (if length shs < t then Inl (NotEnoughShares (length shs) t)
     else case mlock secret of
         None \<Rightarrow> Inr \<lparr>buf = secret, locked = True\<rparr>
       | Some e \<Rightarrow> Inl (Mlock e))"
proof (cases "length shs < t")
  case True
  then show ?thesis by (simp add: reconstruct_def)
next
  case False
  have "map share (take t (map ShareHolder_new shs)) = take t shs"
    by (simp add: take_map comp_def ShareHolder_new_def)
  moreover have "combine (take t shs) = Inr secret"
    using False assms(3,4) set_take_subset [of t shs]
    by (intro combine_shares_of_split [OF assms(1,2)]) (auto simp: take_map [symmetric])
  ultimately show ?thesis
    using False by (simp add: reconstruct_def ProtectedKey_new_def split: option.splits)
qed

theorem reconstruct_survivors_witness:
  "reconstruct (\<lambda>_. None) 2 (length [7, 9 :: u8])
     (map ShareHolder_new [\<lparr>share_x = 2, share_y = [13, 3]\<rparr>, \<lparr>share_x = 3, share_y = [8, 6]\<rparr>]) =
     Inr \<lparr>buf = [7, 9], locked = True\<rparr>"
  by (subst reconstruct_survivors [OF _ example_split]) auto

end
