(* ===== verification/Tee.thy ===== *)
theory Tee
  imports Shamir Composite
begin

text \<open>
  \<open>crates/ferro-tee\<close>: measurements and their allowlist (\<open>measurement.rs\<close>), attestation reports
  (\<open>attest.rs\<close>), measurement-bound sealing (\<open>seal.rs\<close>) and the attested ML-KEM handshake
  (\<open>psk.rs\<close>). SHA3, HKDF, Ed25519, ChaCha20-Poly1305, ML-KEM-768, CBOR and the constant-time
  comparison belong to other crates and are the fields of \<open>tee_prims\<close>; randomness is an
  argument of the operation that draws it. The trait \<open>Attestor\<close> is the record \<open>attestor\<close>, its
  contract the locale \<open>attestor_contract\<close>, and the implementation \<open>SoftwareAttestor\<close> its
  interpretation \<open>software\<close>.
\<close>

section \<open>Data\<close>

type_synonym measurement = bytes

datatype AttestorKind = SevSnp | Tdx | Software

record report_body =
  rb_kind :: AttestorKind
  rb_measurement :: measurement
  rb_nonce :: bytes
  rb_bound_data :: bytes
  rb_firmware_version :: u32
  rb_tcb_svn :: u64

record report =
  rep_body :: report_body
  rep_signer_pk :: bytes
  rep_signature :: bytes
  rep_vendor_blob :: bytes

record tee_prims =
  tee_sha3_384 :: "bytes \<Rightarrow> bytes"
  tee_hkdf :: "bytes \<Rightarrow> bytes \<Rightarrow> bytes \<Rightarrow> nat \<Rightarrow> bytes"
  tee_ed_pk :: "bytes \<Rightarrow> bytes"
  tee_ed_sign :: "bytes \<Rightarrow> bytes \<Rightarrow> bytes"
  tee_ed_from_bytes :: "bytes \<Rightarrow> bytes option"
  tee_ed_verify :: "bytes \<Rightarrow> bytes \<Rightarrow> bytes \<Rightarrow> bool"
  tee_ct_eq :: "bytes \<Rightarrow> bytes \<Rightarrow> u8"
  tee_body_cbor :: "report_body \<Rightarrow> bytes"
  tee_encrypt :: "bytes \<Rightarrow> bytes \<Rightarrow> bytes \<Rightarrow> bytes \<Rightarrow> bytes option"
  tee_decrypt :: "bytes \<Rightarrow> bytes \<Rightarrow> bytes \<Rightarrow> bytes \<Rightarrow> bytes option"
  tee_kem_keypair :: "bytes \<Rightarrow> bytes \<times> bytes"
  tee_kem_ek :: "bytes \<Rightarrow> bytes option"
  tee_kem_encaps :: "bytes \<Rightarrow> bytes \<Rightarrow> bytes \<times> bytes"
  tee_kem_ct :: "bytes \<Rightarrow> bytes option"
  tee_kem_decaps :: "bytes \<Rightarrow> bytes \<Rightarrow> bytes"

section \<open>Measurements and the allowlist\<close>

definition MEASUREMENT_LEN :: nat where
  "MEASUREMENT_LEN = 48"

definition measurement_visit_bytes :: "bytes \<Rightarrow> (string, measurement) result" where
  "measurement_visit_bytes v =
     (if length v \<noteq> MEASUREMENT_LEN then Inl ''measurement must be 48 bytes'' else Inr v)"

text \<open>
  \<open>visit_seq\<close>: the argument lists what \<open>next_element::<u8>()\<close> returns, up to the end of the
  sequence; the accumulator is \<open>buf\<close>.
\<close>

fun measurement_visit_seq :: "(string, u8) result list \<Rightarrow> bytes \<Rightarrow> (string, measurement) result" where
  "measurement_visit_seq [] acc = measurement_visit_bytes acc"
| "measurement_visit_seq (Inl e # es) acc = Inl e"
| "measurement_visit_seq (Inr b # es) acc = measurement_visit_seq es (acc @ [b])"

definition measurement_eq :: "tee_prims \<Rightarrow> measurement \<Rightarrow> measurement \<Rightarrow> bool" where
  "measurement_eq P a b \<longleftrightarrow> tee_ct_eq P a b \<noteq> 0"

record allowlist =
  entries :: "measurement list"

definition Allowlist_new :: "measurement list \<Rightarrow> allowlist" where
  "Allowlist_new ms = \<lparr>entries = ms\<rparr>"

definition Allowlist_push :: "allowlist \<Rightarrow> measurement \<Rightarrow> allowlist" where
  "Allowlist_push al m = al\<lparr>entries := entries al @ [m]\<rparr>"

definition Allowlist_len :: "allowlist \<Rightarrow> nat" where
  "Allowlist_len al = length (entries al)"

definition Allowlist_is_empty :: "allowlist \<Rightarrow> bool" where
  "Allowlist_is_empty al \<longleftrightarrow> entries al = []"

definition Allowlist_contains :: "tee_prims \<Rightarrow> allowlist \<Rightarrow> measurement \<Rightarrow> bool" where
  "Allowlist_contains P al m \<longleftrightarrow> foldl (\<lambda>acc entry. acc OR tee_ct_eq P entry m) 0 (entries al) \<noteq> 0"

section \<open>Attestation reports\<close>

definition REPORT_DOMAIN :: bytes where
  "REPORT_DOMAIN = str_bytes ''ferro-tee-report-v1''"

definition report_input :: "tee_prims \<Rightarrow> report_body \<Rightarrow> bytes" where
  "report_input P body =
     (let bs = tee_body_cbor P body in REPORT_DOMAIN @ be 8 (length bs) @ bs)"

definition report_digest :: "tee_prims \<Rightarrow> report_body \<Rightarrow> bytes" where
  "report_digest P body = tee_sha3_384 P (report_input P body)"

record attestor =
  at_kind :: AttestorKind
  at_measurement :: measurement
  at_produce :: "bytes \<Rightarrow> bytes \<Rightarrow> report"
  at_signer_pk :: bytes
  at_sealing_root :: bytes

record peer_roots =
  root_keys :: "bytes list"

definition PeerRoots_new :: "bytes list \<Rightarrow> peer_roots" where
  "PeerRoots_new pks = \<lparr>root_keys = pks\<rparr>"

definition PeerRoots_push :: "peer_roots \<Rightarrow> bytes \<Rightarrow> peer_roots" where
  "PeerRoots_push roots pk = roots\<lparr>root_keys := root_keys roots @ [pk]\<rparr>"

definition accepts :: "peer_roots \<Rightarrow> bytes \<Rightarrow> bool" where
  "accepts roots pk \<longleftrightarrow> list_ex (\<lambda>k. k = pk) (root_keys roots)"

definition verify_report ::
  "tee_prims \<Rightarrow> report \<Rightarrow> bytes \<Rightarrow> bytes \<Rightarrow> peer_roots \<Rightarrow> (TeeError, measurement) result" where
  "verify_report P rep expected_nonce expected_bound roots =
     (if \<not> accepts roots (rep_signer_pk rep) then Inl BadReportSignature
      else if rb_nonce (rep_body rep) \<noteq> expected_nonce then Inl (BadReport ''nonce mismatch'')
      else if rb_bound_data (rep_body rep) \<noteq> expected_bound then Inl (BadReport ''bound_data mismatch'')
      else if length (rb_measurement (rep_body rep)) \<noteq> MEASUREMENT_LEN
      then Inl (BadReport ''measurement length'')
      else and_then (ok_or BadReportSignature (tee_ed_from_bytes P (rep_signer_pk rep))) (\<lambda>vk.
        if length (rep_signature rep) \<noteq> 64 then Inl BadReportSignature
        else if \<not> tee_ed_verify P vk (report_digest P (rep_body rep)) (rep_signature rep)
        then Inl BadReportSignature
        else Inr (rb_measurement (rep_body rep))))"

record software_attestor =
  sa_sk :: bytes
  sa_pk :: bytes
  sa_measurement :: measurement
  sa_sealing_root :: bytes
  sa_firmware_version :: u32
  sa_tcb_svn :: u64
  sa_kind :: AttestorKind

text \<open>\<open>sk\<close> is what \<open>SigningKey::generate\<close> draws.\<close>

definition generate_as ::
  "tee_prims \<Rightarrow> bytes \<Rightarrow> AttestorKind \<Rightarrow> measurement \<Rightarrow> software_attestor" where
  "generate_as P sk kind m =
     (let d = tee_sha3_384 P (str_bytes ''ferro-tee-sealing-root-v1'' @ sk @ m)
      in \<lparr>sa_sk = sk, sa_pk = tee_ed_pk P sk, sa_measurement = m, sa_sealing_root = take 32 d,
          sa_firmware_version = 0x01020304, sa_tcb_svn = 1, sa_kind = kind\<rparr>)"

definition generate :: "tee_prims \<Rightarrow> bytes \<Rightarrow> measurement \<Rightarrow> software_attestor" where
  "generate P sk m = generate_as P sk Software m"

definition software_produce :: "tee_prims \<Rightarrow> software_attestor \<Rightarrow> bytes \<Rightarrow> bytes \<Rightarrow> report" where
  "software_produce P sa n bound =
     (let body = \<lparr>rb_kind = sa_kind sa, rb_measurement = sa_measurement sa, rb_nonce = n,
                  rb_bound_data = bound, rb_firmware_version = sa_firmware_version sa,
                  rb_tcb_svn = sa_tcb_svn sa\<rparr>;
          sig = tee_ed_sign P (sa_sk sa) (report_digest P body)
      in \<lparr>rep_body = body, rep_signer_pk = sa_pk sa, rep_signature = sig, rep_vendor_blob = []\<rparr>)"

definition software_ops :: "tee_prims \<Rightarrow> software_attestor \<Rightarrow> attestor" where
  "software_ops P sa =
     \<lparr>at_kind = sa_kind sa, at_measurement = sa_measurement sa, at_produce = software_produce P sa,
      at_signer_pk = sa_pk sa, at_sealing_root = sa_sealing_root sa\<rparr>"

section \<open>Sealing\<close>

record sealed_envelope =
  env_measurement :: measurement
  env_nonce :: bytes
  env_aad :: bytes
  env_ciphertext :: bytes

definition SEAL_INFO :: bytes where
  "SEAL_INFO = str_bytes ''ferro-tee-seal-v1''"

definition derive_key :: "tee_prims \<Rightarrow> bytes \<Rightarrow> measurement \<Rightarrow> bytes \<Rightarrow> bytes" where
  "derive_key P root m aad =
     tee_hkdf P m root (SEAL_INFO @ be 8 (length aad) @ aad) 32"

definition seal ::
  "tee_prims \<Rightarrow> bytes \<Rightarrow> attestor \<Rightarrow> bytes \<Rightarrow> bytes \<Rightarrow> (TeeError, sealed_envelope) result" where
  "seal P nonce_bytes A aad plaintext =
     (let m = at_measurement A;
          key = derive_key P (at_sealing_root A) m aad
      in and_then (ok_or Seal (tee_encrypt P key nonce_bytes plaintext aad)) (\<lambda>ct.
         Inr \<lparr>env_measurement = m, env_nonce = nonce_bytes, env_aad = aad, env_ciphertext = ct\<rparr>))"

definition unseal :: "tee_prims \<Rightarrow> attestor \<Rightarrow> sealed_envelope \<Rightarrow> (TeeError, bytes) result" where
  "unseal P A env =
     (if \<not> measurement_eq P (env_measurement env) (at_measurement A) then Inl Seal
      else
        let key = derive_key P (at_sealing_root A) (env_measurement env) (env_aad env)
        in ok_or Seal (tee_decrypt P key (env_nonce env) (env_ciphertext env) (env_aad env)))"

section \<open>The attested handshake\<close>

definition PSK_LEN :: nat where
  "PSK_LEN = 32"

record msg1 =
  m1_nonce_i :: bytes
  m1_ek_bytes :: bytes
  m1_report_i :: report

record msg2 =
  m2_nonce_r :: bytes
  m2_ct_bytes :: bytes
  m2_report_r :: report

record session =
  psk :: bytes
  peer_measurement :: measurement

definition psk_bind_input :: "bytes \<Rightarrow> bytes list \<Rightarrow> bytes" where
  "psk_bind_input label parts =
     str_bytes ''ferro-tee-psk-bind-v1'' @ label @ concat (map (\<lambda>p. be 8 (length p) @ p) parts)"

definition psk_bind :: "tee_prims \<Rightarrow> bytes \<Rightarrow> bytes list \<Rightarrow> bytes" where
  "psk_bind P label parts = tee_sha3_384 P (psk_bind_input label parts)"

definition derive_psk :: "tee_prims \<Rightarrow> bytes \<Rightarrow> bytes \<Rightarrow> bytes" where
  "derive_psk P ss transcript = tee_hkdf P transcript ss (str_bytes ''ferro-tee-psk-v1'') PSK_LEN"

definition psk_transcript :: "tee_prims \<Rightarrow> bytes \<Rightarrow> bytes \<Rightarrow> bytes \<Rightarrow> bytes \<Rightarrow> bytes" where
  "psk_transcript P ni nr ek ct =
     tee_sha3_384 P (str_bytes ''ferro-tee-psk-transcript-v1'' @ ni @ nr @ ek @ ct)"

record initiator =
  in_dk :: bytes
  in_ek_bytes :: bytes
  in_nonce_i :: bytes
  in_nonce_r_offered :: bytes

definition initiator_start ::
  "tee_prims \<Rightarrow> bytes \<Rightarrow> attestor \<Rightarrow> bytes \<Rightarrow> bytes \<Rightarrow> initiator \<times> msg1" where
  "initiator_start P rnd A ni nr =
     (let (dk, ek) = tee_kem_keypair P rnd;
          bound = psk_bind P (str_bytes ''initiator'') [nr, ek];
          rep = at_produce A nr bound
      in (\<lparr>in_dk = dk, in_ek_bytes = ek, in_nonce_i = ni, in_nonce_r_offered = nr\<rparr>,
          \<lparr>m1_nonce_i = ni, m1_ek_bytes = ek, m1_report_i = rep\<rparr>))"

definition initiator_finish ::
  "tee_prims \<Rightarrow> initiator \<Rightarrow> msg2 \<Rightarrow> peer_roots \<Rightarrow> allowlist \<Rightarrow> (TeeError, session) result" where
  "initiator_finish P st m2 roots al =
     (if m2_nonce_r m2 \<noteq> in_nonce_r_offered st then Inl PskTranscript
      else
        let bound = psk_bind P (str_bytes ''responder'')
                      [in_nonce_i st, in_ek_bytes st, m2_ct_bytes m2]
        in and_then (verify_report P (m2_report_r m2) (in_nonce_i st) bound roots) (\<lambda>peer.
           if \<not> Allowlist_contains P al peer then Inl MeasurementNotAllowed
           else and_then (ok_or MlKem (tee_kem_ct P (m2_ct_bytes m2))) (\<lambda>ct.
             let ss = tee_kem_decaps P (in_dk st) ct;
                 transcript = psk_transcript P (in_nonce_i st) (m2_nonce_r m2) (in_ek_bytes st)
                                (m2_ct_bytes m2)
             in Inr \<lparr>psk = derive_psk P ss transcript, peer_measurement = peer\<rparr>)))"

definition respond ::
  "tee_prims \<Rightarrow> bytes \<Rightarrow> attestor \<Rightarrow> msg1 \<Rightarrow> bytes \<Rightarrow> peer_roots \<Rightarrow> allowlist
   \<Rightarrow> (TeeError, msg2 \<times> session) result" where
  "respond P rnd A m1 nr roots al =
     (let bound = psk_bind P (str_bytes ''initiator'') [nr, m1_ek_bytes m1]
      in and_then (verify_report P (m1_report_i m1) nr bound roots) (\<lambda>peer.
         if \<not> Allowlist_contains P al peer then Inl MeasurementNotAllowed
         else and_then (ok_or MlKem (tee_kem_ek P (m1_ek_bytes m1))) (\<lambda>ek.
           let (ct, ss) = tee_kem_encaps P ek rnd;
               bound_r = psk_bind P (str_bytes ''responder'') [m1_nonce_i m1, m1_ek_bytes m1, ct];
               rep = at_produce A (m1_nonce_i m1) bound_r;
               transcript = psk_transcript P (m1_nonce_i m1) nr (m1_ek_bytes m1) ct
           in Inr (\<lparr>m2_nonce_r = nr, m2_ct_bytes = ct, m2_report_r = rep\<rparr>,
                   \<lparr>psk = derive_psk P ss transcript, peer_measurement = peer\<rparr>))))"

section \<open>What the primitives promise\<close>

definition tee_prims_ok :: "tee_prims \<Rightarrow> bool" where
  "tee_prims_ok P \<longleftrightarrow>
     (\<forall>a b. tee_ct_eq P a b = (if a = b then 1 else 0)) \<and>
     (\<forall>sk. tee_ed_from_bytes P (tee_ed_pk P sk) = Some (tee_ed_pk P sk)) \<and>
     (\<forall>sk d. length (tee_ed_sign P sk d) = 64 \<and>
        tee_ed_verify P (tee_ed_pk P sk) d (tee_ed_sign P sk d)) \<and>
     (\<forall>k n m a c. tee_encrypt P k n m a = Some c \<longrightarrow> tee_decrypt P k n c a = Some m) \<and>
     (\<forall>s dk ek. tee_kem_keypair P s = (dk, ek) \<longrightarrow> tee_kem_ek P ek = Some ek \<and>
        (\<forall>r ct ss. tee_kem_encaps P ek r = (ct, ss) \<longrightarrow>
           tee_kem_ct P ct = Some ct \<and> tee_kem_decaps P dk ct = ss))"

lemma ct_eq_ok: "tee_prims_ok P \<Longrightarrow> tee_ct_eq P a b = (if a = b then 1 else 0)"
  unfolding tee_prims_ok_def by blast

lemma kem_ok:
  assumes "tee_prims_ok P" and "tee_kem_keypair P s = (dk, ek)"
  shows "tee_kem_ek P ek = Some ek"
    and "tee_kem_encaps P ek r = (ct, ss) \<Longrightarrow> tee_kem_ct P ct = Some ct"
    and "tee_kem_encaps P ek r = (ct, ss) \<Longrightarrow> tee_kem_decaps P dk ct = ss"
  using assms unfolding tee_prims_ok_def by blast+

section \<open>Acceptance\<close>

lemma ct_scan:
  assumes "tee_prims_ok P"
  shows "foldl (\<lambda>acc e. acc OR tee_ct_eq P e m) (of_bool b) es = of_bool (b \<or> m \<in> set es)"
proof (induction es arbitrary: b)
  case Nil
  show ?case by simp
next
  case (Cons e es)
  have "(of_bool b :: u8) OR tee_ct_eq P e m = of_bool (b \<or> e = m)"
    by (simp add: ct_eq_ok [OF assms])
  then show ?case
    using Cons.IH [of "b \<or> e = m"] by auto
qed

lemma contains_iff: "tee_prims_ok P \<Longrightarrow> Allowlist_contains P al m \<longleftrightarrow> m \<in> set (entries al)"
  using ct_scan [of P m False "entries al"] by (simp add: Allowlist_contains_def)

lemma accepts_iff: "accepts roots pk \<longleftrightarrow> pk \<in> set (root_keys roots)"
  by (auto simp: accepts_def list_ex_iff)

lemma verify_report_Inr:
  "verify_report P rep n bound roots = Inr m \<longleftrightarrow>
     rep_signer_pk rep \<in> set (root_keys roots) \<and> rb_nonce (rep_body rep) = n \<and>
     rb_bound_data (rep_body rep) = bound \<and> rb_measurement (rep_body rep) = m \<and>
     length m = MEASUREMENT_LEN \<and> length (rep_signature rep) = 64 \<and>
     (\<exists>vk. tee_ed_from_bytes P (rep_signer_pk rep) = Some vk \<and>
        tee_ed_verify P vk (report_digest P (rep_body rep)) (rep_signature rep))"
  by (auto simp: verify_report_def accepts_iff result_simps ok_or_def split: option.splits)

section \<open>The contract of an attestor\<close>

text \<open>
  What the callers of the trait rely on: a report carries the nonce, the bound data and the
  measurement of the attestor, and it passes verification at the attestor's own key.
\<close>

locale attestor_contract =
  fixes P :: tee_prims and A :: attestor
  assumes produce_nonce: "rb_nonce (rep_body (at_produce A n bound)) = n"
    and produce_bound: "rb_bound_data (rep_body (at_produce A n bound)) = bound"
    and produce_measurement: "rb_measurement (rep_body (at_produce A n bound)) = at_measurement A"
    and produce_verifies:
      "tee_prims_ok P \<Longrightarrow> length (at_measurement A) = MEASUREMENT_LEN \<Longrightarrow>
       at_signer_pk A \<in> set (root_keys roots) \<Longrightarrow>
       verify_report P (at_produce A n bound) n bound roots = Inr (at_measurement A)"

interpretation software: attestor_contract P "software_ops P (generate_as P sk kd m)"
  for P sk kd m
proof
  show "verify_report P (at_produce (software_ops P (generate_as P sk kd m)) n bound) n bound roots =
      Inr (at_measurement (software_ops P (generate_as P sk kd m)))"
    if "tee_prims_ok P" and "length (at_measurement (software_ops P (generate_as P sk kd m))) = MEASUREMENT_LEN"
      and "at_signer_pk (software_ops P (generate_as P sk kd m)) \<in> set (root_keys roots)"
    for n bound roots
    unfolding verify_report_Inr using that
    by (simp add: software_ops_def software_produce_def generate_as_def Let_def tee_prims_ok_def)
qed (simp_all add: software_ops_def software_produce_def generate_as_def Let_def)

section \<open>The handshake between two attestors\<close>

locale handshake = i: attestor_contract P A + r: attestor_contract P B
  for P :: tee_prims and A :: attestor and B :: attestor
begin

lemma respond_ok:
  assumes P: "tee_prims_ok P"
    and start: "initiator_start P rnd A ni nr = (st, m1)"
    and A: "length (at_measurement A) = MEASUREMENT_LEN" "at_signer_pk A \<in> set (root_keys roots)"
      "at_measurement A \<in> set (entries al)"
  obtains dk ek ct ss m2 s where "respond P rnd' B m1 nr roots al = Inr (m2, s)"
    and "st = \<lparr>in_dk = dk, in_ek_bytes = ek, in_nonce_i = ni, in_nonce_r_offered = nr\<rparr>"
    and "tee_kem_ct P ct = Some ct" and "tee_kem_decaps P dk ct = ss"
    and "m2 = \<lparr>m2_nonce_r = nr, m2_ct_bytes = ct,
         m2_report_r = at_produce B ni (psk_bind P (str_bytes ''responder'') [ni, ek, ct])\<rparr>"
    and "s = \<lparr>psk = derive_psk P ss (psk_transcript P ni nr ek ct), peer_measurement = at_measurement A\<rparr>"
proof -
  obtain dk ek where kp: "tee_kem_keypair P rnd = (dk, ek)" by fastforce
  obtain ct ss where en: "tee_kem_encaps P ek rnd' = (ct, ss)" by fastforce
  have st: "st = \<lparr>in_dk = dk, in_ek_bytes = ek, in_nonce_i = ni, in_nonce_r_offered = nr\<rparr>"
    and m1: "m1 = \<lparr>m1_nonce_i = ni, m1_ek_bytes = ek,
       m1_report_i = at_produce A nr (psk_bind P (str_bytes ''initiator'') [nr, ek])\<rparr>"
    using start kp by (simp_all add: initiator_start_def Let_def)
  have "respond P rnd' B m1 nr roots al =
      Inr (\<lparr>m2_nonce_r = nr, m2_ct_bytes = ct,
             m2_report_r = at_produce B ni (psk_bind P (str_bytes ''responder'') [ni, ek, ct])\<rparr>,
           \<lparr>psk = derive_psk P ss (psk_transcript P ni nr ek ct), peer_measurement = at_measurement A\<rparr>)"
    unfolding respond_def m1
    by (simp add: i.produce_verifies [OF P A(1,2)] contains_iff [OF P] A(3) kem_ok(1) [OF P kp] en Let_def)
  then show ?thesis
    by (rule that [OF _ st kem_ok(2) [OF P kp en] kem_ok(3) [OF P kp en] refl refl])
qed

lemma agree:
  assumes P: "tee_prims_ok P"
    and start: "initiator_start P rnd A ni nr = (st, m1)"
    and A: "length (at_measurement A) = MEASUREMENT_LEN" "at_signer_pk A \<in> set (root_keys roots)"
      "at_measurement A \<in> set (entries al)"
    and B: "length (at_measurement B) = MEASUREMENT_LEN" "at_signer_pk B \<in> set (root_keys roots')"
      "at_measurement B \<in> set (entries al')"
  shows "\<exists>m2 k. respond P rnd' B m1 nr roots al = Inr (m2, \<lparr>psk = k, peer_measurement = at_measurement A\<rparr>) \<and>
    initiator_finish P st m2 roots' al' = Inr \<lparr>psk = k, peer_measurement = at_measurement B\<rparr>"
proof -
  obtain dk ek ct ss m2 s where r: "respond P rnd' B m1 nr roots al = Inr (m2, s)"
    and st: "st = \<lparr>in_dk = dk, in_ek_bytes = ek, in_nonce_i = ni, in_nonce_r_offered = nr\<rparr>"
    and kem: "tee_kem_ct P ct = Some ct" "tee_kem_decaps P dk ct = ss"
    and m2: "m2 = \<lparr>m2_nonce_r = nr, m2_ct_bytes = ct,
         m2_report_r = at_produce B ni (psk_bind P (str_bytes ''responder'') [ni, ek, ct])\<rparr>"
    and s: "s = \<lparr>psk = derive_psk P ss (psk_transcript P ni nr ek ct), peer_measurement = at_measurement A\<rparr>"
    by (rule respond_ok [OF P start A])
  have "initiator_finish P st m2 roots' al' =
      Inr \<lparr>psk = derive_psk P ss (psk_transcript P ni nr ek ct), peer_measurement = at_measurement B\<rparr>"
    unfolding initiator_finish_def st m2
    by (simp add: r.produce_verifies [OF P B(1,2)] contains_iff [OF P] B(3) kem Let_def)
  with r s show ?thesis by blast
qed

end

interpretation software_pair: handshake P "software_ops P (generate_as P sk kd m)"
    "software_ops P (generate_as P sk' kd' m')"
  for P sk kd m sk' kd' m' ..
section \<open>Runs\<close>

text \<open>
  A run is a list of protocol steps of any number of parties: \<open>Start\<close> is a call of
  \<open>Initiator::start\<close>, \<open>Respond\<close> one of \<open>respond\<close> on whatever message arrived, and \<open>Finish\<close>
  one of \<open>Initiator::finish\<close>.
\<close>

datatype event =
    Start attestor bytes bytes bytes
  | Respond attestor bytes msg1 bytes peer_roots allowlist
  | Finish initiator msg2 peer_roots allowlist

text \<open>The report that a step makes its attestor sign, and the one that it is shown.\<close>

fun event_report :: "tee_prims \<Rightarrow> event \<Rightarrow> report option" where
  "event_report P (Start A rnd ni nr) = Some (m1_report_i (snd (initiator_start P rnd A ni nr)))"
| "event_report P (Respond A rnd m1 nr roots al) =
     (case respond P rnd A m1 nr roots al of Inl _ \<Rightarrow> None | Inr (m2, _) \<Rightarrow> Some (m2_report_r m2))"
| "event_report P (Finish st m2 roots al) = None"

fun event_shown :: "event \<Rightarrow> (report \<times> peer_roots) option" where
  "event_shown (Start A rnd ni nr) = None"
| "event_shown (Respond A rnd m1 nr roots al) = Some (m1_report_i m1, roots)"
| "event_shown (Finish st m2 roots al) = Some (m2_report_r m2, roots)"

fun event_attestor :: "event \<Rightarrow> attestor option" where
  "event_attestor (Start A rnd ni nr) = Some A"
| "event_attestor (Respond A rnd m1 nr roots al) = Some A"
| "event_attestor (Finish st m2 roots al) = None"

text \<open>The calls of \<open>psk_bind\<close> and the report bodies that a step hashes.\<close>

fun event_binds :: "tee_prims \<Rightarrow> event \<Rightarrow> (bytes \<times> bytes list) set" where
  "event_binds P (Start A rnd ni nr) =
     {(str_bytes ''initiator'', [nr, snd (tee_kem_keypair P rnd)])}"
| "event_binds P (Respond A rnd m1 nr roots al) =
     insert (str_bytes ''initiator'', [nr, m1_ek_bytes m1])
       (case respond P rnd A m1 nr roots al of Inl _ \<Rightarrow> {}
        | Inr (m2, _) \<Rightarrow> {(str_bytes ''responder'', [m1_nonce_i m1, m1_ek_bytes m1, m2_ct_bytes m2])})"
| "event_binds P (Finish st m2 roots al) =
     {(str_bytes ''responder'', [in_nonce_i st, in_ek_bytes st, m2_ct_bytes m2])}"

definition event_bodies :: "tee_prims \<Rightarrow> event \<Rightarrow> report_body set" where
  "event_bodies P e =
     (rep_body ` set_option (event_report P e)) \<union> ((rep_body \<circ> fst) ` set_option (event_shown e))"

definition run_hashes :: "tee_prims \<Rightarrow> event set \<Rightarrow> bytes set" where
  "run_hashes P H =
     (\<Union>e\<in>H. (\<lambda>(l, ps). psk_bind_input l ps) ` event_binds P e \<union> report_input P ` event_bodies P e)"

text \<open>
  The assumptions on a run: the digest has no collision among the strings that are hashed, slices
  have a 64-bit length, attestors keep their contract, a report that verifies was signed by a step
  of the run, and no key pair was drawn twice.
\<close>

definition no_forgery :: "tee_prims \<Rightarrow> event set \<Rightarrow> bool" where
  "no_forgery P H \<longleftrightarrow>
     (\<forall>e\<in>H. \<forall>rep roots vk. event_shown e = Some (rep, roots) \<longrightarrow>
        rep_signer_pk rep \<in> set (root_keys roots) \<longrightarrow> tee_ed_from_bytes P (rep_signer_pk rep) = Some vk \<longrightarrow>
        tee_ed_verify P vk (report_digest P (rep_body rep)) (rep_signature rep) \<longrightarrow>
        (\<exists>e'\<in>H. \<exists>rep'. event_report P e' = Some rep' \<and>
           report_digest P (rep_body rep') = report_digest P (rep_body rep)))"

definition fresh_keys :: "tee_prims \<Rightarrow> event set \<Rightarrow> bool" where
  "fresh_keys P H \<longleftrightarrow>
     (\<forall>A rnd ni nr A' rnd' ni' nr'. Start A rnd ni nr \<in> H \<longrightarrow> Start A' rnd' ni' nr' \<in> H \<longrightarrow>
        snd (tee_kem_keypair P rnd) = snd (tee_kem_keypair P rnd') \<longrightarrow>
        Start A rnd ni nr = Start A' rnd' ni' nr')"

definition run_ok :: "tee_prims \<Rightarrow> event set \<Rightarrow> bool" where
  "run_ok P H \<longleftrightarrow>
     inj_on (tee_sha3_384 P) (run_hashes P H) \<and>
     (\<forall>e\<in>H. \<forall>(l, ps)\<in>event_binds P e. \<forall>p\<in>set ps. length p < 2 ^ 64) \<and>
     (\<forall>e\<in>H. \<forall>A. event_attestor e = Some A \<longrightarrow> attestor_contract P A) \<and>
     no_forgery P H \<and> fresh_keys P H"

lemma report_input_inject:
  assumes "inj (tee_body_cbor P)" and "report_input P b = report_input P b'"
  shows "b = b'"
proof -
  have "tee_body_cbor P b = tee_body_cbor P b'"
    using assms(2) by (auto simp: report_input_def Let_def dest!: append_eq_append_conv [THEN iffD1, rotated])
  then show ?thesis
    using assms(1) by (rule injD [rotated])
qed

lemma psk_bind_input_inject:
  assumes "psk_bind_input l ps = psk_bind_input l' qs" and "length l = length l'"
    and "\<forall>p\<in>set ps. length p < 2 ^ 64" and "\<forall>p\<in>set qs. length p < 2 ^ 64"
  shows "l = l' \<and> ps = qs"
proof -
  have "l = l' \<and> length_prefixed ps = length_prefixed qs"
    using assms(1,2) by (simp add: psk_bind_input_def length_prefixed_def)
  then show ?thesis
    using length_prefixed_inject [OF _ assms(3,4)] by blast
qed

lemma run_hashes_bind:
  "e \<in> H \<Longrightarrow> (l, ps) \<in> event_binds P e \<Longrightarrow> psk_bind_input l ps \<in> run_hashes P H"
  unfolding run_hashes_def by force

lemma run_bind_inject:
  assumes run: "run_ok P H" and e: "e \<in> H" "e' \<in> H"
    and b: "(l, ps) \<in> event_binds P e" "(l', qs) \<in> event_binds P e'"
    and eq: "psk_bind P l ps = psk_bind P l' qs" and len: "length l = length l'"
  shows "l = l' \<and> ps = qs"
proof (rule psk_bind_input_inject [OF _ len])
  have "psk_bind_input l ps \<in> run_hashes P H" "psk_bind_input l' qs \<in> run_hashes P H"
    by (rule run_hashes_bind [OF e(1) b(1)], rule run_hashes_bind [OF e(2) b(2)])
  then show "psk_bind_input l ps = psk_bind_input l' qs"
    using run eq unfolding run_ok_def psk_bind_def by (blast dest: inj_onD)
  show "\<forall>p\<in>set ps. length p < 2 ^ 64" "\<forall>p\<in>set qs. length p < 2 ^ 64"
    using run e b unfolding run_ok_def by fast+
qed

lemma run_report_origin:
  assumes run: "run_ok P H" and cbor: "inj (tee_body_cbor P)"
    and e: "e \<in> H" "event_shown e = Some (rep, roots)"
    and ok: "verify_report P rep n bound roots = Inr m"
  obtains e' rep' where "e' \<in> H" and "event_report P e' = Some rep'"
    and "rb_nonce (rep_body rep') = n" and "rb_bound_data (rep_body rep') = bound"
    and "rb_measurement (rep_body rep') = m"
proof -
  obtain e' rep' where e': "e' \<in> H" "event_report P e' = Some rep'"
    and dig: "report_digest P (rep_body rep') = report_digest P (rep_body rep)"
    using run e ok unfolding run_ok_def no_forgery_def verify_report_Inr by blast
  have "report_input P (rep_body rep') \<in> run_hashes P H" "report_input P (rep_body rep) \<in> run_hashes P H"
    using e e' unfolding run_hashes_def event_bodies_def by force+
  then have "report_input P (rep_body rep') = report_input P (rep_body rep)"
    using run dig unfolding run_ok_def report_digest_def by (blast dest: inj_onD)
  then have "rep_body rep' = rep_body rep"
    by (rule report_input_inject [OF cbor])
  with that e' ok show ?thesis
    unfolding verify_report_Inr by metis
qed

lemma role_labels:
  "length (str_bytes ''initiator'') = length (str_bytes ''responder'')"
  "str_bytes ''initiator'' \<noteq> str_bytes ''responder''"
  by (simp_all add: str_bytes_def)

lemma respond_InrD:
  assumes "respond P rnd A m1 nr roots al = Inr (m2, s)"
  obtains peer ek ct ss where
    "verify_report P (m1_report_i m1) nr (psk_bind P (str_bytes ''initiator'') [nr, m1_ek_bytes m1]) roots = Inr peer"
    and "tee_kem_ek P (m1_ek_bytes m1) = Some ek" and "tee_kem_encaps P ek rnd = (ct, ss)"
    and "m2_ct_bytes m2 = ct" and "m2_report_r m2 =
      at_produce A (m1_nonce_i m1) (psk_bind P (str_bytes ''responder'') [m1_nonce_i m1, m1_ek_bytes m1, ct])"
    and "s = \<lparr>psk = derive_psk P ss (psk_transcript P (m1_nonce_i m1) nr (m1_ek_bytes m1) ct),
              peer_measurement = peer\<rparr>"
proof -
  let ?bound = "psk_bind P (str_bytes ''initiator'') [nr, m1_ek_bytes m1]"
  obtain peer where v: "verify_report P (m1_report_i m1) nr ?bound roots = Inr peer"
    using assms by (auto simp: respond_def Let_def result_simps)
  obtain ek where ek: "tee_kem_ek P (m1_ek_bytes m1) = Some ek"
    using assms v by (auto simp: respond_def Let_def result_simps split: if_splits)
  obtain ct ss where en: "tee_kem_encaps P ek rnd = (ct, ss)" by fastforce
  show ?thesis
    by (rule that [OF v ek en]) (use assms v ek en in \<open>auto simp: respond_def Let_def split: if_splits\<close>)
qed

text \<open>
  The step that signed a report for an initiator is a \<open>Start\<close>, the one that signed a report for
  a responder a \<open>Respond\<close>.
\<close>

lemma bound_report:
  assumes run: "run_ok P H" and e: "e \<in> H" "event_report P e = Some rep"
    and b: "rb_bound_data (rep_body rep) = psk_bind P l ps" "length l = length (str_bytes ''initiator'')"
    and mem: "e' \<in> H" "(l, ps) \<in> event_binds P e'"
  shows "(\<exists>A rnd ni nr. e = Start A rnd ni nr \<and> l = str_bytes ''initiator'' \<and>
            ps = [nr, snd (tee_kem_keypair P rnd)] \<and> rb_measurement (rep_body rep) = at_measurement A) \<or>
         (\<exists>A rnd m1 nr roots al m2 s. e = Respond A rnd m1 nr roots al \<and>
            respond P rnd A m1 nr roots al = Inr (m2, s) \<and> l = str_bytes ''responder'' \<and>
            ps = [m1_nonce_i m1, m1_ek_bytes m1, m2_ct_bytes m2] \<and>
            rb_measurement (rep_body rep) = at_measurement A)"
proof (cases e)
  case (Start A rnd ni nr)
  then have A: "attestor_contract P A"
    using run e unfolding run_ok_def by auto
  obtain dk ek where kp: "tee_kem_keypair P rnd = (dk, ek)" by fastforce
  have "psk_bind P l ps = psk_bind P (str_bytes ''initiator'') [nr, ek]"
    using b e(2) Start kp A by (auto simp: initiator_start_def Let_def attestor_contract.produce_bound)
  from run_bind_inject [OF run mem(1) e(1) mem(2) _ this b(2)] Start kp
  have "l = str_bytes ''initiator''" "ps = [nr, ek]" by simp_all
  moreover have "rb_measurement (rep_body rep) = at_measurement A"
    using e(2) Start kp A by (auto simp: initiator_start_def Let_def attestor_contract.produce_measurement)
  ultimately show ?thesis
    using Start kp by simp
next
  case (Respond A rnd m1 nr roots al)
  then have A: "attestor_contract P A"
    using run e unfolding run_ok_def by auto
  obtain m2 s where r: "respond P rnd A m1 nr roots al = Inr (m2, s)" and rep: "rep = m2_report_r m2"
    using e(2) Respond by (auto split: sum.splits)
  have rep': "rep = at_produce A (m1_nonce_i m1)
      (psk_bind P (str_bytes ''responder'') [m1_nonce_i m1, m1_ek_bytes m1, m2_ct_bytes m2])"
    unfolding rep by (rule respond_InrD [OF r]) simp
  have "psk_bind P l ps = psk_bind P (str_bytes ''responder'') [m1_nonce_i m1, m1_ek_bytes m1, m2_ct_bytes m2]"
    using b(1) unfolding rep' by (simp add: attestor_contract.produce_bound [OF A])
  from run_bind_inject [OF run mem(1) e(1) mem(2) _ this] Respond r b(2)
  have "l = str_bytes ''responder''" "ps = [m1_nonce_i m1, m1_ek_bytes m1, m2_ct_bytes m2]"
    by (simp_all add: role_labels(1))
  moreover have "rb_measurement (rep_body rep) = at_measurement A"
    unfolding rep' by (rule attestor_contract.produce_measurement [OF A])
  ultimately show ?thesis
    using Respond r by blast
next
  case (Finish st m2 roots al)
  with e(2) show ?thesis by simp
qed

lemma bound_of_initiator:
  assumes run: "run_ok P H" and cbor: "inj (tee_body_cbor P)"
    and e: "Respond B rnd m1 nr roots al \<in> H"
    and ok: "verify_report P (m1_report_i m1) nr (psk_bind P (str_bytes ''initiator'') [nr, m1_ek_bytes m1]) roots = Inr m"
  obtains A rnd' ni where "Start A rnd' ni nr \<in> H" and "snd (tee_kem_keypair P rnd') = m1_ek_bytes m1"
    and "at_measurement A = m"
proof -
  obtain e' rep' where e': "e' \<in> H" "event_report P e' = Some rep'"
    and b: "rb_bound_data (rep_body rep') = psk_bind P (str_bytes ''initiator'') [nr, m1_ek_bytes m1]"
    and m: "rb_measurement (rep_body rep') = m"
    by (rule run_report_origin [OF run cbor e _ ok]) auto
  have "(str_bytes ''initiator'', [nr, m1_ek_bytes m1]) \<in> event_binds P (Respond B rnd m1 nr roots al)"
    by simp
  from bound_report [OF run e' b refl e this] that m e'(1) role_labels(2) show ?thesis
    by auto
qed

lemma bound_of_responder:
  assumes run: "run_ok P H" and cbor: "inj (tee_body_cbor P)"
    and e: "Finish st m2 roots al \<in> H"
    and ok: "verify_report P (m2_report_r m2) (in_nonce_i st)
        (psk_bind P (str_bytes ''responder'') [in_nonce_i st, in_ek_bytes st, m2_ct_bytes m2]) roots = Inr m"
  obtains B rnd' m1 nr roots' al' m2' s where "Respond B rnd' m1 nr roots' al' \<in> H"
    and "respond P rnd' B m1 nr roots' al' = Inr (m2', s)"
    and "m1_nonce_i m1 = in_nonce_i st" and "m1_ek_bytes m1 = in_ek_bytes st"
    and "m2_ct_bytes m2' = m2_ct_bytes m2" and "at_measurement B = m"
proof -
  obtain e' rep' where e': "e' \<in> H" "event_report P e' = Some rep'"
    and b: "rb_bound_data (rep_body rep') =
      psk_bind P (str_bytes ''responder'') [in_nonce_i st, in_ek_bytes st, m2_ct_bytes m2]"
    and m: "rb_measurement (rep_body rep') = m"
    by (rule run_report_origin [OF run cbor e _ ok]) auto
  have "(str_bytes ''responder'', [in_nonce_i st, in_ek_bytes st, m2_ct_bytes m2]) \<in>
      event_binds P (Finish st m2 roots al)"
    by simp
  from bound_report [OF run e' b role_labels(1) [symmetric] e this] show ?thesis
  proof (elim disjE exE conjE)
    fix B rnd' m1 nr roots' al' m2' s
    assume "e' = Respond B rnd' m1 nr roots' al'" "respond P rnd' B m1 nr roots' al' = Inr (m2', s)"
      "[in_nonce_i st, in_ek_bytes st, m2_ct_bytes m2] = [m1_nonce_i m1, m1_ek_bytes m1, m2_ct_bytes m2']"
      "rb_measurement (rep_body rep') = at_measurement B"
    with e'(1) m show ?thesis
      by (intro that [of B rnd' m1 nr roots' al' m2' s]) simp_all
  qed (use role_labels(2) in simp)
qed

lemma matching_respond:
  assumes P: "tee_prims_ok P" and cbor: "inj (tee_body_cbor P)" and run: "run_ok P H"
    and start: "Start A rnd ni nr \<in> H" and st: "st = fst (initiator_start P rnd A ni nr)"
    and fin: "Finish st m2 roots al \<in> H" and ok: "initiator_finish P st m2 roots al = Inr s"
  shows "\<exists>B rnd' m1 roots' al' m2' s'. Respond B rnd' m1 nr roots' al' \<in> H \<and>
     respond P rnd' B m1 nr roots' al' = Inr (m2', s') \<and> m2_ct_bytes m2' = m2_ct_bytes m2 \<and>
     psk s' = psk s \<and> peer_measurement s = at_measurement B \<and> peer_measurement s' = at_measurement A"
proof -
  obtain dk ek where kp: "tee_kem_keypair P rnd = (dk, ek)" by fastforce
  have st: "st = \<lparr>in_dk = dk, in_ek_bytes = ek, in_nonce_i = ni, in_nonce_r_offered = nr\<rparr>"
    using st kp by (simp add: initiator_start_def Let_def)
  obtain peer where nr: "m2_nonce_r m2 = nr"
    and ver: "verify_report P (m2_report_r m2) (in_nonce_i st)
      (psk_bind P (str_bytes ''responder'') [in_nonce_i st, in_ek_bytes st, m2_ct_bytes m2]) roots = Inr peer"
    and s: "s = \<lparr>psk = derive_psk P (tee_kem_decaps P dk (the (tee_kem_ct P (m2_ct_bytes m2))))
       (psk_transcript P ni nr ek (m2_ct_bytes m2)), peer_measurement = peer\<rparr>"
    using ok unfolding initiator_finish_def
    by (auto simp: Let_def result_simps st split: if_splits)
  obtain B rnd' m1 nr' roots' al' m2' s' where resp: "Respond B rnd' m1 nr' roots' al' \<in> H"
    and r: "respond P rnd' B m1 nr' roots' al' = Inr (m2', s')"
    and eqs: "m1_nonce_i m1 = ni" "m1_ek_bytes m1 = ek" "m2_ct_bytes m2' = m2_ct_bytes m2"
    and B: "at_measurement B = peer"
    using bound_of_responder [OF run cbor fin ver] unfolding st initiator.select_convs by blast
  obtain peer' ek' ct ss where
    ver': "verify_report P (m1_report_i m1) nr' (psk_bind P (str_bytes ''initiator'') [nr', ek]) roots' = Inr peer'"
    and ek': "tee_kem_ek P ek = Some ek'" and en: "tee_kem_encaps P ek' rnd' = (ct, ss)"
    and ct: "m2_ct_bytes m2' = ct"
    and "m2_report_r m2' = at_produce B ni (psk_bind P (str_bytes ''responder'') [ni, ek, ct])"
    and s': "s' = \<lparr>psk = derive_psk P ss (psk_transcript P ni nr' ek ct), peer_measurement = peer'\<rparr>"
    by (rule respond_InrD [OF r, unfolded eqs(1,2)])
  obtain A' rnd'' ni' where start': "Start A' rnd'' ni' nr' \<in> H"
    and "snd (tee_kem_keypair P rnd'') = ek" and A': "at_measurement A' = peer'"
    by (rule bound_of_initiator [OF run cbor resp, unfolded eqs(1,2), OF ver'])
  then have "snd (tee_kem_keypair P rnd'') = snd (tee_kem_keypair P rnd)"
    using kp by simp
  then have "Start A' rnd'' ni' nr' = Start A rnd ni nr"
    using run start start' unfolding run_ok_def fresh_keys_def by blast
  then have same: "nr' = nr" "A' = A" by simp_all
  have "ek' = ek"
    using ek' kem_ok(1) [OF P kp] by simp
  with en have "tee_kem_ct P ct = Some ct" "tee_kem_decaps P dk ct = ss"
    using kem_ok(2,3) [OF P kp] by simp_all
  then have "psk s' = psk s"
    using s s' same ct eqs(3) by simp
  moreover have "peer_measurement s = at_measurement B" "peer_measurement s' = at_measurement A"
    using s s' B A' same by simp_all
  ultimately show ?thesis
    using resp [unfolded same] r [unfolded same] eqs(3) by blast
qed

section \<open>Properties\<close>

text \<open>
  C26. An honest handshake agrees. When the two enclaves trust each other's report keys and
  images, \<open>respond\<close> accepts the first message, \<open>finish\<close> accepts the second, and both sides
  end with the same 32-byte key and the other side's measurement, for all random choices.
\<close>

theorem handshake_agrees:
  assumes "tee_prims_ok P"
    and "A = software_ops P (generate_as P sk kd m)" and "B = software_ops P (generate_as P sk' kd' m')"
    and "length m = MEASUREMENT_LEN" and "tee_ed_pk P sk \<in> set (root_keys roots)" and "m \<in> set (entries al)"
    and "length m' = MEASUREMENT_LEN" and "tee_ed_pk P sk' \<in> set (root_keys roots')" and "m' \<in> set (entries al')"
    and "initiator_start P rnd A ni nr = (st, m1)"
  shows "\<exists>m2 k. respond P rnd' B m1 nr roots al = Inr (m2, \<lparr>psk = k, peer_measurement = m\<rparr>) \<and>
    initiator_finish P st m2 roots' al' = Inr \<lparr>psk = k, peer_measurement = m'\<rparr>"
proof -
  have "at_measurement A = m" "at_signer_pk A = tee_ed_pk P sk"
    "at_measurement B = m'" "at_signer_pk B = tee_ed_pk P sk'"
    using assms(2,3) by (simp_all add: software_ops_def generate_as_def Let_def)
  then show ?thesis
    using software_pair.agree [OF assms(1), of rnd sk kd m ni nr st m1 roots al sk' kd' m' roots' al' rnd'] assms
    by simp
qed

text \<open>
  C4. A completed handshake has a partner. Take any set of protocol steps, with messages altered,
  replayed or invented in between, in which no report signature is forged, SHA3-384 has no
  collision and no key pair repeats. If an initiator finishes, some responder of the run answered
  under the same offered nonce with the same ciphertext and holds the same key; each side has
  verified the measurement of the other. A report of one role never passes for the other role.
\<close>

theorem handshake_matching:
  assumes "tee_prims_ok P" and "inj (tee_body_cbor P)" and "run_ok P H"
    and "Start A rnd ni nr \<in> H" and "st = fst (initiator_start P rnd A ni nr)"
    and "Finish st m2 roots al \<in> H" and "initiator_finish P st m2 roots al = Inr s"
  shows "\<exists>B rnd' m1 roots' al' m2' s'. Respond B rnd' m1 nr roots' al' \<in> H \<and>
     respond P rnd' B m1 nr roots' al' = Inr (m2', s') \<and> m2_ct_bytes m2' = m2_ct_bytes m2 \<and>
     psk s' = psk s \<and> peer_measurement s = at_measurement B \<and> peer_measurement s' = at_measurement A"
  by (rule matching_respond [OF assms])

text \<open>
  The constant-time allowlist scan is membership, also after \<open>push\<close>: accumulating the
  comparison bytes with \<open>|=\<close> and testing for non-zero gives the same answer as a search.
\<close>

theorem allowlist_scan_membership:
  assumes "tee_prims_ok P"
  shows "Allowlist_contains P (Allowlist_push (Allowlist_new ms) x) m \<longleftrightarrow> m = x \<or> m \<in> set ms"
  by (auto simp: contains_iff [OF assms] Allowlist_push_def Allowlist_new_def)

text \<open>
  C27. Sealing. What an enclave seals it unseals again, byte for byte, and an enclave with another
  measurement is refused without attempting a decryption, whatever its sealing root is.
\<close>

theorem seal_bound_to_measurement:
  assumes "tee_prims_ok P" and "seal P nonce_bytes A aad plaintext = Inr env"
  shows "unseal P A env = Inr plaintext \<and>
    (\<forall>B. at_measurement B \<noteq> at_measurement A \<longrightarrow> unseal P B env = Inl Seal)"
proof -
  obtain ct where
    ct: "tee_encrypt P (derive_key P (at_sealing_root A) (at_measurement A) aad) nonce_bytes plaintext aad = Some ct"
    and env: "env = \<lparr>env_measurement = at_measurement A, env_nonce = nonce_bytes, env_aad = aad, env_ciphertext = ct\<rparr>"
    using assms(2) by (auto simp: seal_def Let_def result_simps)
  have "tee_decrypt P (derive_key P (at_sealing_root A) (at_measurement A) aad) nonce_bytes ct aad = Some plaintext"
    using assms(1) ct unfolding tee_prims_ok_def by blast
  then show ?thesis
    by (auto simp: unseal_def env measurement_eq_def ct_eq_ok [OF assms(1)])
qed

text \<open>
  C28. A deserialised measurement has 48 bytes. The sequence visitor accepts exactly the sequences
  of 48 readable bytes, and returns those bytes in order.
\<close>

theorem measurement_from_seq:
  "measurement_visit_seq es [] = Inr m \<longleftrightarrow> es = map Inr m \<and> length m = MEASUREMENT_LEN"
proof -
  have "measurement_visit_seq es acc = Inr m \<longleftrightarrow> (\<exists>bs. es = map Inr bs \<and> m = acc @ bs \<and> length m = MEASUREMENT_LEN)"
    for acc
  proof (induction es acc rule: measurement_visit_seq.induct)
    case (3 b es acc)
    then show ?case
      by (auto simp: Cons_eq_map_conv)
  qed (auto simp: measurement_visit_bytes_def)
  then show ?thesis by auto
qed

section \<open>Witnesses\<close>

fun delimited :: "bytes \<Rightarrow> bytes" where
  "delimited [] = [0]"
| "delimited (b # bs) = 1 # b # delimited bs"

lemma delimited_inject: "delimited a @ r = delimited b @ s \<longleftrightarrow> a = b \<and> r = s"
proof (induction a arbitrary: b)
  case Nil
  show ?case by (cases b) auto
next
  case (Cons x xs)
  then show ?case by (cases b) auto
qed

lemma delimited_inj: "delimited a = delimited b \<longleftrightarrow> a = b"
  using delimited_inject [of a "[]" b "[]"] by simp

fun kind_byte :: "AttestorKind \<Rightarrow> u8" where
  "kind_byte SevSnp = 0"
| "kind_byte Tdx = 1"
| "kind_byte Software = 2"

definition toy_cbor :: "report_body \<Rightarrow> bytes" where
  "toy_cbor b = kind_byte (rb_kind b) # delimited (rb_measurement b) @ delimited (rb_nonce b) @
     delimited (rb_bound_data b) @ be 4 (unat (rb_firmware_version b)) @ be 8 (unat (rb_tcb_svn b))"

lemma toy_cbor_inj: "inj toy_cbor"
proof (rule injI)
  fix a b :: report_body
  assume eq: "toy_cbor a = toy_cbor b"
  have "be 4 (unat (rb_firmware_version a)) = be 4 (unat (rb_firmware_version b))"
    "be 8 (unat (rb_tcb_svn a)) = be 8 (unat (rb_tcb_svn b))"
    using eq by (simp_all add: toy_cbor_def delimited_inject del: be.simps)
  moreover have "unat (rb_firmware_version x) < 256 ^ 4" "unat (rb_tcb_svn x) < 256 ^ 8" for x :: report_body
    using unsigned_less [of "rb_firmware_version x", where ?'a = nat]
      unsigned_less [of "rb_tcb_svn x", where ?'a = nat] by simp_all
  ultimately have "unat (rb_firmware_version a) = unat (rb_firmware_version b)"
    "unat (rb_tcb_svn a) = unat (rb_tcb_svn b)"
    using be_inject by blast+
  moreover have "rb_kind a = rb_kind b"
    using eq by (cases "rb_kind a"; cases "rb_kind b") (simp_all add: toy_cbor_def)
  ultimately show "a = b"
    using eq by (cases a; cases b) (simp add: toy_cbor_def delimited_inject delimited_inj word_unat_eq_iff)
qed

definition toy_tee :: tee_prims where
  "toy_tee =
     \<lparr>tee_sha3_384 = id, tee_hkdf = (\<lambda>salt ikm info n. take n (salt @ ikm @ info)), tee_ed_pk = id,
      tee_ed_sign = (\<lambda>sk d. replicate 64 0), tee_ed_from_bytes = Some, tee_ed_verify = (\<lambda>pk d sig. True),
      tee_ct_eq = (\<lambda>a b. if a = b then 1 else 0), tee_body_cbor = toy_cbor,
      tee_encrypt = (\<lambda>k n m a. Some m), tee_decrypt = (\<lambda>k n c a. Some c),
      tee_kem_keypair = (\<lambda>s. (s, s)), tee_kem_ek = Some, tee_kem_encaps = (\<lambda>ek r. (r, ek @ r)),
      tee_kem_ct = Some, tee_kem_decaps = (\<lambda>dk ct. dk @ ct)\<rparr>"

lemma toy_tee_ok: "tee_prims_ok toy_tee"
  by (simp add: tee_prims_ok_def toy_tee_def)

definition toy_replica :: "u8 \<Rightarrow> attestor" where
  "toy_replica b = software_ops toy_tee (generate_as toy_tee [b] SevSnp (replicate 48 b))"

lemma toy_replica_simps [simp]:
  "at_measurement (toy_replica b) = replicate 48 b" "at_signer_pk (toy_replica b) = [b]"
  by (simp_all add: toy_replica_def software_ops_def generate_as_def Let_def toy_tee_def)

definition toy_roots :: peer_roots where
  "toy_roots = \<lparr>root_keys = [[1], [2]]\<rparr>"

definition toy_images :: allowlist where
  "toy_images = \<lparr>entries = [replicate 48 1, replicate 48 2]\<rparr>"

definition toy_start :: "initiator \<times> msg1" where
  "toy_start = initiator_start toy_tee [7] (toy_replica 1) [3] [4]"

definition toy_answer :: msg2 where
  "toy_answer = (case respond toy_tee [8] (toy_replica 2) (snd toy_start) [4] toy_roots toy_images of
     Inr (m2, _) \<Rightarrow> m2)"

definition toy_steps :: "event set" where
  "toy_steps = {Start (toy_replica 1) [7] [3] [4],
     Respond (toy_replica 2) [8] (snd toy_start) [4] toy_roots toy_images,
     Finish (fst toy_start) toy_answer toy_roots toy_images}"

theorem handshake_agrees_witness:
  "\<exists>m2 k. respond toy_tee [8] (toy_replica 2) (snd toy_start) [4] toy_roots toy_images =
      Inr (m2, \<lparr>psk = k, peer_measurement = replicate 48 1\<rparr>) \<and>
    initiator_finish toy_tee (fst toy_start) m2 toy_roots toy_images =
      Inr \<lparr>psk = k, peer_measurement = replicate 48 2\<rparr>"
  by (rule handshake_agrees [OF toy_tee_ok toy_replica_def toy_replica_def, where rnd = "[7]" and ni = "[3]" and nr = "[4]"])
    (simp_all add: MEASUREMENT_LEN_def toy_tee_def toy_roots_def toy_images_def toy_start_def)

theorem allowlist_scan_membership_witness:
  "Allowlist_contains toy_tee (Allowlist_push (Allowlist_new [[1]]) [2]) [2] \<and>
   \<not> Allowlist_contains toy_tee (Allowlist_push (Allowlist_new [[1]]) [2]) [3]"
  by (simp add: allowlist_scan_membership [OF toy_tee_ok])

theorem seal_bound_to_measurement_witness:
  "\<exists>env. seal toy_tee [0] (toy_replica 1) [5] [6] = Inr env \<and>
     unseal toy_tee (toy_replica 1) env = Inr [6] \<and> unseal toy_tee (toy_replica 2) env = Inl Seal"
proof -
  obtain env where env: "seal toy_tee [0] (toy_replica 1) [5] [6] = Inr env"
    by (auto simp: seal_def Let_def toy_tee_def)
  with seal_bound_to_measurement [OF toy_tee_ok env] show ?thesis
    by simp
qed

lemma toy_handshake_axioms: "handshake toy_tee (toy_replica a) (toy_replica b)"
  unfolding toy_replica_def by (rule software_pair.handshake_axioms)

lemma toy_handshake:
  obtains k where "respond toy_tee [8] (toy_replica 2) (snd toy_start) [4] toy_roots toy_images =
      Inr (toy_answer, \<lparr>psk = k, peer_measurement = replicate 48 1\<rparr>)"
    and "initiator_finish toy_tee (fst toy_start) toy_answer toy_roots toy_images =
      Inr \<lparr>psk = k, peer_measurement = replicate 48 2\<rparr>"
proof -
  have start: "initiator_start toy_tee [7] (toy_replica 1) [3] [4] = (fst toy_start, snd toy_start)"
    by (simp add: toy_start_def)
  have len: "length (at_measurement (toy_replica b)) = MEASUREMENT_LEN" for b
    by (simp add: MEASUREMENT_LEN_def)
  have keys: "at_signer_pk (toy_replica 1) \<in> set (root_keys toy_roots)"
    "at_signer_pk (toy_replica 2) \<in> set (root_keys toy_roots)"
    by (simp_all add: toy_roots_def)
  have images: "at_measurement (toy_replica 1) \<in> set (entries toy_images)"
    "at_measurement (toy_replica 2) \<in> set (entries toy_images)"
    by (simp_all add: toy_images_def)
  obtain m2 k where r: "respond toy_tee [8] (toy_replica 2) (snd toy_start) [4] toy_roots toy_images =
      Inr (m2, \<lparr>psk = k, peer_measurement = at_measurement (toy_replica 1)\<rparr>)"
    and f: "initiator_finish toy_tee (fst toy_start) m2 toy_roots toy_images =
      Inr \<lparr>psk = k, peer_measurement = at_measurement (toy_replica 2)\<rparr>"
    using handshake.agree [OF toy_handshake_axioms toy_tee_ok start len keys(1) images(1) len keys(2) images(2)]
    by blast
  have "toy_answer = m2"
    unfolding toy_answer_def r by simp
  then show ?thesis
    using that r f unfolding toy_replica_simps(1) by blast
qed

lemma toy_run_ok: "run_ok toy_tee toy_steps"
proof -
  obtain s where r: "respond toy_tee [8] (toy_replica 2) (snd toy_start) [4] toy_roots toy_images = Inr (toy_answer, s)"
    by (rule toy_handshake)
  have m1: "m1_nonce_i (snd toy_start) = [3]" "m1_ek_bytes (snd toy_start) = [7]"
    "in_nonce_i (fst toy_start) = [3]" "in_ek_bytes (fst toy_start) = [7]"
    by (simp_all add: toy_start_def initiator_start_def toy_tee_def Let_def)
  have ct: "m2_ct_bytes toy_answer = [8]"
    by (rule respond_InrD [OF r]) (simp add: toy_tee_def)
  have "event_report toy_tee (Start (toy_replica 1) [7] [3] [4]) = Some (m1_report_i (snd toy_start))"
    "event_report toy_tee (Respond (toy_replica 2) [8] (snd toy_start) [4] toy_roots toy_images) =
      Some (m2_report_r toy_answer)"
    by (simp add: toy_start_def, simp add: r)
  then have forge: "no_forgery toy_tee toy_steps"
    unfolding no_forgery_def toy_steps_def by fastforce
  have att: "attestor_contract toy_tee (toy_replica b)" for b
    unfolding toy_replica_def by (rule software.attestor_contract_axioms)
  have inj: "inj_on (tee_sha3_384 toy_tee) S" for S
    by (simp add: toy_tee_def)
  have fresh: "fresh_keys toy_tee toy_steps"
    unfolding fresh_keys_def toy_steps_def by simp
  have sizes: "\<forall>e\<in>toy_steps. \<forall>(l, ps)\<in>event_binds toy_tee e. \<forall>p\<in>set ps. length p < 2 ^ 64"
    unfolding toy_steps_def by (simp add: r m1 ct) (simp add: toy_tee_def)
  have "\<forall>e\<in>toy_steps. \<forall>A. event_attestor e = Some A \<longrightarrow> attestor_contract toy_tee A"
    unfolding toy_steps_def by (simp add: att)
  with forge inj fresh sizes show ?thesis
    unfolding run_ok_def by blast
qed

theorem handshake_matching_witness:
  "\<exists>s B rnd' m1 roots' al' m2' s'. initiator_finish toy_tee (fst toy_start) toy_answer toy_roots toy_images = Inr s \<and>
     Respond B rnd' m1 [4] roots' al' \<in> toy_steps \<and> respond toy_tee rnd' B m1 [4] roots' al' = Inr (m2', s') \<and>
     psk s' = psk s \<and> peer_measurement s = at_measurement B \<and> peer_measurement s' = replicate 48 1"
proof -
  obtain s where fin: "initiator_finish toy_tee (fst toy_start) toy_answer toy_roots toy_images = Inr s"
    by (rule toy_handshake)
  have "inj (tee_body_cbor toy_tee)"
    using toy_cbor_inj by (simp add: toy_tee_def)
  moreover have "Start (toy_replica 1) [7] [3] [4] \<in> toy_steps"
    "Finish (fst toy_start) toy_answer toy_roots toy_images \<in> toy_steps"
    by (simp_all add: toy_steps_def)
  ultimately obtain B rnd' m1 roots' al' m2' s' where "Respond B rnd' m1 [4] roots' al' \<in> toy_steps"
    "respond toy_tee rnd' B m1 [4] roots' al' = Inr (m2', s')" "psk s' = psk s"
    "peer_measurement s = at_measurement B" "peer_measurement s' = at_measurement (toy_replica 1)"
    using handshake_matching [OF toy_tee_ok _ toy_run_ok _ _ _ fin] unfolding toy_start_def by blast
  then show ?thesis
    using fin unfolding toy_replica_simps(1) by blast
qed

end
