(* ===== verification/Media.thy ===== *)
theory Media
  imports Shamir Composite Disk
begin

text \<open>
  \<open>crates/ferro-ceremony\<close>: sealed-share media (\<open>media.rs\<close>) and their destruction
  (\<open>destruction.rs\<close>). Standard base64 and the JSON codec of a share are the fields of
  \<open>media_codec\<close>; SHA3-256 and hex come from \<open>prims\<close>. Strings are ASCII, an \<open>i64\<close> is an
  integer, and the file system is the disk of \<open>Disk\<close> with the faults of \<open>media_faults\<close>.
\<close>

section \<open>Errors\<close>

definition ROOT_SEED_LEN :: nat where
  "ROOT_SEED_LEN = 32"

datatype CeremonyError =
    Serde string
  | Malformed string string
  | Integrity string
  | Signature string
  | Shamir string
  | NotDestroyed string
  | Io string

text \<open>\<open>to_string\<close> of the two error types that are folded into \<open>CeremonyError\<close>.\<close>

fun TeeError_display :: "TeeError \<Rightarrow> string" where
  "TeeError_display (Mlock e) = ''mlock failed: '' @ e"
| "TeeError_display BadReportSignature = ''attestation report signature invalid''"
| "TeeError_display (BadReport e) = ''attestation report malformed: '' @ e"
| "TeeError_display MeasurementNotAllowed = ''measurement not in allowlist''"
| "TeeError_display (Codec e) = ''codec: '' @ e"
| "TeeError_display Seal = ''seal/unseal failed''"
| "TeeError_display PskTranscript = ''psk transcript mismatch''"
| "TeeError_display (NotEnoughShares have need) =
     ''not enough shares: have '' @ dec have @ '', need '' @ dec need"
| "TeeError_display (DuplicateShare x) = ''duplicate share index '' @ dec (unat x)"
| "TeeError_display (InvalidShareIndex x) = ''invalid share index '' @ dec (unat x)"
| "TeeError_display ShareLength = ''share length mismatch''"
| "TeeError_display MlKem = ''ml-kem failure''"

text \<open>The \<open>{:?}\<close> format of a string: quotes, and escapes for the characters that are not printed.\<close>

definition hex_digit :: "nat \<Rightarrow> char" where
  "hex_digit n = ''0123456789abcdef'' ! (n mod 16)"

definition debug_char :: "char \<Rightarrow> string" where
  "debug_char c =
     (if c = CHR 0x22 \<or> c = CHR 0x5C then [CHR 0x5C, c]
      else if c = CHR 0x00 then [CHR 0x5C, CHR ''0'']
      else if c = CHR 0x09 then [CHR 0x5C, CHR ''t'']
      else if c = CHR 0x0A then [CHR 0x5C, CHR ''n'']
      else if c = CHR 0x0D then [CHR 0x5C, CHR ''r'']
      else let n = of_char c :: nat in
        if n < 32 \<or> n = 127
        then [CHR 0x5C] @ ''u{'' @ (if n < 16 then [hex_digit n] else [hex_digit (n div 16), hex_digit n]) @ ''}''
        else [c])"

definition debug_str :: "string \<Rightarrow> string" where
  "debug_str s = [CHR 0x22] @ concat (map debug_char s) @ [CHR 0x22]"

section \<open>Sealed shares\<close>

definition SEALED_SHARE_MAGIC :: string where
  "SEALED_SHARE_MAGIC = ''ferrogate-sealed-share''"

definition SEALED_SHARE_VERSION :: u32 where
  "SEALED_SHARE_VERSION = 1"

record sealed_share =
  ss_format :: string
  ss_version :: u32
  ss_root_kid :: string
  ss_threshold :: nat
  ss_total :: nat
  ss_index :: u8
  ss_holder :: string
  ss_created_at :: int
  ss_share :: string
  ss_tag :: string

record media_codec =
  std_encode :: "bytes \<Rightarrow> string"
  std_decode :: "string \<Rightarrow> (string, bytes) result"
  json_of_share :: "sealed_share \<Rightarrow> (string, bytes) result"
  share_of_json :: "bytes \<Rightarrow> (string, sealed_share) result"

text \<open>\<open>to_be_bytes\<close> of an \<open>i64\<close>: two's complement.\<close>

definition be_i64 :: "int \<Rightarrow> bytes" where
  "be_i64 x = be 8 (nat (x mod 2 ^ 64))"

definition tag_fields :: "string \<Rightarrow> nat \<Rightarrow> nat \<Rightarrow> u8 \<Rightarrow> string \<Rightarrow> int \<Rightarrow> bytes \<Rightarrow> bytes list" where
  "tag_fields root_kid t n idx holder created_at y =
     [str_bytes SEALED_SHARE_MAGIC, be 4 (unat SEALED_SHARE_VERSION), str_bytes root_kid, be 8 t, be 8 n,
      [idx], str_bytes holder, be_i64 created_at, y]"

definition compute_tag ::
  "prims \<Rightarrow> string \<Rightarrow> nat \<Rightarrow> nat \<Rightarrow> u8 \<Rightarrow> string \<Rightarrow> int \<Rightarrow> bytes \<Rightarrow> string" where
  "compute_tag P root_kid t n idx holder created_at y =
     hex_encode P (sha3_256 P (length_prefixed (tag_fields root_kid t n idx holder created_at y)))"

definition seal_share ::
  "prims \<Rightarrow> media_codec \<Rightarrow> string \<Rightarrow> nat \<Rightarrow> nat \<Rightarrow> share \<Rightarrow> string \<Rightarrow> int \<Rightarrow> sealed_share" where
  "seal_share P C root_kid t n sh holder created_at =
     \<lparr>ss_format = SEALED_SHARE_MAGIC, ss_version = SEALED_SHARE_VERSION, ss_root_kid = root_kid,
      ss_threshold = t, ss_total = n, ss_index = share_x sh, ss_holder = holder,
      ss_created_at = created_at, ss_share = std_encode C (share_y sh),
      ss_tag = compute_tag P root_kid t n (share_x sh) holder created_at (share_y sh)\<rparr>"

definition share_bytes :: "media_codec \<Rightarrow> sealed_share \<Rightarrow> (CeremonyError, bytes) result" where
  "share_bytes C s =
     map_err (\<lambda>e. Malformed ''sealed share'' (''share base64: '' @ e)) (std_decode C (ss_share s))"

definition verify_integrity :: "prims \<Rightarrow> media_codec \<Rightarrow> sealed_share \<Rightarrow> (CeremonyError, unit) result" where
  "verify_integrity P C s =
     (if ss_format s \<noteq> SEALED_SHARE_MAGIC
      then Inl (Malformed ''sealed share'' (''unexpected format '' @ debug_str (ss_format s)))
      else if ss_version s \<noteq> SEALED_SHARE_VERSION
      then Inl (Malformed ''sealed share'' (''unsupported version '' @ dec (unat (ss_version s))))
      else if ss_index s = 0
      then Inl (Malformed ''sealed share'' ''share index 0 is the secret, not a share'')
      else and_then (share_bytes C s) (\<lambda>y.
        if compute_tag P (ss_root_kid s) (ss_threshold s) (ss_total s) (ss_index s) (ss_holder s)
             (ss_created_at s) y \<noteq> ss_tag s
        then Inl (Integrity ''sealed share'') else Inr ()))"

definition to_share :: "prims \<Rightarrow> media_codec \<Rightarrow> sealed_share \<Rightarrow> (CeremonyError, share) result" where
  "to_share P C s =
     and_then (verify_integrity P C s) (\<lambda>_.
     and_then (share_bytes C s) (\<lambda>y.
     Inr \<lparr>share_x = ss_index s, share_y = y\<rparr>))"

definition share_to_json :: "media_codec \<Rightarrow> sealed_share \<Rightarrow> (CeremonyError, bytes) result" where
  "share_to_json C s = map_err Serde (json_of_share C s)"

definition share_from_json :: "media_codec \<Rightarrow> bytes \<Rightarrow> (CeremonyError, sealed_share) result" where
  "share_from_json C bs = map_err Serde (share_of_json C bs)"

section \<open>Sets of media\<close>

definition SealedShareSet_seal ::
  "prims \<Rightarrow> media_codec \<Rightarrow> (nat \<Rightarrow> nat \<Rightarrow> bytes) \<Rightarrow> string \<Rightarrow> bytes \<Rightarrow> nat \<Rightarrow> string list \<Rightarrow> int
   \<Rightarrow> (CeremonyError, sealed_share list) result" where
  "SealedShareSet_seal P C fill root_kid seed t holders created_at =
     (let n = length holders
      in and_then (map_err (\<lambda>e. Shamir (TeeError_display e)) (shamir_split fill seed t n)) (\<lambda>S.
         Inr (map (\<lambda>(sh, holder). seal_share P C root_kid t n sh holder created_at)
                (zip (shares S) holders))))"

fun check_media ::
  "prims \<Rightarrow> media_codec \<Rightarrow> sealed_share \<Rightarrow> sealed_share list \<Rightarrow> (CeremonyError, unit) result" where
  "check_media P C first [] = Inr ()"
| "check_media P C first (s # ss) =
     and_then (verify_integrity P C s) (\<lambda>_.
     if ss_root_kid s \<noteq> ss_root_kid first \<or> ss_threshold s \<noteq> ss_threshold first \<or>
        ss_total s \<noteq> ss_total first
     then Inl (Malformed ''sealed share set'' ''shares are from different roots or parameter sets'')
     else check_media P C first ss)"

fun collect_map :: "('a \<Rightarrow> ('e, 'b) result) \<Rightarrow> 'a list \<Rightarrow> ('e, 'b list) result" where
  "collect_map f [] = Inr []"
| "collect_map f (x # xs) = and_then (f x) (\<lambda>y. and_then (collect_map f xs) (\<lambda>ys. Inr (y # ys)))"

definition SealedShareSet_combine ::
  "prims \<Rightarrow> media_codec \<Rightarrow> sealed_share list \<Rightarrow> (CeremonyError, bytes) result" where
  "SealedShareSet_combine P C ss =
     (case ss of
        [] \<Rightarrow> Inl (Malformed ''sealed share set'' ''no shares supplied'')
      | first # _ \<Rightarrow>
          and_then (check_media P C first ss) (\<lambda>_.
          if length ss < ss_threshold first
          then Inl (Shamir (''have '' @ dec (length ss) @ '' shares, need '' @ dec (ss_threshold first)))
          else
            and_then (collect_map (to_share P C) ss) (\<lambda>raw.
            and_then (map_err (\<lambda>e. Shamir (TeeError_display e)) (combine raw)) (\<lambda>secret.
            if length secret \<noteq> ROOT_SEED_LEN
            then Inl (Malformed ''reconstructed seed''
                   (''expected '' @ dec ROOT_SEED_LEN @ '' bytes, got '' @ dec (length secret)))
            else Inr secret))))"

section \<open>Destruction\<close>

record destruction_record =
  dr_path :: string
  dr_root_kid :: string
  dr_holder :: string
  dr_index :: u8
  dr_bytes_zeroized :: nat
  dr_verified :: bool
  dr_destroyed_at :: int

text \<open>
  What the operating system may answer: a failing call carries its message; a write that fails has
  stored some prefix.
\<close>

record media_faults =
  mf_read :: "string option"
  mf_open :: "string option"
  mf_write :: "(nat \<times> string) option"
  mf_flush :: "string option"
  mf_sync :: "string option"
  mf_read_back :: "string option"

definition path_display :: "fpath \<Rightarrow> string" where
  "path_display p = fst p @ ''/'' @ snd p"

definition fs_read :: "string option \<Rightarrow> disk \<Rightarrow> fpath \<Rightarrow> (string, bytes) result" where
  "fs_read fault d p =
     (case fault of
        Some e \<Rightarrow> Inl e
      | None \<Rightarrow> map_err (\<lambda>_. ''No such file or directory (os error 2)'') (disk_read d p))"

definition disk_update :: "fpath \<Rightarrow> bytes \<Rightarrow> disk \<Rightarrow> disk" where
  "disk_update p bs d = map (\<lambda>(q, old). (q, if q = p then bs else old)) d"

text \<open>
  \<open>overwrite_zeros\<close>: the file is opened without truncation, so bytes past \<open>len\<close> stay.
\<close>

definition overwrite_zeros ::
  "media_faults \<Rightarrow> fpath \<Rightarrow> nat \<Rightarrow> disk \<Rightarrow> (CeremonyError, unit) result \<times> disk" where
  "overwrite_zeros F p len d =
     (let err = (\<lambda>what e. Inl (Io (what @ path_display p @ '': '' @ e)))
      in case mf_open F of
           Some e \<Rightarrow> (err ''open '' e, d)
         | None \<Rightarrow>
             (case map_of d p of
                None \<Rightarrow> (err ''open '' ''No such file or directory (os error 2)'', d)
              | Some old \<Rightarrow>
                  (case mf_write F of
                     Some (k, e) \<Rightarrow>
                       (err ''overwrite '' e, disk_update p (replicate (min k len) 0 @ drop (min k len) old) d)
                   | None \<Rightarrow>
                       (case mf_flush F of
                          Some e \<Rightarrow> err ''flush '' e
                        | None \<Rightarrow> (case mf_sync F of Some e \<Rightarrow> err ''fsync '' e | None \<Rightarrow> Inr ()),
                        disk_update p (replicate len 0 @ drop len old) d))))"

fun first_nonzero :: "bytes \<Rightarrow> nat option" where
  "first_nonzero [] = None"
| "first_nonzero (b # bs) = (if b \<noteq> 0 then Some 0 else map_option Suc (first_nonzero bs))"

definition verify_destruction ::
  "prims \<Rightarrow> media_codec \<Rightarrow> string option \<Rightarrow> disk \<Rightarrow> fpath \<Rightarrow> (CeremonyError, unit) result" where
  "verify_destruction P C fault d p =
     and_then (map_err (\<lambda>e. Io (''read-back '' @ path_display p @ '': '' @ e)) (fs_read fault d p)) (\<lambda>after.
     case first_nonzero after of
       Some pos \<Rightarrow> Inl (NotDestroyed (path_display p @ '': non-zero byte at offset '' @ dec pos @ '' after zeroization''))
     | None \<Rightarrow>
         (case and_then (share_from_json C after) (to_share P C) of
            Inr _ \<Rightarrow> Inl (NotDestroyed (path_display p @ '': a usable share survived zeroization''))
          | Inl _ \<Rightarrow> Inr ()))"

definition destroy_media ::
  "prims \<Rightarrow> media_codec \<Rightarrow> media_faults \<Rightarrow> fpath \<Rightarrow> int \<Rightarrow> disk
   \<Rightarrow> (CeremonyError, destruction_record) result \<times> disk" where
  "destroy_media P C F p now d =
     (case fs_read (mf_read F) d p of
        Inl e \<Rightarrow> (Inl (Io (''read '' @ path_display p @ '': '' @ e)), d)
      | Inr original \<Rightarrow>
          (let (root_kid, holder, idx) =
                 (case share_from_json C original of
                    Inr s \<Rightarrow> (ss_root_kid s, ss_holder s, ss_index s)
                  | Inl _ \<Rightarrow> (''<unparseable>'', ''<unknown>'', 0));
               len = length original;
               (r, d') = overwrite_zeros F p len d
           in (and_then r (\<lambda>_. and_then (verify_destruction P C (mf_read_back F) d' p) (\<lambda>_.
                 Inr \<lparr>dr_path = path_display p, dr_root_kid = root_kid, dr_holder = holder, dr_index = idx,
                      dr_bytes_zeroized = len, dr_verified = True, dr_destroyed_at = now\<rparr>)), d')))"

section \<open>Integrity of a medium\<close>

text \<open>What the codecs promise, and the ranges of the Rust types.\<close>

definition media_codec_ok :: "media_codec \<Rightarrow> bool" where
  "media_codec_ok C \<longleftrightarrow> (\<forall>bs. std_decode C (std_encode C bs) = Inr bs)"

definition sealed_share_wf :: "sealed_share \<Rightarrow> bool" where
  "sealed_share_wf s \<longleftrightarrow>
     length (ss_root_kid s) < 2 ^ 64 \<and> length (ss_holder s) < 2 ^ 64 \<and>
     ss_threshold s < 2 ^ 64 \<and> ss_total s < 2 ^ 64 \<and> i64_range (ss_created_at s)"

lemma length_str_bytes [simp]: "length (str_bytes s) = length s"
  by (simp add: str_bytes_def)

lemma str_bytes_inject [simp]: "str_bytes s = str_bytes t \<longleftrightarrow> s = t"
proof -
  have "inj (of_char :: char \<Rightarrow> u8)"
  proof (rule injI)
    fix c d :: char
    assume "(of_char c :: u8) = of_char d"
    then have "(of_char c :: nat) mod 256 = of_char d mod 256"
      by (metis of_nat_of_char word_of_nat_u8_eq_iff)
    then show "c = d" by simp
  qed
  then show ?thesis
    unfolding str_bytes_def by (simp add: inj_map_eq_map)
qed

lemma be_i64_inject:
  assumes "i64_range x" and "i64_range y" and "be_i64 x = be_i64 y"
  shows "x = y"
proof -
  have "nat (x mod 2 ^ 64) = nat (y mod 2 ^ 64)"
    by (rule be_inject [of _ 8]) (use assms(3) in \<open>simp_all add: be_i64_def nat_less_iff del: be.simps\<close>)
  then have "x mod 2 ^ 64 = y mod 2 ^ 64"
    by simp
  then obtain k where "x - y = 2 ^ 64 * k"
    unfolding mod_eq_dvd_iff by (elim dvdE)
  moreover have "k = 0"
    using calculation assms(1,2) by (simp add: i64_range_def)
  ultimately show ?thesis by simp
qed

lemma length_be_i64 [simp]: "length (be_i64 x) = 8"
  by (simp add: be_i64_def del: be.simps)

lemma verify_integrity_Inr:
  "verify_integrity P C s = Inr () \<longleftrightarrow>
     ss_format s = SEALED_SHARE_MAGIC \<and> ss_version s = SEALED_SHARE_VERSION \<and> ss_index s \<noteq> 0 \<and>
     (\<exists>y. std_decode C (ss_share s) = Inr y \<and>
        ss_tag s = compute_tag P (ss_root_kid s) (ss_threshold s) (ss_total s) (ss_index s) (ss_holder s)
          (ss_created_at s) y)"
  by (auto simp: verify_integrity_def share_bytes_def result_simps)

lemma seal_share_simps [simp]:
  "ss_root_kid (seal_share P C k t n sh h c) = k" "ss_threshold (seal_share P C k t n sh h c) = t"
  "ss_total (seal_share P C k t n sh h c) = n" "ss_index (seal_share P C k t n sh h c) = share_x sh"
  "ss_holder (seal_share P C k t n sh h c) = h" "ss_created_at (seal_share P C k t n sh h c) = c"
  "ss_share (seal_share P C k t n sh h c) = std_encode C (share_y sh)"
  "ss_tag (seal_share P C k t n sh h c) = compute_tag P k t n (share_x sh) h c (share_y sh)"
  by (simp_all add: seal_share_def)

lemma seal_share_ok:
  assumes "media_codec_ok C" and "share_x sh \<noteq> 0"
  shows "verify_integrity P C (seal_share P C k t n sh h c) = Inr ()"
    and "to_share P C (seal_share P C k t n sh h c) = Inr sh"
proof -
  have y: "std_decode C (std_encode C (share_y sh)) = Inr (share_y sh)"
    using assms(1) by (simp add: media_codec_ok_def)
  show ok: "verify_integrity P C (seal_share P C k t n sh h c) = Inr ()"
    unfolding verify_integrity_Inr using assms(2) y by (simp add: seal_share_def)
  show "to_share P C (seal_share P C k t n sh h c) = Inr sh"
    by (simp add: to_share_def ok share_bytes_def y)
qed

lemma seal_share_facts:
  assumes "s = seal_share P C k t n sh h c" and "media_codec_ok C" and "share_x sh \<noteq> 0"
  shows "verify_integrity P C s = Inr ()" "to_share P C s = Inr sh" "ss_index s = share_x sh"
    "ss_root_kid s = k" "ss_threshold s = t" "ss_total s = n"
  using seal_share_ok [OF assms(2,3)] by (simp_all add: assms(1))

lemma tag_fields_inject:
  assumes "tag_fields k t n i h c y = tag_fields k' t' n' i' h' c' y'"
    and "t < 2 ^ 64" "n < 2 ^ 64" "i64_range c" "t' < 2 ^ 64" "n' < 2 ^ 64" "i64_range c'"
  shows "k = k' \<and> t = t' \<and> n = n' \<and> i = i' \<and> h = h' \<and> c = c' \<and> y = y'"
  using assms be_inject [of t 8 t'] be_inject [of n 8 n'] be_i64_inject [of c c']
  by (simp add: tag_fields_def del: be.simps)

lemma tag_determines:
  assumes s: "sealed_share_wf s" "verify_integrity P C s = Inr ()" "std_decode C (ss_share s) = Inr y"
    and s': "sealed_share_wf s'" "verify_integrity P C s' = Inr ()" "std_decode C (ss_share s') = Inr y'"
    and y: "length y < 2 ^ 64" "length y' < 2 ^ 64"
    and tag: "ss_tag s = ss_tag s'"
    and hex: "inj (hex_encode P)"
    and sha: "inj_on (sha3_256 P)
      {length_prefixed (tag_fields (ss_root_kid z) (ss_threshold z) (ss_total z) (ss_index z) (ss_holder z)
         (ss_created_at z) v) | z v. (z, v) \<in> {(s, y), (s', y')}}"
  shows "ss_root_kid s = ss_root_kid s' \<and> ss_threshold s = ss_threshold s' \<and> ss_total s = ss_total s' \<and>
    ss_index s = ss_index s' \<and> ss_holder s = ss_holder s' \<and> ss_created_at s = ss_created_at s' \<and> y = y'"
proof -
  define F where "F z = tag_fields (ss_root_kid z) (ss_threshold z) (ss_total z) (ss_index z) (ss_holder z)
    (ss_created_at z)" for z :: sealed_share
  have "hex_encode P (sha3_256 P (length_prefixed (F s y))) = hex_encode P (sha3_256 P (length_prefixed (F s' y')))"
    using s(2,3) s'(2,3) tag unfolding verify_integrity_Inr F_def compute_tag_def by auto
  then have "length_prefixed (F s y) = length_prefixed (F s' y')"
    using injD [OF hex] inj_onD [OF sha] unfolding F_def by blast
  moreover have "\<forall>p\<in>set (F z v). length p < 2 ^ 64" if "sealed_share_wf z" "length v < 2 ^ 64" for z v
    using that by (simp add: F_def tag_fields_def sealed_share_wf_def SEALED_SHARE_MAGIC_def del: be.simps)
  ultimately have "F s y = F s' y'"
    using length_prefixed_inject s(1) s'(1) y by blast
  then show ?thesis
    using s(1) s'(1) unfolding F_def sealed_share_wf_def by (intro tag_fields_inject) simp_all
qed

section \<open>Recovery\<close>

lemma check_media_ok:
  assumes "\<forall>s\<in>set ss. verify_integrity P C s = Inr () \<and> ss_root_kid s = ss_root_kid first \<and>
      ss_threshold s = ss_threshold first \<and> ss_total s = ss_total first"
  shows "check_media P C first ss = Inr ()"
  using assms by (induction ss) auto

lemma collect_map_ok:
  assumes "\<forall>x\<in>set xs. f x = Inr (g x)"
  shows "collect_map f xs = Inr (map g xs)"
  using assms by (induction xs) auto

lemma combine_media_ok:
  assumes C: "media_codec_ok C" and fill: "\<And>i n. length (fill i n) = n"
    and seal: "SealedShareSet_seal P C fill kid seed t holders created_at = Inr media"
    and sub: "set ss \<subseteq> set media" and dist: "distinct (map ss_index ss)" and enough: "t \<le> length ss"
    and len: "length seed = ROOT_SEED_LEN"
  shows "SealedShareSet_combine P C ss = Inr seed"
proof -
  let ?n = "length holders"
  obtain S where S: "shamir_split fill seed t ?n = Inr S"
    and media: "media = map (\<lambda>(sh, h). seal_share P C kid t ?n sh h created_at) (zip (shares S) holders)"
    using seal by (auto simp: SealedShareSet_seal_def Let_def result_simps)
  have t: "0 < t" using S shamir_split_Inr [OF fill] by simp
  have "\<exists>sh h. sh \<in> set (shares S) \<and> s = seal_share P C kid t ?n sh h created_at" if "s \<in> set ss" for s
    using that sub media by (auto dest!: subsetD set_zip_leftD)
  then obtain f where f: "\<And>s. s \<in> set ss \<Longrightarrow> f s \<in> set (shares S) \<and> (\<exists>h. s = seal_share P C kid t ?n (f s) h created_at)"
    by metis
  have nz: "share_x sh \<noteq> 0" if "sh \<in> set (shares S)" for sh
    using split_share [OF fill S that] by simp
  have ok: "verify_integrity P C s = Inr () \<and> to_share P C s = Inr (f s) \<and> ss_index s = share_x (f s) \<and>
    ss_root_kid s = kid \<and> ss_threshold s = t \<and> ss_total s = ?n" if mem: "s \<in> set ss" for s
  proof -
    obtain h where s: "s = seal_share P C kid t ?n (f s) h created_at" and x: "share_x (f s) \<noteq> 0"
      using f [OF mem] nz by blast
    show ?thesis
      using seal_share_facts [OF s C x] by simp
  qed
  obtain first rest where ss: "ss = first # rest"
    using enough t by (cases ss) auto
  have "check_media P C first ss = Inr ()"
    by (rule check_media_ok) (use ok ss in simp)
  moreover have "collect_map (to_share P C) ss = Inr (map f ss)"
    by (rule collect_map_ok) (use ok in simp)
  moreover have "combine (map f ss) = Inr seed"
  proof (rule combine_shares_of_split [OF fill S])
    have "map share_x (map f ss) = map ss_index ss"
      using ok by simp
    then show "distinct (map share_x (map f ss))"
      using dist by (rule ssubst)
  qed (use f enough in auto)
  ultimately show ?thesis
    using enough ok [of first] len ss by (simp add: SealedShareSet_combine_def)
qed

section \<open>Destroyed media\<close>

lemma disk_update_map: "map_of (disk_update p bs d) q = (if q = p then map_option (\<lambda>_. bs) (map_of d p) else map_of d q)"
  by (induction d) (auto simp: disk_update_def)

lemma first_nonzero_None: "first_nonzero bs = None \<longleftrightarrow> bs = replicate (length bs) 0"
  by (induction bs) auto

lemma fs_read_Inr: "fs_read fault d p = Inr bs \<longleftrightarrow> fault = None \<and> map_of d p = Some bs"
  by (auto simp: fs_read_def disk_read_def split: option.splits)

lemma overwrite_zeros_frame:
  assumes "overwrite_zeros F p len d = (r, d')"
  shows "q \<noteq> p \<Longrightarrow> map_of d' q = map_of d q"
    and "map_of d p = Some old \<Longrightarrow> \<exists>k\<le>len. map_of d' p = Some (replicate k 0 @ drop k old)"
    and "r = Inr () \<Longrightarrow> map_of d p = Some old \<Longrightarrow> map_of d' p = Some (replicate len 0 @ drop len old)"
proof -
  show "map_of d' q = map_of d q" if "q \<noteq> p"
    using assms that by (auto simp: overwrite_zeros_def Let_def disk_update_map split: option.splits)
  show "r = Inr () \<Longrightarrow> map_of d p = Some old \<Longrightarrow> map_of d' p = Some (replicate len 0 @ drop len old)"
    using assms by (auto simp: overwrite_zeros_def Let_def disk_update_map split: option.splits)
  assume old: "map_of d p = Some old"
  consider "d' = d" | k where "d' = disk_update p (replicate (min k len) 0 @ drop (min k len) old) d"
    | "d' = disk_update p (replicate len 0 @ drop len old) d"
    using assms old by (auto simp: overwrite_zeros_def Let_def split: option.splits)
  then show "\<exists>k\<le>len. map_of d' p = Some (replicate k 0 @ drop k old)"
  proof cases
    case 1
    then show ?thesis using old by (intro exI [of _ 0]) simp
  next
    case (2 k)
    then show ?thesis using old by (intro exI [of _ "min k len"]) (simp add: disk_update_map)
  next
    case 3
    then show ?thesis using old by (intro exI [of _ len]) (simp add: disk_update_map)
  qed
qed

lemma verify_destruction_Inr:
  "verify_destruction P C fault d p = Inr () \<longleftrightarrow>
     (\<exists>n. fault = None \<and> map_of d p = Some (replicate n 0) \<and>
        (\<forall>sh. and_then (share_from_json C (replicate n 0)) (to_share P C) \<noteq> Inr sh))"
proof -
  have "first_nonzero bs = None \<longleftrightarrow> (\<exists>n. bs = replicate n 0)" for bs
    by (metis first_nonzero_None length_replicate)
  then show ?thesis
    by (fastforce simp: verify_destruction_def and_then_Inr_iff map_err_Inr_iff fs_read_Inr
        split: option.splits sum.splits)
qed

lemma destroy_media_frame:
  assumes "destroy_media P C F p now d = (r, d')" and "map_of d p = Some old"
  shows "q \<noteq> p \<Longrightarrow> map_of d' q = map_of d q"
    and "\<exists>k\<le>length old. map_of d' p = Some (replicate k 0 @ drop k old)"
proof -
  have "d' = d \<or> (\<exists>r'. overwrite_zeros F p (length old) d = (r', d'))"
    using assms by (auto simp: destroy_media_def fs_read_def disk_read_def Let_def split: option.splits prod.splits)
  then show "q \<noteq> p \<Longrightarrow> map_of d' q = map_of d q"
    using overwrite_zeros_frame(1) by blast
  from \<open>d' = d \<or> _\<close> show "\<exists>k\<le>length old. map_of d' p = Some (replicate k 0 @ drop k old)"
  proof
    assume "d' = d"
    with assms(2) show ?thesis by (intro exI [of _ 0]) simp
  next
    assume "\<exists>r'. overwrite_zeros F p (length old) d = (r', d')"
    with assms(2) overwrite_zeros_frame(2) show ?thesis by blast
  qed
qed

lemma destroy_media_Inr:
  assumes "destroy_media P C F p now d = (Inr rec, d')"
  obtains old where "map_of d p = Some old" and "map_of d' p = Some (replicate (length old) 0)"
    and "dr_bytes_zeroized rec = length old" and "dr_verified rec" and "dr_path rec = path_display p"
    and "verify_destruction P C None d' p = Inr ()"
    and "\<And>s. share_from_json C old = Inr s \<Longrightarrow>
      dr_root_kid rec = ss_root_kid s \<and> dr_holder rec = ss_holder s \<and> dr_index rec = ss_index s"
proof -
  obtain old where old: "fs_read (mf_read F) d p = Inr old"
    using assms by (cases "fs_read (mf_read F) d p") (auto simp: destroy_media_def)
  have m: "map_of d p = Some old"
    using old by (simp add: fs_read_Inr)
  have o: "overwrite_zeros F p (length old) d = (Inr (), d')"
    and v: "verify_destruction P C (mf_read_back F) d' p = Inr ()"
    using assms old by (auto simp: destroy_media_def Let_def and_then_Inr_iff split: prod.splits)
  have "mf_read_back F = None"
    using v by (auto simp: verify_destruction_Inr)
  with v have v': "verify_destruction P C None d' p = Inr ()" by simp
  have z: "map_of d' p = Some (replicate (length old) 0)"
    using overwrite_zeros_frame(3) [OF o refl m] by simp
  show ?thesis
    by (rule that [OF m z _ _ _ v'])
      (use assms old in \<open>auto simp: destroy_media_def Let_def and_then_Inr_iff split: prod.splits\<close>)
qed

section \<open>Properties\<close>

text \<open>
  C29. The root seed survives the ceremony. Sealing splits the seed onto one medium per holder; any
  collection of at least \<open>threshold\<close> of those media with distinct indices, in any order, passes the
  integrity checks and recombines to exactly the seed, whatever the random coefficients were.
\<close>

theorem media_recover_seed:
  assumes "media_codec_ok C" and "\<And>i n. length (fill i n) = n"
    and "SealedShareSet_seal P C fill kid seed t holders created_at = Inr media"
    and "set ss \<subseteq> set media" and "distinct (map ss_index ss)" and "t \<le> length ss"
    and "length seed = ROOT_SEED_LEN"
  shows "SealedShareSet_combine P C ss = Inr seed"
  using assms by (rule combine_media_ok)

text \<open>
  C30. Tamper evidence. Two media that pass the integrity check under the same tag agree on every
  field the tag covers (root, threshold, total, index, holder, time and share bytes), unless the two
  tagged strings are a collision of SHA3-256: the length-prefixed encoding is unambiguous.
\<close>

theorem media_tag_determines_fields:
  assumes "sealed_share_wf s" and "verify_integrity P C s = Inr ()" and "std_decode C (ss_share s) = Inr y"
    and "sealed_share_wf s'" and "verify_integrity P C s' = Inr ()" and "std_decode C (ss_share s') = Inr y'"
    and "length y < 2 ^ 64" and "length y' < 2 ^ 64"
    and "ss_tag s = ss_tag s'" and "inj (hex_encode P)"
    and "inj_on (sha3_256 P)
      {length_prefixed (tag_fields (ss_root_kid z) (ss_threshold z) (ss_total z) (ss_index z) (ss_holder z)
         (ss_created_at z) v) | z v. (z, v) \<in> {(s, y), (s', y')}}"
  shows "ss_root_kid s = ss_root_kid s' \<and> ss_threshold s = ss_threshold s' \<and> ss_total s = ss_total s' \<and>
    ss_index s = ss_index s' \<and> ss_holder s = ss_holder s' \<and> ss_created_at s = ss_created_at s' \<and> y = y'"
  using assms by (rule tag_determines)

text \<open>
  C31. A destruction record is never wrong, whichever system calls fail: if \<open>destroy_media\<close> returns
  one, every byte of the medium is zero, its length is the recorded one, a later audit with
  \<open>verify_destruction\<close> passes and the record names the share that was there. In every outcome, errors
  included, other files are untouched and the medium is the old content with a prefix zeroed.
\<close>

theorem destruction_record_truthful:
  assumes "destroy_media P C F p now d = (r, d')" and "map_of d p = Some old"
  shows "(\<forall>q. q \<noteq> p \<longrightarrow> map_of d' q = map_of d q) \<and>
    (\<exists>k\<le>length old. map_of d' p = Some (replicate k 0 @ drop k old)) \<and>
    (\<forall>rec. r = Inr rec \<longrightarrow> map_of d' p = Some (replicate (dr_bytes_zeroized rec) 0) \<and>
       dr_bytes_zeroized rec = length old \<and> verify_destruction P C None d' p = Inr () \<and>
       (\<forall>s. share_from_json C old = Inr s \<longrightarrow>
          dr_root_kid rec = ss_root_kid s \<and> dr_holder rec = ss_holder s \<and> dr_index rec = ss_index s))"
proof (intro conjI)
  show "\<forall>q. q \<noteq> p \<longrightarrow> map_of d' q = map_of d q" "\<exists>k\<le>length old. map_of d' p = Some (replicate k 0 @ drop k old)"
    using destroy_media_frame [OF assms] by blast+
  show "\<forall>rec. r = Inr rec \<longrightarrow> map_of d' p = Some (replicate (dr_bytes_zeroized rec) 0) \<and>
       dr_bytes_zeroized rec = length old \<and> verify_destruction P C None d' p = Inr () \<and>
       (\<forall>s. share_from_json C old = Inr s \<longrightarrow>
          dr_root_kid rec = ss_root_kid s \<and> dr_holder rec = ss_holder s \<and> dr_index rec = ss_index s)"
  proof (intro allI impI)
    fix rec
    assume "r = Inr rec"
    with assms(1) have "destroy_media P C F p now d = (Inr rec, d')" by simp
    then show "map_of d' p = Some (replicate (dr_bytes_zeroized rec) 0) \<and>
       dr_bytes_zeroized rec = length old \<and> verify_destruction P C None d' p = Inr () \<and>
       (\<forall>s. share_from_json C old = Inr s \<longrightarrow>
          dr_root_kid rec = ss_root_kid s \<and> dr_holder rec = ss_holder s \<and> dr_index rec = ss_index s)"
      by (rule destroy_media_Inr) (use assms(2) in auto)
  qed
qed

section \<open>Witnesses\<close>

definition toy_media :: media_codec where
  "toy_media = \<lparr>std_encode = map (\<lambda>b. char_of (unat b)), std_decode = (\<lambda>s. Inr (map (\<lambda>c. word_of_nat (of_char c)) s)),
     json_of_share = (\<lambda>s. Inr [1]), share_of_json = (\<lambda>bs. Inl ''expected value'')\<rparr>"

lemma toy_media_ok: "media_codec_ok toy_media"
  by (simp add: media_codec_ok_def toy_media_def toy_b64)

theorem destruction_record_truthful_witness:
  "(let F = \<lparr>mf_read = None, mf_open = None, mf_write = None, mf_flush = None, mf_sync = None, mf_read_back = None\<rparr>;
        p = (''media'', ''share-1.json''); (r, d') = destroy_media toy_prims toy_media F p 9 [(p, [1, 2, 3])]
    in map_of d' p = Some (replicate 3 0) \<and> map_option dr_verified (case r of Inr x \<Rightarrow> Some x | Inl _ \<Rightarrow> None) = Some True)"
proof -
  define F :: media_faults where
    "F = \<lparr>mf_read = None, mf_open = None, mf_write = None, mf_flush = None, mf_sync = None, mf_read_back = None\<rparr>"
  define p :: fpath where "p = (''media'', ''share-1.json'')"
  obtain rec d' where r: "destroy_media toy_prims toy_media F p 9 [(p, [1, 2, 3])] = (Inr rec, d')" and v: "dr_verified rec"
    by (auto simp: destroy_media_def fs_read_def disk_read_def overwrite_zeros_def verify_destruction_def
        share_from_json_def toy_media_def F_def disk_update_def)
  have "map_of d' p = Some (replicate 3 0)"
    using destruction_record_truthful [OF r, of "[1, 2, 3]"] by (auto simp: numeral_3_eq_3)
  with r v show ?thesis
    unfolding Let_def F_def [symmetric] p_def [symmetric] by simp
qed

lemma toy_hex_inj: "inj (hex_encode toy_prims)"
proof (rule injI)
  fix a b
  assume "hex_encode toy_prims a = hex_encode toy_prims b"
  then have "map (\<lambda>c. word_of_nat (of_char c) :: u8) (map (\<lambda>b. char_of (unat b)) a) =
      map (\<lambda>c. word_of_nat (of_char c)) (map (\<lambda>b. char_of (unat b)) b)"
    by (simp add: toy_prims_def)
  then show "a = b"
    unfolding map_map toy_b64 .
qed

text \<open>A lenient decoder, so that two different texts carry the same share bytes.\<close>

definition toy_lenient :: media_codec where
  "toy_lenient = toy_media\<lparr>std_decode := (\<lambda>s. Inr [7, 8])\<rparr>"

definition toy_medium :: sealed_share where
  "toy_medium = seal_share toy_prims toy_lenient ''root-2026'' 3 5 \<lparr>share_x = 1, share_y = [7, 8]\<rparr> ''op-1'' 1000"

theorem media_tag_determines_fields_witness:
  "let s = toy_medium; s' = toy_medium\<lparr>ss_share := ''other text''\<rparr> in s \<noteq> s' \<and>
     verify_integrity toy_prims toy_lenient s' = Inr () \<and> ss_holder s' = ''op-1'' \<and> ss_index s = ss_index s'"
proof -
  define s' where "s' = toy_medium\<lparr>ss_share := ''other text''\<rparr>"
  have "s' \<noteq> toy_medium"
    by (auto simp: s'_def toy_medium_def seal_share_def toy_lenient_def toy_media_def dest: arg_cong [where f = "length \<circ> ss_share"])
  moreover have dec: "std_decode toy_lenient (ss_share z) = Inr [7, 8]" for z
    by (simp add: toy_lenient_def)
  moreover have wf: "sealed_share_wf toy_medium" "sealed_share_wf s'"
    by (simp_all add: s'_def toy_medium_def sealed_share_wf_def i64_range_def)
  moreover have ok: "verify_integrity toy_prims toy_lenient toy_medium = Inr ()"
    "verify_integrity toy_prims toy_lenient s' = Inr ()"
    unfolding verify_integrity_Inr dec by (simp_all add: s'_def toy_medium_def seal_share_def)
  moreover have fields: "ss_root_kid s' = ss_root_kid toy_medium" "ss_threshold s' = ss_threshold toy_medium"
    "ss_total s' = ss_total toy_medium" "ss_index s' = ss_index toy_medium" "ss_holder s' = ss_holder toy_medium"
    "ss_created_at s' = ss_created_at toy_medium" "ss_tag toy_medium = ss_tag s'"
    by (simp_all add: s'_def)
  moreover have "inj_on (sha3_256 toy_prims)
      {length_prefixed (tag_fields (ss_root_kid z) (ss_threshold z) (ss_total z) (ss_index z) (ss_holder z)
         (ss_created_at z) v) | z v. (z, v) \<in> {(toy_medium, [7, 8]), (s', [7, 8])}}"
    by (rule inj_onI) (auto simp: fields)
  moreover note media_tag_determines_fields [OF wf(1) ok(1) dec wf(2) ok(2) dec _ _ fields(7) toy_hex_inj calculation(14)]
  ultimately show ?thesis
    by (simp add: Let_def s'_def [symmetric]) (simp add: toy_medium_def)
qed

theorem media_recover_seed_witness:
  "let seed = replicate 32 9; media = projr (SealedShareSet_seal toy_prims toy_media (\<lambda>i n. replicate n 5) ''root'' seed 2
        [''op-1'', ''op-2'', ''op-3''] 1000)
   in length media = 3 \<and> SealedShareSet_combine toy_prims toy_media [media ! 2, media ! 0] = Inr seed"
proof -
  define fill :: "nat \<Rightarrow> nat \<Rightarrow> bytes" where "fill = (\<lambda>i n. replicate n 5)"
  have fill: "\<And>i n. length (fill i n) = n" by (simp add: fill_def)
  define seed :: bytes where "seed = replicate 32 9"
  define S where "S = \<lparr>threshold = 2, total = 3, shares = map (share_at fill 2 seed) [1..<Suc 3]\<rparr>"
  define media where "media = map (\<lambda>(sh, h). seal_share toy_prims toy_media ''root'' 2 3 sh h 1000)
    (zip (shares S) [''op-1'', ''op-2'', ''op-3''])"
  have "shamir_split fill seed 2 3 = Inr S"
    unfolding shamir_split_Inr [OF fill] by (simp add: S_def)
  then have seal: "SealedShareSet_seal toy_prims toy_media fill ''root'' seed 2 [''op-1'', ''op-2'', ''op-3''] 1000 = Inr media"
    by (simp add: SealedShareSet_seal_def media_def eval_nat_numeral)
  have len: "length media = 3"
    by (simp add: media_def S_def)
  have idx: "ss_index (media ! 0) = 1" "ss_index (media ! 2) = 3"
    by (simp_all add: media_def S_def share_at_def upt_rec)
  have "SealedShareSet_combine toy_prims toy_media [media ! 2, media ! 0] = Inr seed"
    by (rule media_recover_seed [OF toy_media_ok fill seal])
      (use len in \<open>auto simp: idx seed_def ROOT_SEED_LEN_def\<close>)
  with len seal show ?thesis
    by (simp add: Let_def fill_def [symmetric] seed_def [symmetric])
qed

end
