(* ===== verification/Ceremony.thy ===== *)
theory Ceremony
  imports Media
begin

text \<open>
  \<open>crates/ferro-ceremony\<close>: the cross-signatures of two roots (\<open>crosssign.rs\<close>) and the signed
  minutes (\<open>minutes.rs\<close>), on top of the composite signatures of \<open>Composite\<close>. The JSON encodings
  are arguments; the 32 random bytes of a signature are passed to the operation that signs.
\<close>

section \<open>Cross-signatures\<close>

definition CROSSSIGN_CONTEXT :: bytes where
  "CROSSSIGN_CONTEXT = str_bytes ''ferrogate-root-crosssign-v1''"

definition DEFAULT_WINDOW_SECS :: int where
  "DEFAULT_WINDOW_SECS = 90 * 24 * 60 * 60"

datatype CrossSignDirection = OldSignsNew | NewSignsOld

fun direction_debug :: "CrossSignDirection \<Rightarrow> string" where
  "direction_debug OldSignsNew = ''OldSignsNew''"
| "direction_debug NewSignsOld = ''NewSignsOld''"

record cross_sign_bundle =
  cs_version :: u32
  cs_old_kid :: string
  cs_old_pub :: string
  cs_new_kid :: string
  cs_new_pub :: string
  cs_window_start :: int
  cs_window_end :: int
  cs_old_signs_new :: string
  cs_new_signs_old :: string

definition crosssign_transcript :: "string \<Rightarrow> bytes \<Rightarrow> string \<Rightarrow> bytes \<Rightarrow> int \<Rightarrow> int \<Rightarrow> bytes" where
  "crosssign_transcript signer_kid signer_pub subject_kid subject_pub window_start window_end =
     length_prefixed [str_bytes signer_kid, signer_pub, str_bytes subject_kid, subject_pub,
       be_i64 window_start, be_i64 window_end]"

definition bundle_create ::
  "prims \<Rightarrow> media_codec \<Rightarrow> bytes \<Rightarrow> bytes \<Rightarrow> composite_secret_key \<Rightarrow> string \<Rightarrow> composite_public_key \<Rightarrow>
   composite_secret_key \<Rightarrow> string \<Rightarrow> composite_public_key \<Rightarrow> int \<Rightarrow> int \<Rightarrow> (CeremonyError, cross_sign_bundle) result" where
  "bundle_create P C rnd rnd' old_sk old_kid old_pk new_sk new_kid new_pk window_start window_secs =
     (let old_bytes = pk_to_concat_bytes old_pk;
          new_bytes = pk_to_concat_bytes new_pk;
          window_end = saturating_add_i64 window_start window_secs
      in and_then (map_err (\<lambda>e. Signature (CompositeError_display e))
           (composite_sign P rnd old_sk CROSSSIGN_CONTEXT
             (crosssign_transcript old_kid old_bytes new_kid new_bytes window_start window_end))) (\<lambda>old_signs_new.
         and_then (map_err (\<lambda>e. Signature (CompositeError_display e))
           (composite_sign P rnd' new_sk CROSSSIGN_CONTEXT
             (crosssign_transcript new_kid new_bytes old_kid old_bytes window_start window_end))) (\<lambda>new_signs_old.
         Inr \<lparr>cs_version = 1, cs_old_kid = old_kid, cs_old_pub = std_encode C old_bytes,
              cs_new_kid = new_kid, cs_new_pub = std_encode C new_bytes,
              cs_window_start = window_start, cs_window_end = window_end,
              cs_old_signs_new = std_encode C (sig_to_concat_bytes old_signs_new),
              cs_new_signs_old = std_encode C (sig_to_concat_bytes new_signs_old)\<rparr>)))"

text \<open>The two decoders appear in both files with a different label.\<close>

definition decode_pub ::
  "prims \<Rightarrow> media_codec \<Rightarrow> string \<Rightarrow> string \<Rightarrow> (CeremonyError, composite_public_key) result" where
  "decode_pub P C what field =
     and_then (map_err (Malformed what) (std_decode C field)) (\<lambda>bs.
     map_err (\<lambda>e. Malformed what (CompositeError_display e)) (pk_from_concat_bytes P bs))"

definition decode_sig :: "media_codec \<Rightarrow> string \<Rightarrow> string \<Rightarrow> (CeremonyError, composite_signature) result" where
  "decode_sig C what field =
     and_then (map_err (Malformed what) (std_decode C field)) (\<lambda>bs.
     map_err (\<lambda>e. Malformed what (CompositeError_display e)) (sig_from_concat_bytes bs))"

definition verify_direction ::
  "prims \<Rightarrow> media_codec \<Rightarrow> cross_sign_bundle \<Rightarrow> CrossSignDirection \<Rightarrow> (CeremonyError, unit) result" where
  "verify_direction P C b dir =
     and_then (decode_pub P C ''cross-sign public key'' (cs_old_pub b)) (\<lambda>old_pk.
     and_then (decode_pub P C ''cross-sign public key'' (cs_new_pub b)) (\<lambda>new_pk.
     let old_bytes = pk_to_concat_bytes old_pk;
         new_bytes = pk_to_concat_bytes new_pk;
         (verifier, sig_field, signer_kid, signer_pub, subject_kid, subject_pub) =
           (case dir of
              OldSignsNew \<Rightarrow> (old_pk, cs_old_signs_new b, cs_old_kid b, old_bytes, cs_new_kid b, new_bytes)
            | NewSignsOld \<Rightarrow> (new_pk, cs_new_signs_old b, cs_new_kid b, new_bytes, cs_old_kid b, old_bytes))
     in and_then (decode_sig C ''cross-sign signature'' sig_field) (\<lambda>sig.
        let msg = crosssign_transcript signer_kid signer_pub subject_kid subject_pub
                    (cs_window_start b) (cs_window_end b)
        in map_err (\<lambda>e. Signature (direction_debug dir @ '': '' @ CompositeError_display e))
             (composite_verify P verifier CROSSSIGN_CONTEXT msg sig))))"

definition bundle_verify :: "prims \<Rightarrow> media_codec \<Rightarrow> cross_sign_bundle \<Rightarrow> (CeremonyError, unit) result" where
  "bundle_verify P C b =
     and_then (verify_direction P C b OldSignsNew) (\<lambda>_.
     and_then (verify_direction P C b NewSignsOld) (\<lambda>_. Inr ()))"

section \<open>Minutes\<close>

definition MINUTES_CONTEXT :: bytes where
  "MINUTES_CONTEXT = str_bytes ''ferrogate-ceremony-minutes-v1''"

datatype CeremonyKind = Rotation | ShareRefresh | Destruction

record participant =
  pt_name :: string
  pt_role :: string
  pt_kid :: string
  pt_pubkey :: string

record artefact_digest =
  ad_label :: string
  ad_sha3_256 :: string

record ceremony_minutes =
  cm_version :: u32
  cm_ceremony_id :: string
  cm_kind :: CeremonyKind
  cm_occurred_at :: int
  cm_location :: string
  cm_trust_domain :: string
  cm_old_root_kid :: "string option"
  cm_new_root_kid :: "string option"
  cm_threshold :: nat
  cm_total :: nat
  cm_participants :: "participant list"
  cm_artefacts :: "artefact_digest list"
  cm_notes :: string

record participant_signature =
  ps_kid :: string
  ps_sig :: string

record signed_minutes =
  minutes :: ceremony_minutes
  signatures :: "participant_signature list"

type_synonym minutes_json = "ceremony_minutes \<Rightarrow> (string, bytes) result"

definition signing_bytes :: "minutes_json \<Rightarrow> ceremony_minutes \<Rightarrow> (CeremonyError, bytes) result" where
  "signing_bytes J cm = map_err Serde (J cm)"

definition find_participant :: "ceremony_minutes \<Rightarrow> string \<Rightarrow> participant option" where
  "find_participant cm kid = List.find (\<lambda>p. pt_kid p = kid) (cm_participants cm)"

definition SignedMinutes_new :: "ceremony_minutes \<Rightarrow> signed_minutes" where
  "SignedMinutes_new cm = \<lparr>minutes = cm, signatures = []\<rparr>"

definition minutes_sign ::
  "prims \<Rightarrow> media_codec \<Rightarrow> minutes_json \<Rightarrow> bytes \<Rightarrow> string \<Rightarrow> composite_secret_key \<Rightarrow> signed_minutes
   \<Rightarrow> (CeremonyError, unit) result \<times> signed_minutes" where
  "minutes_sign P C J rnd kid sk sm =
     (let r =
        and_then (ok_or (Malformed ''minutes signature'' (debug_str kid @ '' is not a listed participant''))
          (find_participant (minutes sm) kid)) (\<lambda>p.
        if list_ex (\<lambda>s. ps_kid s = kid) (signatures sm)
        then Inl (Malformed ''minutes signature'' (debug_str kid @ '' has already signed''))
        else and_then (decode_pub P C ''participant public key'' (pt_pubkey p)) (\<lambda>recorded.
          and_then (signing_bytes J (minutes sm)) (\<lambda>msg.
          and_then (map_err (\<lambda>e. Signature (CompositeError_display e)) (composite_sign P rnd sk MINUTES_CONTEXT msg)) (\<lambda>sig.
          and_then (map_err (\<lambda>_. Malformed ''minutes signature''
              (''key does not match recorded public key for '' @ debug_str kid))
            (composite_verify P recorded MINUTES_CONTEXT msg sig)) (\<lambda>_.
          Inr sig)))))
      in case r of
           Inl e \<Rightarrow> (Inl e, sm)
         | Inr sig \<Rightarrow>
             (Inr (), sm\<lparr>signatures := signatures sm @
                [\<lparr>ps_kid = kid, ps_sig = std_encode C (sig_to_concat_bytes sig)\<rparr>]\<rparr>))"

fun verify_participants ::
  "prims \<Rightarrow> media_codec \<Rightarrow> bytes \<Rightarrow> participant_signature list \<Rightarrow> participant list \<Rightarrow> (CeremonyError, unit) result" where
  "verify_participants P C msg sigs [] = Inr ()"
| "verify_participants P C msg sigs (p # ps) =
     and_then (ok_or (Signature (''missing signature from '' @ debug_str (pt_kid p)))
       (List.find (\<lambda>s. ps_kid s = pt_kid p) sigs)) (\<lambda>entry.
     and_then (decode_pub P C ''participant public key'' (pt_pubkey p)) (\<lambda>pk.
     and_then (decode_sig C ''participant signature'' (ps_sig entry)) (\<lambda>sig.
     and_then (map_err (\<lambda>e. Signature (debug_str (pt_kid p) @ '': '' @ CompositeError_display e))
       (composite_verify P pk MINUTES_CONTEXT msg sig)) (\<lambda>_.
     verify_participants P C msg sigs ps))))"

fun reject_unlisted :: "ceremony_minutes \<Rightarrow> participant_signature list \<Rightarrow> (CeremonyError, unit) result" where
  "reject_unlisted cm [] = Inr ()"
| "reject_unlisted cm (s # ss) =
     (if find_participant cm (ps_kid s) = None
      then Inl (Signature (''signature from unlisted participant '' @ debug_str (ps_kid s)))
      else reject_unlisted cm ss)"

definition verify_all ::
  "prims \<Rightarrow> media_codec \<Rightarrow> minutes_json \<Rightarrow> signed_minutes \<Rightarrow> (CeremonyError, unit) result" where
  "verify_all P C J sm =
     and_then (signing_bytes J (minutes sm)) (\<lambda>msg.
     and_then (verify_participants P C msg (signatures sm) (cm_participants (minutes sm))) (\<lambda>_.
     reject_unlisted (minutes sm) (signatures sm)))"

definition signed_count :: "signed_minutes \<Rightarrow> nat" where
  "signed_count sm =
     length (filter (\<lambda>p. list_ex (\<lambda>s. ps_kid s = pt_kid p) (signatures sm)) (cm_participants (minutes sm)))"

section \<open>Keys and signatures on the media\<close>

lemma decode_pub_encode:
  assumes "media_codec_ok C" and "composite_key_ok P pk"
  shows "decode_pub P C what (std_encode C (pk_to_concat_bytes pk)) = Inr pk"
  using assms
  by (simp add: decode_pub_def media_codec_ok_def composite_key_ok_def pk_to_concat_bytes_def
      pk_from_concat_bytes_def COMPOSITE_PK_LEN_def)

lemma decode_sig_encode:
  assumes "media_codec_ok C" and "length (classical sig) = ED25519_SIG_LEN" and "length (pqc sig) = MLDSA65_SIG_LEN"
  shows "decode_sig C what (std_encode C (sig_to_concat_bytes sig)) = Inr sig"
  using assms by (simp add: decode_sig_def media_codec_ok_def sig_concat_roundtrip)

lemma decode_pub_bytes:
  assumes "key_codec_ok P" and "decode_pub P C what field = Inr pk"
  shows "std_decode C field = Inr (pk_to_concat_bytes pk)" and "length (pk_to_concat_bytes pk) = COMPOSITE_PK_LEN"
proof -
  obtain bs where bs: "std_decode C field = Inr bs" "pk_from_concat_bytes P bs = Inr pk"
    using assms(2) by (auto simp: decode_pub_def result_simps)
  have len: "length bs = COMPOSITE_PK_LEN"
    using bs(2) by (simp add: pk_from_concat_bytes_def split: if_splits)
  have "pk = \<lparr>pk_ed25519 = take ED25519_PK_LEN bs, pk_mldsa65 = drop ED25519_PK_LEN bs\<rparr>"
    using bs(2) len assms(1) by (auto simp: pk_from_concat_bytes_def result_simps key_codec_ok_def)
  then have "pk_to_concat_bytes pk = bs"
    by (simp add: pk_to_concat_bytes_def)
  with bs(1) len show "std_decode C field = Inr (pk_to_concat_bytes pk)"
    "length (pk_to_concat_bytes pk) = COMPOSITE_PK_LEN" by simp_all
qed

section \<open>Cross-signed roots\<close>

text \<open>The parts of a bundle that a direction speaks about: key id and key text.\<close>

fun dir_signer :: "cross_sign_bundle \<Rightarrow> CrossSignDirection \<Rightarrow> string \<times> string" where
  "dir_signer b OldSignsNew = (cs_old_kid b, cs_old_pub b)"
| "dir_signer b NewSignsOld = (cs_new_kid b, cs_new_pub b)"

fun dir_subject :: "cross_sign_bundle \<Rightarrow> CrossSignDirection \<Rightarrow> string \<times> string" where
  "dir_subject b OldSignsNew = (cs_new_kid b, cs_new_pub b)"
| "dir_subject b NewSignsOld = (cs_old_kid b, cs_old_pub b)"

fun dir_sig :: "cross_sign_bundle \<Rightarrow> CrossSignDirection \<Rightarrow> string" where
  "dir_sig b OldSignsNew = cs_old_signs_new b"
| "dir_sig b NewSignsOld = cs_new_signs_old b"

definition bundle_wf :: "cross_sign_bundle \<Rightarrow> bool" where
  "bundle_wf b \<longleftrightarrow> length (cs_old_kid b) < 2 ^ 64 \<and> length (cs_new_kid b) < 2 ^ 64 \<and>
     i64_range (cs_window_start b) \<and> i64_range (cs_window_end b)"

lemma verify_direction_Inr:
  "verify_direction P C b dir = Inr () \<longleftrightarrow>
     (\<exists>pk sub sig. decode_pub P C ''cross-sign public key'' (snd (dir_signer b dir)) = Inr pk \<and>
        decode_pub P C ''cross-sign public key'' (snd (dir_subject b dir)) = Inr sub \<and>
        decode_sig C ''cross-sign signature'' (dir_sig b dir) = Inr sig \<and>
        composite_verify P pk CROSSSIGN_CONTEXT
          (crosssign_transcript (fst (dir_signer b dir)) (pk_to_concat_bytes pk) (fst (dir_subject b dir))
             (pk_to_concat_bytes sub) (cs_window_start b) (cs_window_end b)) sig = Inr ())"
  by (cases dir) (auto simp: verify_direction_def Let_def and_then_Inr_iff map_err_Inr_iff)

lemma transcript_inject:
  assumes "crosssign_transcript k p k' p' s e = crosssign_transcript l q l' q' s' e'"
    and "length k < 2 ^ 64" "length p < 2 ^ 64" "length k' < 2 ^ 64" "length p' < 2 ^ 64"
    and "length l < 2 ^ 64" "length q < 2 ^ 64" "length l' < 2 ^ 64" "length q' < 2 ^ 64"
    and "i64_range s" "i64_range e" "i64_range s'" "i64_range e'"
  shows "k = l \<and> p = q \<and> k' = l' \<and> p' = q' \<and> s = s' \<and> e = e'"
proof -
  have "[str_bytes k, p, str_bytes k', p', be_i64 s, be_i64 e] = [str_bytes l, q, str_bytes l', q', be_i64 s', be_i64 e']"
    by (rule length_prefixed_inject) (use assms in \<open>simp_all add: crosssign_transcript_def\<close>)
  then show ?thesis
    using assms be_i64_inject by simp
qed

text \<open>The string that is hashed and signed for a direction, with the keys as the bytes of their texts.\<close>

definition key_bytes :: "media_codec \<Rightarrow> string \<Rightarrow> bytes" where
  "key_bytes C field = (case std_decode C field of Inr bs \<Rightarrow> bs | Inl _ \<Rightarrow> [])"

definition dir_input :: "media_codec \<Rightarrow> cross_sign_bundle \<Rightarrow> CrossSignDirection \<Rightarrow> bytes" where
  "dir_input C b dir = transcript_input CROSSSIGN_CONTEXT
     (crosssign_transcript (fst (dir_signer b dir)) (key_bytes C (snd (dir_signer b dir)))
       (fst (dir_subject b dir)) (key_bytes C (snd (dir_subject b dir))) (cs_window_start b) (cs_window_end b))"

text \<open>Both halves of a composite signature accepted for a digest.\<close>

definition accepted_digest :: "prims \<Rightarrow> composite_public_key \<Rightarrow> composite_signature \<Rightarrow> bytes \<Rightarrow> bool" where
  "accepted_digest P pk s h \<longleftrightarrow> ed_verify_strict P (pk_ed25519 pk) h (classical s) \<and> ml_verify P (pk_mldsa65 pk) h (pqc s) []"

lemma direction_accepted:
  assumes P: "key_codec_ok P" and ok: "verify_direction P C b dir = Inr ()"
  obtains pk s where "decode_pub P C ''cross-sign public key'' (snd (dir_signer b dir)) = Inr pk"
    "decode_sig C ''cross-sign signature'' (dir_sig b dir) = Inr s"
    "accepted_digest P pk s (sha3_384 P (dir_input C b dir))"
    "length (key_bytes C (snd (dir_signer b dir))) < 2 ^ 64" "length (key_bytes C (snd (dir_subject b dir))) < 2 ^ 64"
    "std_decode C (snd (dir_subject b dir)) = Inr (key_bytes C (snd (dir_subject b dir)))"
proof -
  obtain pk sub s where b: "decode_pub P C ''cross-sign public key'' (snd (dir_signer b dir)) = Inr pk"
    "decode_pub P C ''cross-sign public key'' (snd (dir_subject b dir)) = Inr sub"
    "decode_sig C ''cross-sign signature'' (dir_sig b dir) = Inr s"
    "composite_verify P pk CROSSSIGN_CONTEXT (crosssign_transcript (fst (dir_signer b dir)) (pk_to_concat_bytes pk)
       (fst (dir_subject b dir)) (pk_to_concat_bytes sub) (cs_window_start b) (cs_window_end b)) s = Inr ()"
    using ok unfolding verify_direction_Inr by blast
  note keys = decode_pub_bytes [OF P b(1)] decode_pub_bytes [OF P b(2)]
  have bytes: "key_bytes C (snd (dir_signer b dir)) = pk_to_concat_bytes pk"
    "key_bytes C (snd (dir_subject b dir)) = pk_to_concat_bytes sub"
    using keys by (simp_all add: key_bytes_def)
  show ?thesis
  proof (rule that [OF b(1,3)])
    show "accepted_digest P pk s (sha3_384 P (dir_input C b dir))"
      using b(4) by (simp add: accepted_digest_def dir_input_def bytes composite_verify_iff transcript_hash_def)
  qed (use keys in \<open>simp_all add: bytes COMPOSITE_PK_LEN_def ED25519_PK_LEN_def MLDSA65_PK_LEN_def\<close>)
qed

lemma dir_input_inject:
  assumes "dir_input C b dir = dir_input C b' dir'" and wf: "bundle_wf b" "bundle_wf b'"
    and "length (key_bytes C (snd (dir_signer b dir))) < 2 ^ 64" "length (key_bytes C (snd (dir_subject b dir))) < 2 ^ 64"
    and "length (key_bytes C (snd (dir_signer b' dir'))) < 2 ^ 64" "length (key_bytes C (snd (dir_subject b' dir'))) < 2 ^ 64"
  shows "fst (dir_signer b dir) = fst (dir_signer b' dir')" "fst (dir_subject b dir) = fst (dir_subject b' dir')"
    "key_bytes C (snd (dir_subject b dir)) = key_bytes C (snd (dir_subject b' dir'))"
    "cs_window_start b = cs_window_start b'" "cs_window_end b = cs_window_end b'"
proof -
  have kids: "length (fst (dir_signer z d)) < 2 ^ 64" "length (fst (dir_subject z d)) < 2 ^ 64"
    "i64_range (cs_window_start z)" "i64_range (cs_window_end z)" if "bundle_wf z" for z d
    using that by (cases d; simp add: bundle_wf_def)+
  have "length CROSSSIGN_CONTEXT < 2 ^ 64"
    by (simp add: CROSSSIGN_CONTEXT_def)
  then have "crosssign_transcript (fst (dir_signer b dir)) (key_bytes C (snd (dir_signer b dir)))
       (fst (dir_subject b dir)) (key_bytes C (snd (dir_subject b dir))) (cs_window_start b) (cs_window_end b) =
     crosssign_transcript (fst (dir_signer b' dir')) (key_bytes C (snd (dir_signer b' dir')))
       (fst (dir_subject b' dir')) (key_bytes C (snd (dir_subject b' dir'))) (cs_window_start b') (cs_window_end b')"
    using assms(1) transcript_input_inject unfolding dir_input_def by blast
  note eqs = transcript_inject [OF this kids(1) [OF wf(1)] assms(4) kids(2) [OF wf(1)] assms(5)
      kids(1) [OF wf(2)] assms(6) kids(2) [OF wf(2)] assms(7) kids(3,4) [OF wf(1)] kids(3,4) [OF wf(2)]]
  then show "fst (dir_signer b dir) = fst (dir_signer b' dir')" "fst (dir_subject b dir) = fst (dir_subject b' dir')"
    "key_bytes C (snd (dir_subject b dir)) = key_bytes C (snd (dir_subject b' dir'))"
    "cs_window_start b = cs_window_start b'" "cs_window_end b = cs_window_end b'" by simp_all
qed

lemma bundle_create_Inr:
  assumes "bundle_create P C rnd rnd' old_sk old_kid old_pk new_sk new_kid new_pk ws secs = Inr b"
  obtains s1 s2 where
    "composite_sign P rnd old_sk CROSSSIGN_CONTEXT (crosssign_transcript old_kid (pk_to_concat_bytes old_pk) new_kid
       (pk_to_concat_bytes new_pk) ws (saturating_add_i64 ws secs)) = Inr s1"
    and "composite_sign P rnd' new_sk CROSSSIGN_CONTEXT (crosssign_transcript new_kid (pk_to_concat_bytes new_pk) old_kid
       (pk_to_concat_bytes old_pk) ws (saturating_add_i64 ws secs)) = Inr s2"
    and "b = \<lparr>cs_version = 1, cs_old_kid = old_kid, cs_old_pub = std_encode C (pk_to_concat_bytes old_pk),
              cs_new_kid = new_kid, cs_new_pub = std_encode C (pk_to_concat_bytes new_pk),
              cs_window_start = ws, cs_window_end = saturating_add_i64 ws secs,
              cs_old_signs_new = std_encode C (sig_to_concat_bytes s1),
              cs_new_signs_old = std_encode C (sig_to_concat_bytes s2)\<rparr>"
  using assms by (auto simp: bundle_create_def Let_def and_then_Inr_iff map_err_Inr_iff)

section \<open>Collected signatures\<close>

text \<open>A run of \<open>sign\<close> calls on a fresh record, failed ones included.\<close>

inductive collecting :: "prims \<Rightarrow> media_codec \<Rightarrow> minutes_json \<Rightarrow> ceremony_minutes \<Rightarrow> signed_minutes \<Rightarrow> bool"
  for P C J cm where
  fresh: "collecting P C J cm (SignedMinutes_new cm)"
| signs: "collecting P C J cm sm \<Longrightarrow> minutes_sign P C J rnd kid sk sm = (r, sm') \<Longrightarrow> collecting P C J cm sm'"

definition entry_ok :: "prims \<Rightarrow> media_codec \<Rightarrow> bytes \<Rightarrow> participant \<Rightarrow> participant_signature \<Rightarrow> bool" where
  "entry_ok P C msg p s \<longleftrightarrow>
     (\<exists>pk sig. decode_pub P C ''participant public key'' (pt_pubkey p) = Inr pk \<and>
        decode_sig C ''participant signature'' (ps_sig s) = Inr sig \<and> composite_verify P pk MINUTES_CONTEXT msg sig = Inr ())"

lemma find_Some_kid:
  "List.find (\<lambda>x. f x = k) xs = Some x \<Longrightarrow> x \<in> set xs \<and> f x = k"
  by (auto simp: find_Some_iff)

lemma find_distinct:
  "distinct (map f xs) \<Longrightarrow> x \<in> set xs \<Longrightarrow> List.find (\<lambda>y. f y = f x) xs = Some x"
  by (induction xs) (auto simp: image_iff)

lemma minutes_sign_cases:
  assumes P: "prims_ok P" and C: "media_codec_ok C" and "minutes_sign P C J rnd kid sk sm = (r, sm')"
  obtains "sm' = sm" | p msg s where "find_participant (minutes sm) kid = Some p" and "kid \<notin> ps_kid ` set (signatures sm)"
    and "signing_bytes J (minutes sm) = Inr msg" and "ps_kid s = kid" and "entry_ok P C msg p s"
    and "sm' = sm\<lparr>signatures := signatures sm @ [s]\<rparr>" and "r = Inr ()"
proof (cases r)
  case (Inl e)
  with assms(3) have "sm' = sm"
    by (auto simp: minutes_sign_def Let_def split: sum.splits)
  then show ?thesis by (rule that(1))
next
  case (Inr u)
  then obtain p pk msg sig where p: "find_participant (minutes sm) kid = Some p"
    and fresh: "\<forall>s\<in>set (signatures sm). ps_kid s \<noteq> kid"
    and pk: "decode_pub P C ''participant public key'' (pt_pubkey p) = Inr pk"
    and msg: "signing_bytes J (minutes sm) = Inr msg"
    and sig: "composite_sign P rnd sk MINUTES_CONTEXT msg = Inr sig"
    and ver: "composite_verify P pk MINUTES_CONTEXT msg sig = Inr ()"
    and sm': "sm' = sm\<lparr>signatures := signatures sm @ [\<lparr>ps_kid = kid, ps_sig = std_encode C (sig_to_concat_bytes sig)\<rparr>]\<rparr>"
    using assms(3)
    by (auto simp: minutes_sign_def Let_def and_then_Inr_iff map_err_Inr_iff ok_or_Inr_iff list_ex_iff split: sum.splits if_splits)
  have "length (classical sig) = ED25519_SIG_LEN"
    using P sig by (auto simp: composite_sign_def Let_def and_then_Inr_iff prims_ok_def)
  moreover have "length (pqc sig) = MLDSA65_SIG_LEN"
    using ver by (simp add: composite_verify_iff)
  ultimately have "decode_sig C ''participant signature'' (std_encode C (sig_to_concat_bytes sig)) = Inr sig"
    by (rule decode_sig_encode [OF C])
  with pk ver have "entry_ok P C msg p \<lparr>ps_kid = kid, ps_sig = std_encode C (sig_to_concat_bytes sig)\<rparr>"
    by (auto simp: entry_ok_def)
  then show ?thesis
    by (intro that(2) [OF p _ msg]) (use fresh sm' Inr in auto)
qed

lemma collecting_inv:
  assumes P: "prims_ok P" and C: "media_codec_ok C" and run: "collecting P C J cm sm"
  shows "minutes sm = cm \<and> distinct (map ps_kid (signatures sm)) \<and>
    (\<forall>s\<in>set (signatures sm). \<exists>p msg. find_participant cm (ps_kid s) = Some p \<and> signing_bytes J cm = Inr msg \<and>
       entry_ok P C msg p s)"
  using run
proof induction
  case fresh
  then show ?case by (simp add: SignedMinutes_new_def)
next
  case (signs sm rnd kid sk r sm')
  from P C signs.hyps(2) show ?case
    by (cases rule: minutes_sign_cases) (use signs.IH in auto)
qed

lemma verify_participants_Inr:
  "verify_participants P C msg sigs ps = Inr () \<longleftrightarrow>
     (\<forall>p\<in>set ps. \<exists>s. List.find (\<lambda>s. ps_kid s = pt_kid p) sigs = Some s \<and> entry_ok P C msg p s)"
  by (induction ps) (auto simp: entry_ok_def and_then_Inr_iff map_err_Inr_iff ok_or_Inr_iff)

lemma reject_unlisted_Inr:
  "reject_unlisted cm sigs = Inr () \<longleftrightarrow> (\<forall>s\<in>set sigs. find_participant cm (ps_kid s) \<noteq> None)"
  by (induction sigs) auto

lemma verify_all_Inr:
  "verify_all P C J sm = Inr () \<longleftrightarrow>
     (\<exists>msg. signing_bytes J (minutes sm) = Inr msg \<and>
       (\<forall>p\<in>set (cm_participants (minutes sm)).
          \<exists>s. List.find (\<lambda>s. ps_kid s = pt_kid p) (signatures sm) = Some s \<and> entry_ok P C msg p s) \<and>
       (\<forall>s\<in>set (signatures sm). find_participant (minutes sm) (ps_kid s) \<noteq> None))"
  by (simp add: verify_all_def and_then_Inr_iff verify_participants_Inr reject_unlisted_Inr)

lemma length_filter_all: "length (filter Q xs) = length xs \<longleftrightarrow> (\<forall>x\<in>set xs. Q x)"
proof (induction xs)
  case (Cons x xs)
  have "length (filter Q xs) \<noteq> Suc (length xs)"
    using length_filter_le [of Q xs] by linarith
  with Cons show ?case by auto
qed simp

lemma signed_count_full:
  "signed_count sm = length (cm_participants (minutes sm)) \<longleftrightarrow>
     (\<forall>p\<in>set (cm_participants (minutes sm)). pt_kid p \<in> ps_kid ` set (signatures sm))"
  unfolding signed_count_def length_filter_all list_ex_iff by (force simp: image_iff)

lemma bundle_created_verifies:
  assumes "prims_ok P" and "media_codec_ok C"
    and "from_seed P seed = (old_sk, old_pk)" and "from_seed P seed' = (new_sk, new_pk)"
    and "composite_key_ok P old_pk" and "composite_key_ok P new_pk"
    and "bundle_create P C rnd rnd' old_sk old_kid old_pk new_sk new_kid new_pk ws secs = Inr b"
  shows "bundle_verify P C b = Inr ()"
proof -
  note create = bundle_create_Inr [OF assms(7)]
  have "verify_direction P C b dir = Inr ()" for dir
  proof (rule create)
    fix s1 s2
    assume s1: "composite_sign P rnd old_sk CROSSSIGN_CONTEXT (crosssign_transcript old_kid (pk_to_concat_bytes old_pk)
        new_kid (pk_to_concat_bytes new_pk) ws (saturating_add_i64 ws secs)) = Inr s1"
      and s2: "composite_sign P rnd' new_sk CROSSSIGN_CONTEXT (crosssign_transcript new_kid (pk_to_concat_bytes new_pk)
        old_kid (pk_to_concat_bytes old_pk) ws (saturating_add_i64 ws secs)) = Inr s2"
      and b: "b = \<lparr>cs_version = 1, cs_old_kid = old_kid, cs_old_pub = std_encode C (pk_to_concat_bytes old_pk),
              cs_new_kid = new_kid, cs_new_pub = std_encode C (pk_to_concat_bytes new_pk),
              cs_window_start = ws, cs_window_end = saturating_add_i64 ws secs,
              cs_old_signs_new = std_encode C (sig_to_concat_bytes s1),
              cs_new_signs_old = std_encode C (sig_to_concat_bytes s2)\<rparr>"
    note v1 = composite_sign_lengths [OF assms(1,3) s1] and v2 = composite_sign_lengths [OF assms(1,4) s2]
    show "verify_direction P C b dir = Inr ()"
      unfolding verify_direction_Inr
      by (cases dir) (simp_all add: b decode_pub_encode [OF assms(2)] assms(5,6)
          decode_sig_encode [OF assms(2)] v1 v2)
  qed
  then show ?thesis by (simp add: bundle_verify_def)
qed

lemma collected_complete:
  assumes "prims_ok P" and "media_codec_ok C" and "collecting P C J cm sm"
    and "distinct (map pt_kid (cm_participants cm))" and "J cm = Inr msg"
  shows "verify_all P C J sm = Inr () \<longleftrightarrow> signed_count sm = length (cm_participants cm)"
proof -
  note inv = collecting_inv [OF assms(1-3)]
  have msg: "signing_bytes J cm = Inr msg"
    by (simp add: signing_bytes_def assms(5))
  have "\<exists>s. List.find (\<lambda>s. ps_kid s = pt_kid p) (signatures sm) = Some s \<and> entry_ok P C msg p s"
    if p: "p \<in> set (cm_participants cm)" and signed: "pt_kid p \<in> ps_kid ` set (signatures sm)" for p
  proof -
    obtain s where s: "s \<in> set (signatures sm)" "ps_kid s = pt_kid p"
      using signed by force
    have "List.find (\<lambda>s. ps_kid s = pt_kid p) (signatures sm) = Some s"
      using find_distinct [of ps_kid "signatures sm" s] inv s by simp
    moreover have "find_participant cm (ps_kid s) = Some p"
      using find_distinct [OF assms(4) p] s(2) by (simp add: find_participant_def)
    moreover obtain p' msg' where "find_participant cm (ps_kid s) = Some p'" "signing_bytes J cm = Inr msg'" "entry_ok P C msg' p' s"
      using inv s(1) by blast
    ultimately show ?thesis
      using msg by simp
  qed
  moreover have "pt_kid p \<in> ps_kid ` set (signatures sm)"
    if "List.find (\<lambda>s. ps_kid s = pt_kid p) (signatures sm) = Some s" for p s
    using find_Some_kid [OF that] by force
  ultimately have "(\<forall>p\<in>set (cm_participants cm). pt_kid p \<in> ps_kid ` set (signatures sm)) \<longleftrightarrow>
      (\<forall>p\<in>set (cm_participants cm). \<exists>s. List.find (\<lambda>s. ps_kid s = pt_kid p) (signatures sm) = Some s \<and> entry_ok P C msg p s)"
    by blast
  moreover have "\<forall>s\<in>set (signatures sm). find_participant cm (ps_kid s) \<noteq> None"
    using inv by fastforce
  moreover have "minutes sm = cm" using inv by blast
  ultimately show ?thesis
    using msg signed_count_full [of sm] unfolding verify_all_Inr by simp
qed

section \<open>Properties\<close>

text \<open>
  A cross-sign bundle made by two composite keys validates in both directions, whatever the
  window and the randomness of the two signatures.
\<close>

theorem crosssign_roundtrip:
  assumes "prims_ok P" and "media_codec_ok C"
    and "from_seed P seed = (old_sk, old_pk)" and "from_seed P seed' = (new_sk, new_pk)"
    and "composite_key_ok P old_pk" and "composite_key_ok P new_pk"
    and "bundle_create P C rnd rnd' old_sk old_kid old_pk new_sk new_kid new_pk ws secs = Inr b"
  shows "bundle_verify P C b = Inr ()"
  using assms by (rule bundle_created_verifies)

text \<open>
  C32. A cross-signature cannot be moved. If the same signature text is accepted under the same signer
  key in two bundles, in whichever directions, then both bundles name the same signer, the same subject key
  id and key and the same window; otherwise that signature, under that key, was accepted by
  both algorithms for the two different digests of the two bundles, or the two signed strings of the bundles are a collision of
  SHA3-384.
\<close>

theorem crosssign_binds:
  assumes "key_codec_ok P" and "bundle_wf b" and "bundle_wf b'"
    and "verify_direction P C b dir = Inr ()" and "verify_direction P C b' dir' = Inr ()"
    and "snd (dir_signer b dir) = snd (dir_signer b' dir')" and "dir_sig b dir = dir_sig b' dir'"
  shows "(fst (dir_signer b dir) = fst (dir_signer b' dir') \<and> fst (dir_subject b dir) = fst (dir_subject b' dir') \<and>
      std_decode C (snd (dir_subject b dir)) = std_decode C (snd (dir_subject b' dir')) \<and>
      cs_window_start b = cs_window_start b' \<and> cs_window_end b = cs_window_end b') \<or>
    (\<exists>pk s. decode_pub P C ''cross-sign public key'' (snd (dir_signer b dir)) = Inr pk \<and>
      decode_sig C ''cross-sign signature'' (dir_sig b dir) = Inr s \<and>
      sha3_384 P (dir_input C b dir) \<noteq> sha3_384 P (dir_input C b' dir') \<and>
      accepted_digest P pk s (sha3_384 P (dir_input C b dir)) \<and> accepted_digest P pk s (sha3_384 P (dir_input C b' dir'))) \<or>
    (dir_input C b dir \<noteq> dir_input C b' dir' \<and> sha3_384 P (dir_input C b dir) = sha3_384 P (dir_input C b' dir'))"
proof -
  obtain pk s where b: "decode_pub P C ''cross-sign public key'' (snd (dir_signer b dir)) = Inr pk"
    "decode_sig C ''cross-sign signature'' (dir_sig b dir) = Inr s"
    "accepted_digest P pk s (sha3_384 P (dir_input C b dir))"
    "length (key_bytes C (snd (dir_signer b dir))) < 2 ^ 64" "length (key_bytes C (snd (dir_subject b dir))) < 2 ^ 64"
    "std_decode C (snd (dir_subject b dir)) = Inr (key_bytes C (snd (dir_subject b dir)))"
    by (rule direction_accepted [OF assms(1,4)])
  obtain pk' s' where b': "decode_pub P C ''cross-sign public key'' (snd (dir_signer b' dir')) = Inr pk'"
    "decode_sig C ''cross-sign signature'' (dir_sig b' dir') = Inr s'"
    "accepted_digest P pk' s' (sha3_384 P (dir_input C b' dir'))"
    "length (key_bytes C (snd (dir_signer b' dir'))) < 2 ^ 64" "length (key_bytes C (snd (dir_subject b' dir'))) < 2 ^ 64"
    "std_decode C (snd (dir_subject b' dir')) = Inr (key_bytes C (snd (dir_subject b' dir')))"
    by (rule direction_accepted [OF assms(1,5)])
  have same: "pk' = pk" "s' = s"
    using b(1,2) b'(1,2) assms(6,7) by simp_all
  show ?thesis
  proof (cases "dir_input C b dir = dir_input C b' dir'")
    case True
    note dir_input_inject [OF True assms(2,3) b(4,5) b'(4,5)]
    then show ?thesis by (simp add: b(6) b'(6))
  next
    case False
    then show ?thesis using b(1-3) b'(3) same by blast
  qed
qed

text \<open>
  The window never leaves the \<open>i64\<close> range and never runs backwards: the end is the start plus the
  duration when that fits, the largest \<open>i64\<close> otherwise, and not before the start for a duration that is
  not negative.
\<close>

theorem crosssign_window_bounds:
  assumes "bundle_create P C rnd rnd' old_sk old_kid old_pk new_sk new_kid new_pk ws secs = Inr b"
    and "i64_range ws" and "i64_range secs"
  shows "cs_window_start b = ws \<and> i64_range (cs_window_end b) \<and>
    (i64_range (ws + secs) \<longrightarrow> cs_window_end b = ws + secs) \<and> (0 \<le> secs \<longrightarrow> ws \<le> cs_window_end b)"
proof (rule bundle_create_Inr [OF assms(1)])
  fix s1 s2
  assume b: "b = \<lparr>cs_version = 1, cs_old_kid = old_kid, cs_old_pub = std_encode C (pk_to_concat_bytes old_pk),
              cs_new_kid = new_kid, cs_new_pub = std_encode C (pk_to_concat_bytes new_pk),
              cs_window_start = ws, cs_window_end = saturating_add_i64 ws secs,
              cs_old_signs_new = std_encode C (sig_to_concat_bytes s1),
              cs_new_signs_old = std_encode C (sig_to_concat_bytes s2)\<rparr>"
  show ?thesis
    using assms(2,3) by (auto simp: b saturating_add_i64_def i64_range_def)
qed

text \<open>
  C33. Minutes collected by \<open>sign\<close> pass the gate exactly when everyone has signed. For any sequence of
  \<open>sign\<close> calls, failing ones included, on minutes whose participants have distinct key ids,
  \<open>verify_all\<close> accepts if and only if \<open>signed_count\<close> has reached the number of participants.
\<close>

theorem minutes_complete_iff:
  assumes "prims_ok P" and "media_codec_ok C" and "collecting P C J cm sm"
    and "distinct (map pt_kid (cm_participants cm))" and "J cm = Inr msg"
  shows "verify_all P C J sm = Inr () \<longleftrightarrow> signed_count sm = length (cm_participants cm)"
  using assms by (rule collected_complete)

text \<open>
  C34. The gate looks at the first entry of each key id only. Whatever minutes \<open>verify_all\<close> accepts, it
  still accepts after appending any further entry under a listed key id, a signature that does not
  verify included.
\<close>

theorem minutes_extra_entry_accepted:
  assumes "verify_all P C J sm = Inr ()" and "find_participant (minutes sm) kid = Some p"
  shows "verify_all P C J (sm\<lparr>signatures := signatures sm @ [\<lparr>ps_kid = kid, ps_sig = text\<rparr>]\<rparr>) = Inr ()"
proof -
  have "List.find Q (xs @ ys) = Some s" if "List.find Q xs = Some s" for Q xs ys and s :: participant_signature
    using that by (induction xs) (auto split: if_splits)
  then show ?thesis
    using assms unfolding verify_all_Inr by fastforce
qed

section \<open>Witnesses\<close>

definition toy_bundle :: cross_sign_bundle where
  "toy_bundle = projr (bundle_create key_prims toy_media [] [] (fst (toy_root 1)) ''root-2025'' (snd (toy_root 1))
     (fst (toy_root 2)) ''root-2026'' (snd (toy_root 2)) 1000 DEFAULT_WINDOW_SECS)"

lemma toy_bundle_create:
  "bundle_create key_prims toy_media [] [] (fst (toy_root 1)) ''root-2025'' (snd (toy_root 1))
     (fst (toy_root 2)) ''root-2026'' (snd (toy_root 2)) 1000 DEFAULT_WINDOW_SECS = Inr toy_bundle"
proof -
  have "\<exists>s. composite_sign key_prims [] sk ctx msg = Inr s" for sk ctx msg
    by (simp add: composite_sign_def Let_def key_prims_def toy_prims_def)
  then have "\<exists>b. bundle_create key_prims toy_media [] [] (fst (toy_root 1)) ''root-2025'' (snd (toy_root 1))
     (fst (toy_root 2)) ''root-2026'' (snd (toy_root 2)) 1000 DEFAULT_WINDOW_SECS = Inr b"
    unfolding bundle_create_def Let_def by (metis and_then.simps(2) map_err.simps(2))
  then show ?thesis by (auto simp: toy_bundle_def)
qed

theorem crosssign_roundtrip_witness: "bundle_verify key_prims toy_media toy_bundle = Inr ()"
  by (rule crosssign_roundtrip [OF key_prims_ok toy_media_ok _ _ toy_root_ok toy_root_ok toy_bundle_create])
    (simp_all add: toy_root_def)

theorem crosssign_window_bounds_witness:
  "cs_window_start toy_bundle = 1000 \<and> cs_window_end toy_bundle = 1000 + DEFAULT_WINDOW_SECS"
  using crosssign_window_bounds [OF toy_bundle_create] by (simp add: DEFAULT_WINDOW_SECS_def i64_range_def)

theorem crosssign_binds_witness:
  "let b = toy_bundle; b' = toy_bundle\<lparr>cs_version := 2\<rparr>; P = key_prims; C = toy_media in
    verify_direction P C b OldSignsNew = Inr () \<and> verify_direction P C b' OldSignsNew = Inr () \<and>
    cs_old_kid b = cs_old_kid b' \<and> cs_new_kid b = cs_new_kid b' \<and>
    std_decode C (cs_new_pub b) = std_decode C (cs_new_pub b') \<and>
    cs_window_start b = cs_window_start b' \<and> cs_window_end b = cs_window_end b'"
proof -
  define b' where "b' = toy_bundle\<lparr>cs_version := 2\<rparr>"
  have "bundle_verify key_prims toy_media toy_bundle = Inr ()"
    by (rule bundle_created_verifies [OF key_prims_ok toy_media_ok _ _ toy_root_ok toy_root_ok toy_bundle_create])
      (simp_all add: toy_root_def)
  then have ok: "verify_direction key_prims toy_media toy_bundle OldSignsNew = Inr ()"
    by (simp add: bundle_verify_def and_then_Inr_iff)
  then have ok': "verify_direction key_prims toy_media b' OldSignsNew = Inr ()"
    by (simp add: verify_direction_Inr b'_def)
  have "cs_old_kid toy_bundle = ''root-2025''" "cs_new_kid toy_bundle = ''root-2026''"
    "cs_window_start toy_bundle = 1000" "cs_window_end toy_bundle = saturating_add_i64 1000 DEFAULT_WINDOW_SECS"
    by (rule bundle_create_Inr [OF toy_bundle_create], erule ssubst, simp)+
  then have wf: "bundle_wf toy_bundle"
    by (simp add: bundle_wf_def i64_range_def saturating_add_i64_def DEFAULT_WINDOW_SECS_def)
  then have wf': "bundle_wf b'"
    by (simp add: bundle_wf_def b'_def)
  have "snd (dir_signer toy_bundle OldSignsNew) = snd (dir_signer b' OldSignsNew)"
    "dir_sig toy_bundle OldSignsNew = dir_sig b' OldSignsNew"
    by (simp_all add: b'_def)
  note crosssign_binds [OF key_prims_codec wf wf' ok ok' this]
  moreover have "dir_input toy_media toy_bundle OldSignsNew = dir_input toy_media b' OldSignsNew"
    by (simp add: dir_input_def b'_def)
  ultimately show ?thesis
    using ok ok' unfolding Let_def b'_def [symmetric] dir_signer.simps dir_subject.simps fst_conv snd_conv by simp
qed

definition toy_minutes :: ceremony_minutes where
  "toy_minutes = \<lparr>cm_version = 1, cm_ceremony_id = ''rotation-2026'', cm_kind = Rotation, cm_occurred_at = 1000,
     cm_location = ''room B'', cm_trust_domain = ''example.org'', cm_old_root_kid = None, cm_new_root_kid = None,
     cm_threshold = 3, cm_total = 5,
     cm_participants = [\<lparr>pt_name = ''A'', pt_role = ''witness'', pt_kid = ''op-1'',
       pt_pubkey = std_encode toy_media (pk_to_concat_bytes (snd (toy_root 1)))\<rparr>],
     cm_artefacts = [], cm_notes = ''''\<rparr>"

definition toy_json :: minutes_json where
  "toy_json cm = Inr [1]"

definition toy_signed :: signed_minutes where
  "toy_signed = snd (minutes_sign key_prims toy_media toy_json [] ''op-1'' (fst (toy_root 1)) (SignedMinutes_new toy_minutes))"

lemma toy_signed_collecting: "collecting key_prims toy_media toy_json toy_minutes toy_signed"
  unfolding toy_signed_def by (rule collecting.signs [OF collecting.fresh prod.collapse [symmetric]])

lemma toy_signed_count: "signed_count toy_signed = length (cm_participants toy_minutes)"
proof -
  have seed: "from_seed key_prims [1] = (fst (toy_root 1), snd (toy_root 1))"
    by (simp add: toy_root_def)
  obtain sig where sig: "composite_sign key_prims [] (fst (toy_root 1)) MINUTES_CONTEXT [1] = Inr sig"
    by (auto simp: composite_sign_def Let_def key_prims_def toy_prims_def)
  have "composite_verify key_prims (snd (toy_root 1)) MINUTES_CONTEXT [1] sig = Inr ()"
    by (rule composite_sign_lengths(3) [OF key_prims_ok seed sig])
  then have "minutes toy_signed = toy_minutes" "ps_kid ` set (signatures toy_signed) = {''op-1''}"
    by (simp_all add: toy_signed_def minutes_sign_def SignedMinutes_new_def find_participant_def toy_minutes_def
        toy_json_def signing_bytes_def decode_pub_encode [OF toy_media_ok toy_root_ok] sig)
  then show ?thesis
    using signed_count_full [of toy_signed] by (simp add: toy_minutes_def)
qed

theorem minutes_complete_iff_witness: "verify_all key_prims toy_media toy_json toy_signed = Inr ()"
proof -
  have "distinct (map pt_kid (cm_participants toy_minutes))" "toy_json toy_minutes = Inr [1]"
    by (simp_all add: toy_minutes_def toy_json_def)
  from minutes_complete_iff [OF key_prims_ok toy_media_ok toy_signed_collecting this] toy_signed_count
  show ?thesis by simp
qed

theorem minutes_extra_entry_accepted_witness:
  "verify_all key_prims toy_media toy_json
     (toy_signed\<lparr>signatures := signatures toy_signed @ [\<lparr>ps_kid = ''op-1'', ps_sig = ''garbage''\<rparr>]\<rparr>) = Inr ()"
proof -
  have "distinct (map pt_kid (cm_participants toy_minutes))" "toy_json toy_minutes = Inr [1]"
    by (simp_all add: toy_minutes_def toy_json_def)
  from collected_complete [OF key_prims_ok toy_media_ok toy_signed_collecting this] toy_signed_count
  have "verify_all key_prims toy_media toy_json toy_signed = Inr ()" by simp
  moreover have "minutes toy_signed = toy_minutes"
    using collecting_inv [OF key_prims_ok toy_media_ok toy_signed_collecting] by blast
  ultimately show ?thesis
    by (intro minutes_extra_entry_accepted [where p = "hd (cm_participants toy_minutes)"])
      (simp_all add: find_participant_def toy_minutes_def)
qed

end
