(* ===== verification/Bounded_Read.thy ===== *)
theory Bounded_Read
  imports Composite
begin

text \<open>
  \<open>crates/ferro-appid/src/bytes.rs\<close>, \<open>limits.rs\<close>, \<open>format.rs\<close>: bounded access to an untrusted file.
  A parser is a function of the source that returns an outcome and the source afterwards; the outcome
  \<open>Panic\<close> stands for a panic of the Rust code (an index out of range, or an unchecked sum or product
  that does not fit its type), so that its absence is a theorem. The clock and the failures of the operating system are the oracles of \<open>os_env\<close>, asked
  by call number. \<open>usize\<close> has 64 bits.
\<close>

section \<open>Outcomes\<close>

datatype ParseError =
    Truncated
  | MalformedData string
  | TooMuchData
  | TooDeep
  | Deadline
  | ReadFailed string

fun ParseError_kind :: "ParseError \<Rightarrow> string" where
  "ParseError_kind Truncated = ''truncated''"
| "ParseError_kind (MalformedData what) = ''malformed''"
| "ParseError_kind TooMuchData = ''too_much_data''"
| "ParseError_kind TooDeep = ''too_deep''"
| "ParseError_kind Deadline = ''deadline''"
| "ParseError_kind (ReadFailed e) = ''io''"

datatype 'a outcome = Panic | Err ParseError | Done 'a

fun bind_outcome :: "'a outcome \<Rightarrow> ('a \<Rightarrow> 'b outcome) \<Rightarrow> 'b outcome" where
  "bind_outcome Panic f = Panic"
| "bind_outcome (Err e) f = Err e"
| "bind_outcome (Done a) f = f a"

lemma bind_outcome_cong [fundef_cong]:
  assumes "x = y" and "\<And>a. y = Done a \<Longrightarrow> f a = g a"
  shows "bind_outcome x f = bind_outcome y g"
  using assms by (cases y) simp_all

named_theorems outcome_simps \<open>when a sequence of outcomes is done or panics\<close>

lemma bind_outcome_Done [outcome_simps]:
  "bind_outcome x f = Done b \<longleftrightarrow> (\<exists>a. x = Done a \<and> f a = Done b)"
  by (cases x) simp_all

lemma bind_outcome_Panic [outcome_simps]:
  "bind_outcome x f = Panic \<longleftrightarrow> x = Panic \<or> (\<exists>a. x = Done a \<and> f a = Panic)"
  by (cases x) simp_all

section \<open>Limits and the budget\<close>

record limits =
  max_file_size :: nat
  max_metadata_bytes :: nat
  max_depth :: nat
  time_budget :: nat

text \<open>Times are milliseconds.\<close>

definition default_limits :: limits where
  "default_limits = \<lparr>max_file_size = 2 * 1024 * 1024 * 1024, max_metadata_bytes = 16 * 1024 * 1024,
     max_depth = 16, time_budget = 2000\<rparr>"

record os_env =
  os_now :: "nat \<Rightarrow> nat"
  os_fault :: "nat \<Rightarrow> string option"

record budget =
  bg_deadline :: nat
  bg_remaining :: nat
  bg_max_depth :: nat

text \<open>
  \<open>src_calls\<close> counts the questions to the operating system. \<open>src_reads\<close> is the history of the requests to
  the file, in order: the number of the call, the offset and the number of bytes.
\<close>

record source =
  src_inner :: bytes
  src_len :: nat
  src_budget :: budget
  src_calls :: nat
  src_reads :: "(nat \<times> nat \<times> nat) list"

type_synonym 'a parser = "source \<Rightarrow> 'a outcome \<times> source"

definition ret :: "'a outcome \<Rightarrow> 'a parser" where
  "ret x s = (x, s)"

definition bind_parser :: "'a parser \<Rightarrow> ('a \<Rightarrow> 'b parser) \<Rightarrow> 'b parser" where
  "bind_parser p f s =
     (case p s of
        (Done a, s') \<Rightarrow> f a s'
      | (Err e, s') \<Rightarrow> (Err e, s')
      | (Panic, s') \<Rightarrow> (Panic, s'))"

definition Budget_new :: "os_env \<Rightarrow> limits \<Rightarrow> nat \<Rightarrow> budget" where
  "Budget_new E l call =
     \<lparr>bg_deadline = os_now E call + time_budget l, bg_remaining = max_metadata_bytes l, bg_max_depth = max_depth l\<rparr>"

definition Source_new :: "bytes \<Rightarrow> nat \<Rightarrow> budget \<Rightarrow> nat \<Rightarrow> source" where
  "Source_new inner len b call = \<lparr>src_inner = inner, src_len = len, src_budget = b, src_calls = call, src_reads = []\<rparr>"

definition check_time :: "os_env \<Rightarrow> unit parser" where
  "check_time E s =
     (if os_now E (src_calls s) \<ge> bg_deadline (src_budget s) then Err Deadline else Done (),
      s\<lparr>src_calls := Suc (src_calls s)\<rparr>)"

definition charge :: "nat \<Rightarrow> unit parser" where
  "charge n s =
     (if bg_remaining (src_budget s) < n then (Err TooMuchData, s)
      else (Done (), s\<lparr>src_budget := (src_budget s)\<lparr>bg_remaining := bg_remaining (src_budget s) - n\<rparr>\<rparr>))"

definition take_budget :: "os_env \<Rightarrow> nat \<Rightarrow> unit parser" where
  "take_budget E n = bind_parser (check_time E) (\<lambda>_. charge n)"

section \<open>Reads\<close>

text \<open>\<open>seek\<close> followed by \<open>read_exact\<close>: either may fail, and the file may be shorter than announced.\<close>

definition read_exact :: "os_env \<Rightarrow> nat \<Rightarrow> nat \<Rightarrow> bytes parser" where
  "read_exact E offset len s =
     (case os_fault E (src_calls s) of
        Some e \<Rightarrow> Err (ReadFailed e)
      | None \<Rightarrow>
          if offset + len > length (src_inner s) then Err (ReadFailed ''failed to fill whole buffer'')
          else Done (take len (drop offset (src_inner s))),
      s\<lparr>src_calls := Suc (src_calls s), src_reads := src_reads s @ [(src_calls s, offset, len)]\<rparr>)"

definition read_at :: "os_env \<Rightarrow> nat \<Rightarrow> nat \<Rightarrow> bytes parser" where
  "read_at E offset len s =
     (if offset + len \<ge> 2 ^ 64 then (Err Truncated, s)
      else if offset + len > src_len s then (Err Truncated, s)
      else bind_parser (take_budget E len) (\<lambda>_. read_exact E offset len) s)"

definition read_prefix :: "os_env \<Rightarrow> nat \<Rightarrow> nat \<Rightarrow> bytes parser" where
  "read_prefix E offset max_len s = read_at E offset (min (src_len s - offset) max_len) s"

section \<open>Unchecked arithmetic\<close>

text \<open>
  \<open>+\<close> and \<open>*\<close> on an unsigned type of \<open>w\<close> bits. A result that does not fit panics in a build with overflow
  checks and wraps in one without; where it never panics, it never wraps either.
\<close>

definition plus_w :: "nat \<Rightarrow> nat \<Rightarrow> nat \<Rightarrow> nat outcome" where
  "plus_w w a b = (if a + b < 2 ^ w then Done (a + b) else Panic)"

definition times_w :: "nat \<Rightarrow> nat \<Rightarrow> nat \<Rightarrow> nat outcome" where
  "times_w w a b = (if a * b < 2 ^ w then Done (a * b) else Panic)"

section \<open>Fields\<close>

record fields =
  f_buf :: bytes
  f_little_endian :: bool

definition Fields_new :: "bytes \<Rightarrow> bool \<Rightarrow> fields" where
  "Fields_new b little = \<lparr>f_buf = b, f_little_endian = little\<rparr>"

definition Fields_le :: "bytes \<Rightarrow> fields" where
  "Fields_le b = \<lparr>f_buf = b, f_little_endian = True\<rparr>"

definition checked_add :: "nat \<Rightarrow> nat \<Rightarrow> nat outcome" where
  "checked_add a b = (if a + b < 2 ^ 64 then Done (a + b) else Err Truncated)"

definition get_range :: "bytes \<Rightarrow> nat \<Rightarrow> nat \<Rightarrow> bytes outcome" where
  "get_range b from to = (if from \<le> to \<and> to \<le> length b then Done (take (to - from) (drop from b)) else Err Truncated)"

definition f_array :: "fields \<Rightarrow> nat \<Rightarrow> nat \<Rightarrow> bytes outcome" where
  "f_array f n off = bind_outcome (checked_add off n) (\<lambda>stop. get_range (f_buf f) off stop)"

text \<open>\<open>from_le_bytes\<close>; \<open>from_be_bytes\<close> reads the reversed bytes.\<close>

fun le_nat :: "bytes \<Rightarrow> nat" where
  "le_nat [] = 0"
| "le_nat (b # bs) = unat b + 256 * le_nat bs"

definition f_int :: "fields \<Rightarrow> nat \<Rightarrow> nat \<Rightarrow> nat outcome" where
  "f_int f n off = bind_outcome (f_array f n off) (\<lambda>a. Done (le_nat (if f_little_endian f then a else rev a)))"

definition f_u16 :: "fields \<Rightarrow> nat \<Rightarrow> nat outcome" where
  "f_u16 f off = f_int f 2 off"

definition f_u32 :: "fields \<Rightarrow> nat \<Rightarrow> nat outcome" where
  "f_u32 f off = f_int f 4 off"

definition f_u64 :: "fields \<Rightarrow> nat \<Rightarrow> nat outcome" where
  "f_u64 f off = f_int f 8 off"

definition f_slice :: "fields \<Rightarrow> nat \<Rightarrow> nat \<Rightarrow> bytes outcome" where
  "f_slice f off len = bind_outcome (checked_add off len) (\<lambda>stop. get_range (f_buf f) off stop)"

text \<open>\<open>buf[from..to]\<close>, which panics out of range.\<close>

definition index_range :: "bytes \<Rightarrow> nat \<Rightarrow> nat \<Rightarrow> bytes outcome" where
  "index_range b from to = (if from \<le> to \<and> to \<le> length b then Done (take (to - from) (drop from b)) else Panic)"

definition align_up :: "nat \<Rightarrow> nat \<Rightarrow> nat outcome" where
  "align_up n align =
     (let mask = align - 1
      in bind_outcome (checked_add n mask) (\<lambda>v. Done (unat ((word_of_nat v :: u64) AND NOT (word_of_nat mask)))))"

text \<open>On a 64-bit target \<open>to_usize\<close> cannot fail.\<close>

definition to_usize :: "nat \<Rightarrow> nat outcome" where
  "to_usize v = (if v < 2 ^ 64 then Done v else Err TooMuchData)"

definition starts_with :: "bytes \<Rightarrow> bytes \<Rightarrow> bool" where
  "starts_with b p \<longleftrightarrow> take (length p) b = p"

section \<open>Format detection\<close>

datatype BinaryFormat = Elf | MachO | Pe | Other

fun format_code :: "BinaryFormat \<Rightarrow> u8" where
  "format_code Elf = 1"
| "format_code MachO = 2"
| "format_code Pe = 3"
| "format_code Other = 9"

definition format_from_code :: "u8 \<Rightarrow> BinaryFormat option" where
  "format_from_code c =
     (if c = 1 then Some Elf else if c = 2 then Some MachO else if c = 3 then Some Pe
      else if c = 9 then Some Other else None)"

definition MACHO_MAGICS :: "nat list" where
  "MACHO_MAGICS = [0xfeedface, 0xcefaedfe, 0xfeedfacf, 0xcffaedfe]"

definition FAT_MAGIC :: nat where
  "FAT_MAGIC = 0xcafebabe"

definition FAT_MAGIC_64 :: nat where
  "FAT_MAGIC_64 = 0xcafebabf"

definition MAX_FAT_ARCHS :: nat where
  "MAX_FAT_ARCHS = 20"

definition ELF_MAGIC :: bytes where
  "ELF_MAGIC = [0x7f, 0x45, 0x4c, 0x46]"

definition detect_in :: "os_env \<Rightarrow> BinaryFormat parser" where
  "detect_in E =
     bind_parser (read_prefix E 0 64) (\<lambda>head.
     let f = Fields_new head False in
     case f_u32 f 0 of
       Done magic \<Rightarrow>
         if starts_with head ELF_MAGIC then ret (Done Elf)
         else if List.member MACHO_MAGICS magic then ret (Done MachO)
         else if (magic = FAT_MAGIC \<or> magic = FAT_MAGIC_64) \<and>
                 (case f_u32 f 4 of Done n \<Rightarrow> 1 \<le> n \<and> n \<le> MAX_FAT_ARCHS | _ \<Rightarrow> False)
         then ret (Done MachO)
         else if starts_with head (str_bytes ''MZ'') then
           bind_parser (ret (f_u32 (Fields_le head) 0x3c)) (\<lambda>e_lfanew. \<lambda>s.
           (case read_at E e_lfanew 4 s of
              (Done sig, s') \<Rightarrow> (Done (if sig = str_bytes ''PE'' @ [0, 0] then Pe else Other), s')
            | (Err e, s') \<Rightarrow> (Done Other, s')
            | (Panic, s') \<Rightarrow> (Panic, s')))
         else ret (Done Other)
     | _ \<Rightarrow> ret (Done Other))"

definition detect :: "os_env \<Rightarrow> bytes \<Rightarrow> BinaryFormat outcome" where
  "detect E data =
     (case fst (detect_in E (Source_new data (length data) (Budget_new E default_limits 0) 1)) of
        Done x \<Rightarrow> Done x
      | Err e \<Rightarrow> Done Other
      | Panic \<Rightarrow> Panic)"

section \<open>Safe parsers\<close>

definition read_total :: "(nat \<times> nat \<times> nat) list \<Rightarrow> nat" where
  "read_total rs = sum_list (map (\<lambda>(call, off, n). n) rs)"

text \<open>A request inside the first \<open>len\<close> bytes, made right after the clock was seen before the deadline.\<close>

definition read_ok :: "os_env \<Rightarrow> nat \<Rightarrow> nat \<Rightarrow> nat \<times> nat \<times> nat \<Rightarrow> bool" where
  "read_ok E len deadline r = (case r of (call, off, n) \<Rightarrow> off + n \<le> len \<and> os_now E (call - 1) < deadline)"

text \<open>
  What every parser owes its caller: no panic, the file and the limits as they were, and a byte
  budget that shrinks by at least what it reads.
\<close>

definition spends :: "os_env \<Rightarrow> source \<Rightarrow> source \<Rightarrow> bool" where
  "spends E s s' \<longleftrightarrow>
     src_inner s' = src_inner s \<and> src_len s' = src_len s \<and>
     bg_max_depth (src_budget s') = bg_max_depth (src_budget s) \<and>
     bg_deadline (src_budget s') = bg_deadline (src_budget s) \<and>
     (\<exists>rs. src_reads s' = src_reads s @ rs \<and>
        read_total rs + bg_remaining (src_budget s') \<le> bg_remaining (src_budget s) \<and>
        list_all (read_ok E (src_len s) (bg_deadline (src_budget s))) rs)"

definition safe :: "os_env \<Rightarrow> 'a parser \<Rightarrow> bool" where
  "safe E p \<longleftrightarrow> (\<forall>s. fst (p s) \<noteq> Panic \<and> spends E s (snd (p s)))"

named_theorems safe_intros \<open>composition of safe parsers\<close>

lemma read_total_simps [simp]:
  "read_total [] = 0" "read_total ((call, off, n) # rs) = n + read_total rs"
  "read_total (rs @ qs) = read_total rs + read_total qs"
  by (simp_all add: read_total_def)

lemma spends_refl [simp]: "spends E s s"
  by (simp add: spends_def)

lemma spends_trans:
  assumes "spends E s t" "spends E t u"
  shows "spends E s u"
proof -
  from assms(1) obtain rs where rs: "src_reads t = src_reads s @ rs"
      "read_total rs + bg_remaining (src_budget t) \<le> bg_remaining (src_budget s)"
      "list_all (read_ok E (src_len s) (bg_deadline (src_budget s))) rs"
    by (auto simp: spends_def)
  from assms obtain qs where qs: "src_reads u = src_reads t @ qs"
      "read_total qs + bg_remaining (src_budget u) \<le> bg_remaining (src_budget t)"
      "list_all (read_ok E (src_len s) (bg_deadline (src_budget s))) qs"
    by (auto simp: spends_def)
  have "src_reads u = src_reads s @ (rs @ qs) \<and> read_total (rs @ qs) + bg_remaining (src_budget u) \<le> bg_remaining (src_budget s)
      \<and> list_all (read_ok E (src_len s) (bg_deadline (src_budget s))) (rs @ qs)"
    using rs qs by simp
  then show ?thesis using assms unfolding spends_def by metis
qed

lemma safeD: "safe E p \<Longrightarrow> p s = (r, s') \<Longrightarrow> r \<noteq> Panic \<and> spends E s s'"
  unfolding safe_def by (metis fst_conv snd_conv)

lemma safe_ret [safe_intros]: "x \<noteq> Panic \<Longrightarrow> safe E (ret x)"
  by (simp add: safe_def ret_def)

lemma safe_bind [safe_intros]:
  assumes p: "safe E p" and f: "\<And>a s s'. p s = (Done a, s') \<Longrightarrow> safe E (f a)"
  shows "safe E (bind_parser p f)"
  unfolding safe_def
proof
  fix s
  obtain r s' where r: "p s = (r, s')" by fastforce
  note step = safeD [OF p r]
  show "fst (bind_parser p f s) \<noteq> Panic \<and> spends E s (snd (bind_parser p f s))"
  proof (cases r)
    case (Done a)
    with r have "safe E (f a)" by (intro f) simp
    then have "fst (f a s') \<noteq> Panic \<and> spends E s' (snd (f a s'))"
      by (simp add: safe_def)
    then show ?thesis
      using r Done step by (auto simp: bind_parser_def intro: spends_trans)
  qed (use r step in \<open>simp_all add: bind_parser_def\<close>)
qed

lemma ret_Done [simp]: "ret x s = (Done a, s') \<longleftrightarrow> x = Done a \<and> s' = s"
  by (auto simp: ret_def)

lemma safe_if [safe_intros]: "(b \<Longrightarrow> safe E p) \<Longrightarrow> (\<not> b \<Longrightarrow> safe E q) \<Longrightarrow> safe E (if b then p else q)"
  by simp

lemma safe_option [safe_intros]:
  "(x = None \<Longrightarrow> safe E p) \<Longrightarrow> (\<And>a. x = Some a \<Longrightarrow> safe E (f a)) \<Longrightarrow> safe E (case x of None \<Rightarrow> p | Some a \<Rightarrow> f a)"
  by (cases x) simp_all

lemma safe_prod [safe_intros]: "(\<And>a b. x = (a, b) \<Longrightarrow> safe E (f a b)) \<Longrightarrow> safe E (case x of (a, b) \<Rightarrow> f a b)"
  by (cases x) simp

lemma safe_check_time [safe_intros]: "safe E (check_time E)"
  by (simp add: safe_def check_time_def spends_def)

lemma safe_read_at [safe_intros]: "safe E (read_at E off n)"
proof -
  have "fst (read_at E off n s) \<noteq> Panic \<and> spends E s (snd (read_at E off n s))" for s
    by (auto simp: read_at_def bind_parser_def take_budget_def check_time_def charge_def read_exact_def spends_def read_ok_def
        split: option.splits outcome.splits if_splits)
  then show ?thesis by (simp add: safe_def)
qed

lemma safe_read_prefix [safe_intros]: "safe E (read_prefix E off n)"
  using safe_read_at by (auto simp: safe_def read_prefix_def)

text \<open>The guarantee for a whole run from a fresh source.\<close>

lemma safe_run:
  assumes "safe E p" and "p (Source_new data len (Budget_new E l c) c') = (r, s')"
  shows "r \<noteq> Panic" "src_inner s' = data"
    "read_total (src_reads s') + bg_remaining (src_budget s') \<le> max_metadata_bytes l"
    "list_all (read_ok E len (os_now E c + time_budget l)) (src_reads s')"
  using safeD [OF assms] by (auto simp: spends_def Source_new_def Budget_new_def)

text \<open>A successful read returns the announced bytes of the file and is charged for each of them.\<close>

lemma read_at_Done:
  assumes "read_at E off n s = (Done data, s')"
  shows "data = take n (drop off (src_inner s))" "length data = n" "off + n \<le> src_len s"
    "bg_remaining (src_budget s) = n + bg_remaining (src_budget s')"
proof -
  obtain u s1 where t: "take_budget E n s = (Done u, s1)" and r: "read_exact E off n s1 = (Done data, s')"
    and len: "off + n \<le> src_len s"
    using assms by (auto simp: read_at_def bind_parser_def split: if_splits prod.splits outcome.splits)
  have s1: "src_inner s1 = src_inner s" "bg_remaining (src_budget s) = n + bg_remaining (src_budget s1)"
    using t by (auto simp: take_budget_def bind_parser_def check_time_def charge_def split: if_splits)
  have d: "off + n \<le> length (src_inner s)" "data = take n (drop off (src_inner s))" "src_budget s' = src_budget s1"
    using r s1(1) by (auto simp: read_exact_def split: option.splits if_splits)
  show "data = take n (drop off (src_inner s))" "length data = n" "off + n \<le> src_len s"
    "bg_remaining (src_budget s) = n + bg_remaining (src_budget s')"
    using d s1 len by simp_all
qed

section \<open>Checked reads\<close>

lemma checked_no_panic [simp]:
  "checked_add a b \<noteq> Panic" "get_range buf a b \<noteq> Panic" "to_usize a \<noteq> Panic" "align_up a b \<noteq> Panic"
  "f_array f n a \<noteq> Panic" "f_int f n a \<noteq> Panic" "f_u16 f a \<noteq> Panic" "f_u32 f a \<noteq> Panic" "f_u64 f a \<noteq> Panic"
  "f_slice f a b \<noteq> Panic"
  by (simp_all add: checked_add_def get_range_def to_usize_def align_up_def f_array_def f_int_def f_u16_def f_u32_def
      f_u64_def f_slice_def outcome_simps Let_def)

lemma le_nat_bound: "le_nat bs < 256 ^ length bs"
proof (induction bs)
  case (Cons b bs)
  have "unat b < 256" using unsigned_less [of b, where ?'a = nat] by simp
  with Cons show ?case by simp
qed simp

lemma f_int_Done:
  assumes "f_int f n off = Done v"
  shows "v < 256 ^ n" "off + n \<le> length (f_buf f)" "off + n < 2 ^ 64"
proof -
  let ?a = "take n (drop off (f_buf f))"
  have r: "off + n \<le> length (f_buf f)" "off + n < 2 ^ 64" "v = le_nat (if f_little_endian f then ?a else rev ?a)"
    using assms by (auto simp: f_int_def f_array_def checked_add_def get_range_def outcome_simps split: if_splits)
  then show "off + n \<le> length (f_buf f)" "off + n < 2 ^ 64" by simp_all
  show "v < 256 ^ n"
    using r le_nat_bound [of ?a] le_nat_bound [of "rev ?a"] by auto
qed

named_theorems field_bounds \<open>the range and the place of a field that was read\<close>

lemma f_u16_Done [field_bounds]: "f_u16 f off = Done v \<Longrightarrow> v < 65536 \<and> off + 2 \<le> length (f_buf f) \<and> off + 2 < 2 ^ 64"
  using f_int_Done [of f 2 off v] by (simp add: f_u16_def)

lemma f_u32_Done [field_bounds]: "f_u32 f off = Done v \<Longrightarrow> v < 4294967296 \<and> off + 4 \<le> length (f_buf f) \<and> off + 4 < 2 ^ 64"
  using f_int_Done [of f 4 off v] by (simp add: f_u32_def)

lemma plus_w_Done [outcome_simps]: "plus_w w a b = Done c \<longleftrightarrow> a + b < 2 ^ w \<and> c = a + b"
  by (auto simp: plus_w_def)

lemma plus_w_Panic [outcome_simps]: "plus_w w a b = Panic \<longleftrightarrow> 2 ^ w \<le> a + b"
  by (auto simp: plus_w_def)

lemma times_w_Done [outcome_simps]: "times_w w a b = Done c \<longleftrightarrow> a * b < 2 ^ w \<and> c = a * b"
  by (auto simp: times_w_def)

lemma times_w_Panic [outcome_simps]: "times_w w a b = Panic \<longleftrightarrow> 2 ^ w \<le> a * b"
  by (auto simp: times_w_def)

lemma index_range_ok: "a \<le> b \<Longrightarrow> b \<le> length buf \<Longrightarrow> index_range buf a b = Done (take (b - a) (drop a buf))"
  by (simp add: index_range_def)

lemma le_nat_rev_be: "v < 256 ^ n \<Longrightarrow> le_nat (rev (be n v)) = v"
proof (induction n arbitrary: v)
  case (Suc n)
  then have "le_nat (rev (be n (v div 256))) = v div 256"
    by (simp add: less_mult_imp_div_less mult.commute)
  then show ?case
    by (simp add: unsigned_of_nat take_bit_eq_mod)
qed simp

text \<open>The integers as a producer writes them, and the field at its place in a buffer.\<close>

definition int_bytes :: "bool \<Rightarrow> nat \<Rightarrow> nat \<Rightarrow> bytes" where
  "int_bytes little n v = (if little then rev (be n v) else be n v)"

lemma length_int_bytes [simp]: "length (int_bytes little n v) = n"
  by (simp add: int_bytes_def)

lemma f_int_at:
  assumes "v < 256 ^ n" and "length pre + n < 2 ^ 64"
  shows "f_int (Fields_new (pre @ int_bytes little n v @ rest) little) n (length pre) = Done v"
  using assms by (simp add: f_int_def f_array_def checked_add_def get_range_def Fields_new_def int_bytes_def le_nat_rev_be)

lemma f_slice_at:
  assumes "length pre + length bs < 2 ^ 64"
  shows "f_slice (Fields_new (pre @ bs @ rest) little) (length pre) (length bs) = Done bs"
  using assms by (simp add: f_slice_def checked_add_def get_range_def Fields_new_def)

lemma unat_and_not_mask: "unat ((w :: u64) AND NOT (mask k)) = unat w div 2 ^ k * 2 ^ k"
proof -
  have "unat (w AND NOT (mask k)) = push_bit k (drop_bit k (unat w))"
    by (rule bit_eqI) (auto simp: bit_simps bit_unsigned_iff dest: bit_imp_le_length)
  then show ?thesis
    by (simp add: push_bit_eq_mult drop_bit_eq_div)
qed

lemma align_up_eq:
  assumes "n + (2 ^ k - 1) < 2 ^ 64" and "k < 64"
  shows "align_up n (2 ^ k) = Done ((n + (2 ^ k - 1)) div 2 ^ k * 2 ^ k)"
proof -
  have "(word_of_nat (2 ^ k - 1) :: u64) = mask k"
    by (simp add: mask_eq_exp_minus_1 of_nat_diff)
  then show ?thesis
    using assms by (simp add: align_up_def checked_add_def Let_def unat_and_not_mask unsigned_of_nat take_bit_nat_eq_self)
qed

end
