(* ===== verification/Elf_Note.thy ===== *)
theory Elf_Note
  imports Bounded_Read
begin

text \<open>
  \<open>crates/ferro-appid/src/elf.rs\<close>: the package-metadata note of an ELF file. The JSON decoder is the
  argument \<open>J\<close>: \<open>None\<close> when the text is not JSON, \<open>Some None\<close> when it is not an object, otherwise the
  string members of the object.
\<close>

section \<open>Constants\<close>

definition NT_FDO_PACKAGING_METADATA :: nat where
  "NT_FDO_PACKAGING_METADATA = 0xcafe1a7e"

definition MAX_DESC :: nat where
  "MAX_DESC = 4096"

definition MAX_REGION :: nat where
  "MAX_REGION = 64 * 1024"

definition MAX_REGIONS :: nat where
  "MAX_REGIONS = 64"

definition MAX_HEADERS :: nat where
  "MAX_HEADERS = 4096"

definition SHT_NOTE :: nat where
  "SHT_NOTE = 7"

definition PT_NOTE :: nat where
  "PT_NOTE = 4"

record package_note_info =
  pn_name :: "string option"
  pn_version :: "string option"

record layout =
  lay_little_endian :: bool
  lay_is64 :: bool

definition layout_word :: "layout \<Rightarrow> fields \<Rightarrow> nat \<Rightarrow> nat \<Rightarrow> nat outcome" where
  "layout_word l f off32 off64 = (if lay_is64 l then f_u64 f off64 else f_u32 f off32)"

type_synonym region = "nat \<times> nat \<times> nat"
type_synonym json_decoder = "bytes \<Rightarrow> (string \<Rightarrow> string option) option option"

section \<open>Header tables\<close>

fun collect_entries ::
  "layout \<Rightarrow> bytes \<Rightarrow> nat \<Rightarrow> nat \<Rightarrow> nat \<times> nat \<times> nat \<times> nat \<Rightarrow> nat list \<Rightarrow> region list \<Rightarrow> region list outcome" where
  "collect_entries l table entsize wanted fs [] out = Done out"
| "collect_entries l table entsize wanted fs (i # is) out =
     bind_outcome (times_w 64 i entsize) (\<lambda>from.
     bind_outcome (times_w 64 (i + 1) entsize) (\<lambda>to.
     bind_outcome (index_range table from to) (\<lambda>b.
     let entry = Fields_new b (lay_little_endian l);
         (t, ofs, s, a) = fs
     in bind_outcome (f_u32 entry t) (\<lambda>kind.
        if kind \<noteq> wanted then collect_entries l table entsize wanted fs is out
        else
          let word = (if lay_is64 l then f_u64 entry else f_u32 entry)
          in bind_outcome (word ofs) (\<lambda>offset.
             bind_outcome (word s) (\<lambda>sz.
             bind_outcome (word a) (\<lambda>align.
             collect_entries l table entsize wanted fs is
               (if sz > 0 \<and> \<not> List.member out (offset, sz, align) then out @ [(offset, sz, align)] else out))))))))"

definition collect_regions ::
  "os_env \<Rightarrow> layout \<Rightarrow> nat \<Rightarrow> nat \<Rightarrow> nat \<Rightarrow> nat \<Rightarrow> nat \<Rightarrow> nat \<times> nat \<times> nat \<times> nat \<Rightarrow> region list \<Rightarrow> region list parser" where
  "collect_regions E l table_off entsize count min_entsize wanted fs out =
     (if table_off = 0 \<or> count = 0 \<or> count = 0xffff then ret (Done out)
      else if entsize < min_entsize \<or> count > MAX_HEADERS then ret (Err (MalformedData ''elf header table''))
      else bind_parser (ret (times_w 64 entsize count)) (\<lambda>len.
           bind_parser (read_at E table_off len) (\<lambda>table.
           ret (collect_entries l table entsize wanted fs [0..<count] out))))"

section \<open>Notes\<close>

definition FDO_OWNER :: bytes where
  "FDO_OWNER = str_bytes ''FDO'' @ [0]"

text \<open>One turn of the loop: \<open>Inl\<close> ends it, \<open>Inr next\<close> goes on at \<open>next\<close>.\<close>

definition note_step :: "bytes \<Rightarrow> bool \<Rightarrow> nat \<Rightarrow> nat \<Rightarrow> (bytes, nat) sum outcome" where
  "note_step data little align off =
     (let f = Fields_new data little in
      bind_outcome (bind_outcome (f_u32 f off) to_usize) (\<lambda>namesz.
      bind_outcome (plus_w 64 off 4) (\<lambda>desc_size_at.
      bind_outcome (bind_outcome (f_u32 f desc_size_at) to_usize) (\<lambda>descsz.
      bind_outcome (plus_w 64 off 8) (\<lambda>kind_at.
      bind_outcome (f_u32 f kind_at) (\<lambda>kind.
      bind_outcome (plus_w 64 off 12) (\<lambda>name_at.
      bind_outcome (bind_outcome (align_up namesz align) (checked_add name_at)) (\<lambda>desc_at.
      bind_outcome (bind_outcome (align_up descsz align) (checked_add desc_at)) (\<lambda>next.
      bind_outcome (f_slice f name_at namesz) (\<lambda>name.
      if kind = NT_FDO_PACKAGING_METADATA \<and> name = FDO_OWNER then
        if descsz > MAX_DESC then Err (MalformedData ''package note too large'')
        else bind_outcome (f_slice f desc_at descsz) (\<lambda>d. Done (Inl d))
      else if next \<le> off then Err (MalformedData ''elf note'')
      else Done (Inr next)))))))))))"

lemma note_step_progress: "note_step data little align off = Done (Inr next) \<Longrightarrow> off < next"
  unfolding note_step_def Let_def by (auto simp: outcome_simps split: if_splits)

function find_note_loop :: "bytes \<Rightarrow> bool \<Rightarrow> nat \<Rightarrow> nat \<Rightarrow> bytes option outcome" where
  "find_note_loop data little align off =
     (if length data - off < 12 then Done None
      else bind_outcome (note_step data little align off) (\<lambda>r.
        case r of Inl d \<Rightarrow> Done (Some d) | Inr next \<Rightarrow> find_note_loop data little align next))"
  by auto
termination
  by (relation "measure (\<lambda>(data, little, align, off). length data - off)")
    (auto dest: note_step_progress)

declare find_note_loop.simps [simp del]

definition find_note :: "bytes \<Rightarrow> bool \<Rightarrow> nat \<Rightarrow> bytes option outcome" where
  "find_note data little align = find_note_loop data little align 0"

section \<open>The descriptor\<close>

text \<open>State of the scan: depth, maximum, inside a string, after a backslash.\<close>

definition depth_step :: "nat \<times> nat \<times> bool \<times> bool \<Rightarrow> u8 \<Rightarrow> nat \<times> nat \<times> bool \<times> bool" where
  "depth_step st b =
     (case st of (depth, mx, in_string, escaped) \<Rightarrow>
        if in_string then
          if escaped then (depth, mx, True, False)
          else if b = 0x5c then (depth, mx, True, True)
          else if b = 0x22 then (depth, mx, False, False)
          else (depth, mx, True, False)
        else if b = 0x22 then (depth, mx, True, escaped)
        else if b = 0x7b \<or> b = 0x5b then (depth + 1, max mx (depth + 1), False, escaped)
        else if b = 0x7d \<or> b = 0x5d then (depth - 1, mx, False, escaped)
        else (depth, mx, False, escaped))"

definition json_depth :: "bytes \<Rightarrow> nat" where
  "json_depth json = fst (snd (foldl depth_step (0, 0, False, False) json))"

definition parse_descriptor :: "json_decoder \<Rightarrow> bytes \<Rightarrow> nat \<Rightarrow> package_note_info outcome" where
  "parse_descriptor J desc mx =
     (let json = takeWhile (\<lambda>b. b \<noteq> 0) desc
      in if json_depth json > mx then Err TooDeep
         else case J json of
                Some (Some obj) \<Rightarrow> Done \<lparr>pn_name = obj ''name'', pn_version = obj ''version''\<rparr>
              | _ \<Rightarrow> Err (MalformedData ''package note json''))"

section \<open>The file\<close>

fun region_loop ::
  "os_env \<Rightarrow> json_decoder \<Rightarrow> layout \<Rightarrow> region list \<Rightarrow> package_note_info option parser" where
  "region_loop E J l [] = ret (Done None)"
| "region_loop E J l ((offset, sz, align) # rs) =
     bind_parser (check_time E) (\<lambda>_.
     bind_parser (ret (to_usize sz)) (\<lambda>n.
     bind_parser (read_at E offset (min n MAX_REGION)) (\<lambda>data.
     bind_parser (ret (find_note data (lay_little_endian l) (if align = 8 then 8 else 4))) (\<lambda>found.
     case found of
       Some desc \<Rightarrow> (\<lambda>s. (bind_outcome (parse_descriptor J desc (bg_max_depth (src_budget s))) (\<lambda>n. Done (Some n)), s))
     | None \<Rightarrow> region_loop E J l rs))))"

definition get_at :: "bytes \<Rightarrow> nat \<Rightarrow> u8 option" where
  "get_at b i = (if i < length b then Some (b ! i) else None)"

definition package_note :: "os_env \<Rightarrow> json_decoder \<Rightarrow> package_note_info option parser" where
  "package_note E J =
     bind_parser (read_prefix E 0 64) (\<lambda>head.
     if \<not> starts_with head ELF_MAGIC then ret (Err (MalformedData ''elf header''))
     else if get_at head 4 \<noteq> Some 1 \<and> get_at head 4 \<noteq> Some 2 then ret (Err (MalformedData ''elf class''))
     else if get_at head 5 \<noteq> Some 1 \<and> get_at head 5 \<noteq> Some 2 then ret (Err (MalformedData ''elf data encoding''))
     else
       let l = \<lparr>lay_little_endian = (get_at head 5 = Some 1), lay_is64 = (get_at head 4 = Some 2)\<rparr>;
           f = Fields_new head (lay_little_endian l);
           (ph_at, sh_at) = (if lay_is64 l then (0x36, 0x3a) else (0x2a, 0x2e));
           (sh_size, sh_fields) = (if lay_is64 l then (64, (4, 24, 32, 48)) else (40, (4, 16, 20, 32)));
           (ph_size, ph_fields) = (if lay_is64 l then (56, (0, 8, 32, 48)) else (32, (0, 4, 16, 28)))
       in
       bind_parser (ret (layout_word l f 0x1c 0x20)) (\<lambda>phoff.
       bind_parser (ret (layout_word l f 0x20 0x28)) (\<lambda>shoff.
       bind_parser (ret (f_u16 f ph_at)) (\<lambda>phentsize.
       bind_parser (ret (f_u16 f (ph_at + 2))) (\<lambda>phnum.
       bind_parser (ret (f_u16 f sh_at)) (\<lambda>shentsize.
       bind_parser (ret (f_u16 f (sh_at + 2))) (\<lambda>shnum.
       bind_parser (collect_regions E l shoff shentsize shnum sh_size SHT_NOTE sh_fields []) (\<lambda>regions.
       bind_parser (collect_regions E l phoff phentsize phnum ph_size PT_NOTE ph_fields regions) (\<lambda>regions.
       region_loop E J l (take MAX_REGIONS regions))))))))))"

section \<open>No input makes the parser panic\<close>

lemma note_step_no_panic: "off + 12 < 2 ^ 64 \<Longrightarrow> note_step data little align off \<noteq> Panic"
  unfolding note_step_def Let_def by (auto simp: outcome_simps split: if_splits)

lemma find_note_loop_no_panic: "length data < 2 ^ 64 \<Longrightarrow> find_note_loop data little align off \<noteq> Panic"
proof (induction data little align off rule: find_note_loop.induct)
  case (1 data little align off)
  show ?case
  proof (cases "length data - off < 12")
    case False
    then have "note_step data little align off \<noteq> Panic"
      using "1.prems" by (intro note_step_no_panic) simp
    with False show ?thesis
      using 1 by (subst find_note_loop.simps) (auto simp: outcome_simps split: sum.splits)
  qed (simp add: find_note_loop.simps)
qed

lemma collect_entries_no_panic:
  assumes "\<forall>i\<in>set is. (i + 1) * entsize \<le> length table" and "length table < 2 ^ 64"
  shows "collect_entries l table entsize wanted fs is out \<noteq> Panic"
  using assms(1)
proof (induction "is" arbitrary: out)
  case (Cons i "is")
  have "(i + 1) * entsize \<le> length table" using Cons.prems by simp
  then have "i * entsize < 2 ^ 64" "(i + 1) * entsize < 2 ^ 64" "index_range table (i * entsize) ((i + 1) * entsize) \<noteq> Panic"
    using assms(2) by (simp_all add: index_range_def)
  moreover have "collect_entries l table entsize wanted fs is out' \<noteq> Panic" for out'
    using Cons by simp
  ultimately show ?case
    by (cases fs) (auto simp: outcome_simps Let_def split: if_splits)
qed simp

lemma safe_collect_regions:
  assumes "entsize < 65536"
  shows "safe E (collect_regions E l off entsize count m wanted fs out)"
proof (cases "count > MAX_HEADERS")
  case False
  have "entsize * count \<le> 65536 * 4096"
    using assms False by (intro mult_le_mono) (simp_all add: MAX_HEADERS_def)
  then have small: "entsize * count < 2 ^ 64" by simp
  have "safe E (bind_parser (read_at E off (entsize * count)) (\<lambda>table. ret (collect_entries l table entsize wanted fs [0..<count] out)))"
  proof (rule safe_bind [OF safe_read_at], rule safe_ret, rule collect_entries_no_panic)
    fix table s s'
    assume r: "read_at E off (entsize * count) s = (Done table, s')"
    show "length table < 2 ^ 64" using small read_at_Done(2) [OF r] by simp
    show "\<forall>i\<in>set [0..<count]. (i + 1) * entsize \<le> length table"
    proof
      fix i assume "i \<in> set [0..<count]"
      then have "(i + 1) * entsize \<le> count * entsize" by (intro mult_le_mono1) simp
      then show "(i + 1) * entsize \<le> length table"
        using read_at_Done(2) [OF r] by (simp add: mult.commute)
    qed
  qed
  then have "safe E (bind_parser (ret (times_w 64 entsize count)) (\<lambda>len. bind_parser (read_at E off len)
      (\<lambda>table. ret (collect_entries l table entsize wanted fs [0..<count] out))))"
    by (intro safe_bind [OF safe_ret]) (use small in \<open>simp_all add: outcome_simps\<close>)
  then show ?thesis
    unfolding collect_regions_def by (simp add: safe_ret)
qed (simp add: collect_regions_def safe_ret)

lemma safe_region_loop [safe_intros]: "safe E (region_loop E J l rs)"
proof (induction rs)
  case (Cons r rs)
  obtain offset sz align where r: "r = (offset, sz, align)" by (cases r)
  have "safe E (\<lambda>s. (bind_outcome (parse_descriptor J d (bg_max_depth (src_budget s))) (\<lambda>n. Done (Some n)), s))" for d
    by (auto simp: safe_def outcome_simps parse_descriptor_def Let_def split: option.splits if_splits)
  moreover have "find_note data little align \<noteq> Panic" if "read_at E at (min n MAX_REGION) s = (Done data, s')"
    for data little align at n s s'
    using read_at_Done(2) [OF that] by (simp add: find_note_def find_note_loop_no_panic MAX_REGION_def)
  ultimately show ?case
    unfolding r region_loop.simps
    by (intro safe_intros Cons.IH) (simp_all)
qed (simp add: safe_ret)

lemma safe_package_note: "safe E (package_note E J)"
  unfolding package_note_def Let_def
  by (intro safe_intros safe_collect_regions) (auto simp: layout_word_def dest!: field_bounds)

section \<open>Notes as a producer writes them\<close>

text \<open>
  The layout of the ELF object format for a region of alignment \<open>align\<close>: the descriptor starts at the first
  multiple of \<open>align\<close>, counted from the start of the note, after the header and the name, and the next note at
  the first multiple after the descriptor.
\<close>

record elf_note =
  nt_kind :: nat
  nt_name :: bytes
  nt_desc :: bytes

definition padded :: "nat \<Rightarrow> bytes \<Rightarrow> bytes" where
  "padded align bs = bs @ replicate ((length bs + (align - 1)) div align * align - length bs) 0"

definition note_head :: "bool \<Rightarrow> elf_note \<Rightarrow> bytes" where
  "note_head little n =
     int_bytes little 4 (length (nt_name n)) @ int_bytes little 4 (length (nt_desc n)) @ int_bytes little 4 (nt_kind n)"

definition encode_note :: "bool \<Rightarrow> nat \<Rightarrow> elf_note \<Rightarrow> bytes" where
  "encode_note little align n = padded align (padded align (note_head little n @ nt_name n) @ nt_desc n)"

definition package_metadata :: "elf_note \<Rightarrow> bool" where
  "package_metadata n \<longleftrightarrow> nt_kind n = NT_FDO_PACKAGING_METADATA \<and> nt_name n = FDO_OWNER"

definition note_wf :: "elf_note \<Rightarrow> bool" where
  "note_wf n \<longleftrightarrow> nt_kind n < 2 ^ 32 \<and> length (nt_name n) < 2 ^ 32 \<and> length (nt_desc n) < 2 ^ 32 \<and>
     (package_metadata n \<longrightarrow> length (nt_desc n) \<le> MAX_DESC)"

lemma length_note_head [simp]: "length (note_head little n) = 12"
  by (simp add: note_head_def)

lemma padded_append: "align dvd length xs \<Longrightarrow> 0 < align \<Longrightarrow> padded align (xs @ ys) = xs @ padded align ys"
proof -
  assume "align dvd length xs" and pos: "0 < align"
  then obtain k where k: "length xs = align * k" by (elim dvdE)
  have "(length (xs @ ys) + (align - 1)) div align = (align * k + (length ys + (align - 1))) div align"
    by (simp add: k add.assoc)
  also have "\<dots> = k + (length ys + (align - 1)) div align"
    using pos by (subst div_mult_self4) simp_all
  finally have "(length (xs @ ys) + (align - 1)) div align * align - length (xs @ ys) =
      (length ys + (align - 1)) div align * align - length ys"
    by (simp add: k algebra_simps)
  then show ?thesis unfolding padded_def by (simp only: append_assoc)
qed

text \<open>The layout the scanner expects: the name and the descriptor padded each on its own.\<close>

definition note_bytes :: "bool \<Rightarrow> nat \<Rightarrow> elf_note \<Rightarrow> bytes" where
  "note_bytes little align n =
     int_bytes little 4 (length (nt_name n)) @ int_bytes little 4 (length (nt_desc n)) @ int_bytes little 4 (nt_kind n) @
     padded align (nt_name n) @ padded align (nt_desc n)"

lemma length_padded:
  assumes "align = 4 \<or> align = 8"
  shows "length (padded align bs) = (length bs + (align - 1)) div align * align"
  using assms by (auto simp: padded_def)

lemma align_up_padded:
  assumes "align = 4 \<or> align = 8" and "length bs < 2 ^ 32"
  shows "align_up (length bs) align = Done (length (padded align bs))"
  using assms align_up_eq [of "length bs" 2] align_up_eq [of "length bs" 3] by (auto simp: length_padded)

lemma padded_split: "\<exists>z. padded align bs = bs @ z"
  by (simp add: padded_def)

lemma length_note_bytes [simp]:
  "length (note_bytes little align n) = 12 + length (padded align (nt_name n)) + length (padded align (nt_desc n))"
  by (simp add: note_bytes_def)

lemma note_step_at:
  assumes align: "align = 4 \<or> align = 8" and wf: "note_wf n"
    and len: "length (pre @ note_bytes little align n @ rest) < 2 ^ 63"
  shows "note_step (pre @ note_bytes little align n @ rest) little align (length pre) =
    Done (if package_metadata n then Inl (nt_desc n) else Inr (length (pre @ note_bytes little align n)))"
proof -
  let ?name = "nt_name n" and ?desc = "nt_desc n"
  let ?a = "int_bytes little 4 (length ?name)" and ?b = "int_bytes little 4 (length ?desc)"
    and ?c = "int_bytes little 4 (nt_kind n)"
  define data where "data = pre @ note_bytes little align n @ rest"
  obtain z z' where z: "padded align ?name = ?name @ z" "padded align ?desc = ?desc @ z'"
    using padded_split by metis
  have d0: "data = pre @ ?a @ (?b @ ?c @ ?name @ z @ ?desc @ z' @ rest)"
    and d1: "data = (pre @ ?a) @ ?b @ (?c @ ?name @ z @ ?desc @ z' @ rest)"
    and d2: "data = (pre @ ?a @ ?b) @ ?c @ (?name @ z @ ?desc @ z' @ rest)"
    and d3: "data = (pre @ ?a @ ?b @ ?c) @ ?name @ (z @ ?desc @ z' @ rest)"
    and d4: "data = (pre @ ?a @ ?b @ ?c @ ?name @ z) @ ?desc @ (z' @ rest)"
    by (simp_all add: data_def note_bytes_def z)
  have small: "length pre + 12 + length ?name + length z + length ?desc + length z' < 2 ^ 63"
    using len by (simp add: z)
  have lens: "length ?name < 256 ^ 4" "length ?desc < 256 ^ 4" "nt_kind n < 256 ^ 4"
    using wf by (simp_all add: note_wf_def)
  have fields: "f_u32 (Fields_new data little) (length pre) = Done (length ?name)"
    "f_u32 (Fields_new data little) (length pre + 4) = Done (length ?desc)"
    "f_u32 (Fields_new data little) (length pre + 8) = Done (nt_kind n)"
    using f_int_at [OF lens(1), of pre little] f_int_at [OF lens(2), of "pre @ ?a" little]
      f_int_at [OF lens(3), of "pre @ ?a @ ?b" little] small
    unfolding f_u32_def d0 [symmetric] d1 [symmetric] d2 [symmetric] by (simp_all add: d0 d1 d2)
  have slices: "f_slice (Fields_new data little) (length pre + 12) (length ?name) = Done ?name"
    "f_slice (Fields_new data little) (length pre + 12 + length (padded align ?name)) (length ?desc) = Done ?desc"
    using f_slice_at [of "pre @ ?a @ ?b @ ?c" ?name "z @ ?desc @ z' @ rest" little]
      f_slice_at [of "pre @ ?a @ ?b @ ?c @ ?name @ z" ?desc "z' @ rest" little] small
    unfolding d3 [symmetric] d4 [symmetric] by (simp_all add: z add.assoc)
  have name32: "length ?name < 2 ^ 32" and desc32: "length ?desc < 2 ^ 32"
    using wf by (simp_all add: note_wf_def)
  note up = align_up_padded [OF align name32] align_up_padded [OF align desc32]
  have adds: "checked_add (length pre + 12) (length (padded align ?name)) = Done (length pre + 12 + length (padded align ?name))"
    "checked_add (length pre + 12 + length (padded align ?name)) (length (padded align ?desc)) =
      Done (length (pre @ note_bytes little align n))"
    using small by (simp_all add: checked_add_def z)
  have sums: "plus_w 64 (length pre) k = Done (length pre + k)" if "k \<le> 12" for k
    using small that by (simp add: plus_w_def)
  have owner: "?name = FDO_OWNER \<Longrightarrow>
      f_slice (Fields_new data little) (length pre + 12 + length (padded align FDO_OWNER)) (length ?desc) = Done ?desc"
    using slices(2) by simp
  have grows: "\<not> length (pre @ note_bytes little align n) \<le> length pre"
    by simp
  have "to_usize (length ?name) = Done (length ?name)" "to_usize (length ?desc) = Done (length ?desc)"
    using small by (simp_all add: to_usize_def)
  then have "note_step data little align (length pre) =
      (if package_metadata n then
         if length ?desc > MAX_DESC then Err (MalformedData ''package note too large'') else Done (Inl ?desc)
       else Done (Inr (length (pre @ note_bytes little align n))))"
    unfolding note_step_def Let_def fields bind_outcome.simps up adds slices package_metadata_def
    using grows owner by (simp add: fields sums up adds slices del: length_append)
  then show ?thesis
    using wf unfolding data_def [symmetric] note_wf_def by auto
qed

lemma find_note_loop_notes:
  assumes align: "align = 4 \<or> align = 8" and wf: "\<forall>n\<in>set ns. note_wf n" and tail: "length tail < 12"
    and len: "length (pre @ concat (map (note_bytes little align) ns) @ tail) < 2 ^ 63"
  shows "find_note_loop (pre @ concat (map (note_bytes little align) ns) @ tail) little align (length pre) =
    Done (map_option nt_desc (List.find package_metadata ns))"
  using wf len
proof (induction ns arbitrary: pre)
  case Nil
  then show ?case
    using tail by (subst find_note_loop.simps) simp
next
  case (Cons n ns)
  let ?rest = "concat (map (note_bytes little align) ns) @ tail"
  have step: "note_step (pre @ note_bytes little align n @ ?rest) little align (length pre) =
      Done (if package_metadata n then Inl (nt_desc n) else Inr (length (pre @ note_bytes little align n)))"
    using Cons.prems by (intro note_step_at align) simp_all
  have ih: "find_note_loop ((pre @ note_bytes little align n) @ ?rest) little align (length (pre @ note_bytes little align n)) =
      Done (map_option nt_desc (List.find package_metadata ns))"
    using Cons.prems by (intro Cons.IH) simp_all
  show ?case
  proof (cases "package_metadata n")
    case True
    then show ?thesis
      using step by (subst find_note_loop.simps) simp
  next
    case False
    then show ?thesis
      using step ih by (subst find_note_loop.simps) simp
  qed
qed

lemma encode_note_aligned4: "encode_note little 4 n = note_bytes little 4 n"
proof -
  have "padded 4 (note_head little n @ nt_name n) = note_head little n @ padded 4 (nt_name n)"
    by (rule padded_append) simp_all
  moreover have "4 dvd length (note_head little n @ padded 4 (nt_name n))"
    by (simp add: length_padded)
  ultimately have "encode_note little 4 n = (note_head little n @ padded 4 (nt_name n)) @ padded 4 (nt_desc n)"
    unfolding encode_note_def by (simp only: padded_append)
  then show ?thesis by (simp add: note_bytes_def note_head_def)
qed

lemma find_note_aligned8:
  assumes "package_metadata n" and "note_wf n" and data: "data = note_head little n @ nt_name n @ nt_desc n @ z"
  shows "find_note data little 8 =
    bind_outcome (f_slice (Fields_new data little) 20 (length (nt_desc n))) (\<lambda>d. Done (Some d))"
proof -
  let ?f = "Fields_new data little"
  let ?a = "int_bytes little 4 (length (nt_name n))" and ?b = "int_bytes little 4 (length (nt_desc n))"
    and ?c = "int_bytes little 4 (nt_kind n)"
  have name: "length (nt_name n) = 4" "nt_name n = FDO_OWNER" and kind: "nt_kind n = NT_FDO_PACKAGING_METADATA"
    and small: "length (nt_desc n) \<le> 4096"
    using assms(1,2) by (simp_all add: package_metadata_def note_wf_def FDO_OWNER_def str_bytes_def MAX_DESC_def)
  have fields: "f_u32 ?f 0 = Done 4" "f_u32 ?f 4 = Done (length (nt_desc n))" "f_u32 ?f 8 = Done NT_FDO_PACKAGING_METADATA"
    using f_int_at [of "length (nt_name n)" 4 "[]" little] f_int_at [of "length (nt_desc n)" 4 ?a little]
      f_int_at [of "nt_kind n" 4 "?a @ ?b" little] small
    unfolding f_u32_def by (simp_all add: data note_head_def name(1) kind NT_FDO_PACKAGING_METADATA_def)
  have owner: "f_slice ?f 12 4 = Done FDO_OWNER"
    using f_slice_at [of "note_head little n" "nt_name n" "nt_desc n @ z" little] name(1) by (simp add: data name(2))
  have up: "align_up 4 8 = Done 8" "align_up (length (nt_desc n)) 8 = Done ((length (nt_desc n) + 7) div 8 * 8)"
    using align_up_eq [of 4 3] align_up_eq [of "length (nt_desc n)" 3] small by simp_all
  have "(length (nt_desc n) + 7) div 8 \<le> 513"
    using small by linarith
  then have "note_step data little 8 0 = bind_outcome (f_slice ?f 20 (length (nt_desc n))) (\<lambda>d. Done (Inl d))"
    using small by (simp add: note_step_def fields owner up to_usize_def plus_w_def checked_add_def MAX_DESC_def)
  moreover have "\<not> length data - 0 < 12" by (simp add: data)
  ultimately show ?thesis
    unfolding find_note_def
    by (subst find_note_loop.simps) (cases "f_slice ?f 20 (length (nt_desc n))"; simp)
qed

section \<open>Properties\<close>

text \<open>
  C36. No ELF file makes the parser panic, loop, read outside the file or overrun its budgets. For every
  file content, every announced length, limits, clock and read failure, and any JSON decoder,
  \<open>package_note\<close> returns a note, no note or an error: no slice is out of range and no unchecked sum or product
  overflows. The file is only read; every read lies within the announced length and starts right after the clock
  was seen before the deadline; and the bytes requested from the file add up to at most the byte
  budget of the limits.
\<close>

theorem package_note_safe:
  "let (r, s') = package_note E J (Source_new data len (Budget_new E l c) c') in
     r \<noteq> Panic \<and> src_inner s' = data \<and> read_total (src_reads s') \<le> max_metadata_bytes l \<and>
     list_all (read_ok E len (os_now E c + time_budget l)) (src_reads s')"
proof -
  obtain r s' where run: "package_note E J (Source_new data len (Budget_new E l c) c') = (r, s')" by fastforce
  show ?thesis using safe_run [OF safe_package_note run] by (simp add: run)
qed


text \<open>
  C94. In a region of eight-byte alignment the scanner pads the name on its own, not together with the
  twelve bytes of the header, and so looks for the descriptor four bytes too far: a package-metadata
  note laid out as the object format prescribes is never read back, whatever its descriptor, as long
  as that does not end in a zero byte.
\<close>

theorem find_note_misses_aligned8:
  assumes "nt_desc n \<noteq> []" "last (nt_desc n) \<noteq> 0" and "package_metadata n" and "note_wf n"
  shows "find_note (encode_note little 8 n) little 8 \<noteq> Done (Some (nt_desc n))"
proof -
  let ?data = "encode_note little 8 n" and ?d = "nt_desc n"
  have name: "length (nt_name n) = 4"
    using assms(3) by (simp add: package_metadata_def FDO_OWNER_def str_bytes_def)
  have "padded 8 (note_head little n @ nt_name n) = note_head little n @ nt_name n"
    using assms(3) by (simp add: padded_def package_metadata_def FDO_OWNER_def str_bytes_def)
  then obtain z where data: "?data = note_head little n @ nt_name n @ ?d @ replicate z 0"
    by (auto simp: encode_note_def padded_def)
  show ?thesis
  proof
    assume found: "find_note ?data little 8 = Done (Some ?d)"
    have slice: "f_slice (Fields_new ?data little) 20 (length ?d) = Done ?d"
      using found unfolding find_note_aligned8 [OF assms(3,4) data] by (auto simp: outcome_simps)
    then have r: "20 + length ?d \<le> length ?data" "take (length ?d) (drop 20 ?data) = ?d"
      by (auto simp: f_slice_def checked_add_def get_range_def Fields_new_def outcome_simps split: if_splits)
    have "last ?d = ?d ! (length ?d - 1)" using assms(1) by (rule last_conv_nth)
    also have "\<dots> = take (length ?d) (drop 20 ?data) ! (length ?d - 1)" by (simp add: r(2))
    also have "\<dots> = ?data ! (20 + (length ?d - 1))" using assms(1) r(1) by simp
    also have "\<dots> = ((note_head little n @ nt_name n @ ?d) @ replicate z 0) ! (length (note_head little n @ nt_name n @ ?d) + 3)"
    proof -
      have "20 + (length ?d - 1) = length (note_head little n @ nt_name n @ ?d) + 3"
        using assms(1) name by (cases ?d) simp_all
      then show ?thesis by (simp only: data append_assoc)
    qed
    also have "\<dots> = 0" unfolding nth_append_length_plus using r(1) name by (simp add: data)
    finally show False using assms(2) by simp
  qed
qed

section \<open>Witnesses\<close>

definition build_id :: elf_note where
  "build_id = \<lparr>nt_kind = 3, nt_name = str_bytes ''GNU'' @ [0], nt_desc = [1, 2, 3]\<rparr>"

definition fdo_note :: elf_note where
  "fdo_note = \<lparr>nt_kind = NT_FDO_PACKAGING_METADATA, nt_name = FDO_OWNER, nt_desc = str_bytes ''{}''\<rparr>"

lemma example_notes_wf: "note_wf build_id" "note_wf fdo_note" "\<not> package_metadata build_id" "package_metadata fdo_note"
  by (simp_all add: note_wf_def build_id_def fdo_note_def package_metadata_def NT_FDO_PACKAGING_METADATA_def FDO_OWNER_def
      str_bytes_def MAX_DESC_def)


theorem find_note_misses_aligned8_witness: "find_note (encode_note True 8 fdo_note) True 8 \<noteq> Done (Some (str_bytes ''{}''))"
  using find_note_misses_aligned8 [of fdo_note True] example_notes_wf(2,4) by (simp add: fdo_note_def str_bytes_def)

end
