(* ===== verification/Pe_Version.thy ===== *)
theory Pe_Version
  imports Bounded_Read
begin

text \<open>
  \<open>crates/ferro-appid/src/pe.rs\<close>: the version resource and the certificate table of a PE file. Texts
  decoded from UTF-16 are lists of Unicode scalar values; \<open>u32\<close> quantities are natural numbers, with
  the checked additions written out.
\<close>

section \<open>Constants and data\<close>

type_synonym ustring = "nat list"

definition u_of :: "string \<Rightarrow> ustring" where
  "u_of s = map of_char s"

definition RT_VERSION :: nat where
  "RT_VERSION = 16"

definition MAX_VERSION_RESOURCE :: nat where
  "MAX_VERSION_RESOURCE = 1024 * 1024"

definition MAX_DIR_ENTRIES :: nat where
  "MAX_DIR_ENTRIES = 4096"

definition MAX_SECTIONS :: nat where
  "MAX_SECTIONS = 96"

definition MAX_BLOCKS :: nat where
  "MAX_BLOCKS = 4096"

definition FIXED_FILE_INFO_SIGNATURE :: nat where
  "FIXED_FILE_INFO_SIGNATURE = 0xfeef04bd"

definition DIR_RESOURCE :: nat where
  "DIR_RESOURCE = 2"

definition DIR_SECURITY :: nat where
  "DIR_SECURITY = 4"

record pe_version =
  product_version :: "ustring option"
  file_version :: "ustring option"
  product_name :: "ustring option"
  company_name :: "ustring option"
  fixed_product_version :: "ustring option"

definition empty_version :: pe_version where
  "empty_version = \<lparr>product_version = None, file_version = None, product_name = None, company_name = None,
     fixed_product_version = None\<rparr>"

record pe_facts =
  version :: "pe_version option"
  has_certificate_table :: bool

record pe_section =
  virtual_address :: nat
  virtual_size :: nat
  raw_size :: nat
  raw_pointer :: nat

fun rva_to_offset :: "pe_section list \<Rightarrow> nat \<Rightarrow> nat option" where
  "rva_to_offset [] rva = None"
| "rva_to_offset (s # ss) rva =
     (if virtual_address s \<le> rva \<and>
         (let delta = rva - virtual_address s; span = max (virtual_size s) (raw_size s)
          in delta < span \<and> delta < raw_size s)
      then Some (raw_pointer s + (rva - virtual_address s))
      else rva_to_offset ss rva)"

section \<open>Version blocks\<close>

text \<open>\<open>String::from_utf16_lossy\<close>: an unpaired surrogate becomes U+FFFD.\<close>

fun from_utf16_lossy :: "nat list \<Rightarrow> ustring" where
  "from_utf16_lossy [] = []"
| "from_utf16_lossy [u] = [if 0xD800 \<le> u \<and> u < 0xE000 then 0xFFFD else u]"
| "from_utf16_lossy (u # v # us) =
     (if u < 0xD800 \<or> 0xE000 \<le> u then u # from_utf16_lossy (v # us)
      else if u < 0xDC00 \<and> 0xDC00 \<le> v \<and> v < 0xE000
      then (0x10000 + (u - 0xD800) * 0x400 + (v - 0xDC00)) # from_utf16_lossy us
      else 0xFFFD # from_utf16_lossy (v # us))"

function utf16z_loop :: "bytes \<Rightarrow> nat \<Rightarrow> nat list \<Rightarrow> (nat list \<times> nat) outcome" where
  "utf16z_loop buf at units =
     bind_outcome (f_u16 (Fields_le buf) at) (\<lambda>u.
     bind_outcome (plus_w 64 at 2) (\<lambda>at.
     if u = 0 then Done (units, at)
     else if length (units @ [u]) > 512 then Err (MalformedData ''version key'')
     else utf16z_loop buf at (units @ [u])))"
  by auto
termination
  by (relation "measure (\<lambda>(buf, at, units). length buf - at)") (auto dest: f_u16_Done simp: Fields_le_def outcome_simps)

definition utf16z :: "bytes \<Rightarrow> nat \<Rightarrow> (ustring \<times> nat) outcome" where
  "utf16z buf off = bind_outcome (utf16z_loop buf off []) (\<lambda>(units, at). Done (from_utf16_lossy units, at))"

record block_info =
  bl_key :: ustring
  bl_value :: bytes
  bl_text :: bool
  bl_children :: "nat \<times> nat"

text \<open>\<open>saturating_add\<close> and \<open>saturating_mul\<close>.\<close>

definition saturating_w :: "nat \<Rightarrow> nat \<Rightarrow> nat" where
  "saturating_w w n = min n (2 ^ w - 1)"

definition block :: "bytes \<Rightarrow> nat \<Rightarrow> nat \<Rightarrow> (block_info \<times> nat) outcome" where
  "block buf off stop =
     (let f = Fields_le buf in
      bind_outcome (f_u16 f off) (\<lambda>len.
      bind_outcome (plus_w 64 off 2) (\<lambda>value_len_at.
      bind_outcome (f_u16 f value_len_at) (\<lambda>value_len.
      bind_outcome (plus_w 64 off 4) (\<lambda>kind_at.
      bind_outcome (f_u16 f kind_at) (\<lambda>kind.
      bind_outcome (checked_add off len) (\<lambda>block_end.
      if len < 6 \<or> block_end > stop then Err (MalformedData ''version block'')
      else
        bind_outcome (index_range buf 0 block_end) (\<lambda>b.
        bind_outcome (plus_w 64 off 6) (\<lambda>key_at.
        bind_outcome (utf16z b key_at) (\<lambda>(key, key_end).
        bind_outcome (align_up key_end 4) (\<lambda>value_at.
        let value_at = min value_at block_end;
            value_bytes = (if kind = 1 then saturating_w 64 (value_len * 2) else value_len);
            value_end = min (saturating_w 64 (value_at + value_bytes)) block_end
        in bind_outcome (index_range buf value_at value_end) (\<lambda>val.
           bind_outcome (align_up value_end 4) (\<lambda>children_at.
           bind_outcome (align_up block_end 4) (\<lambda>next.
           Done (\<lparr>bl_key = key, bl_value = val, bl_text = (kind = 1),
                  bl_children = (min children_at block_end, block_end)\<rparr>, min next stop)))))))))))))))"

fun u16_pairs :: "bytes \<Rightarrow> nat list" where
  "u16_pairs (a # b # bs) = le_nat [a, b] # u16_pairs bs"
| "u16_pairs _ = []"

definition text_value :: "bytes \<Rightarrow> ustring" where
  "text_value val = from_utf16_lossy (takeWhile (\<lambda>u. u \<noteq> 0) (u16_pairs val))"

definition advance :: "nat \<Rightarrow> nat \<Rightarrow> nat outcome" where
  "advance at next = (if next \<le> at then Err (MalformedData ''version block length'') else Done next)"

definition store_string :: "block_info \<Rightarrow> pe_version \<Rightarrow> pe_version" where
  "store_string s out =
     (let fill = (\<lambda>slot. case slot of None \<Rightarrow> Some (text_value (bl_value s)) | Some x \<Rightarrow> Some x)
      in if \<not> bl_text s then out
         else if bl_key s = u_of ''ProductVersion'' then out\<lparr>product_version := fill (product_version out)\<rparr>
         else if bl_key s = u_of ''FileVersion'' then out\<lparr>file_version := fill (file_version out)\<rparr>
         else if bl_key s = u_of ''ProductName'' then out\<lparr>product_name := fill (product_name out)\<rparr>
         else if bl_key s = u_of ''CompanyName'' then out\<lparr>company_name := fill (company_name out)\<rparr>
         else out)"

text \<open>The three nested loops; each carries the count of visited blocks and the facts found so far.\<close>

function strings_loop :: "bytes \<Rightarrow> nat \<Rightarrow> nat \<Rightarrow> nat \<Rightarrow> pe_version \<Rightarrow> (nat \<times> pe_version) outcome" where
  "strings_loop buf stop at visited out =
     (if at < stop then
        bind_outcome (block buf at stop) (\<lambda>(s, next).
        bind_outcome (plus_w 64 visited 1) (\<lambda>visited.
        if visited > MAX_BLOCKS then Err (MalformedData ''version blocks'')
        else bind_outcome (advance at next) (\<lambda>at'. strings_loop buf stop at' visited (store_string s out))))
      else Done (visited, out))"
  by auto
termination
  by (relation "measure (\<lambda>(buf, stop, at, visited, out). stop - at)") (auto simp: advance_def split: if_splits)

function tables_loop :: "bytes \<Rightarrow> nat \<Rightarrow> nat \<Rightarrow> nat \<Rightarrow> pe_version \<Rightarrow> (nat \<times> pe_version) outcome" where
  "tables_loop buf stop at visited out =
     (if at < stop then
        bind_outcome (block buf at stop) (\<lambda>(table, next).
        bind_outcome (strings_loop buf (snd (bl_children table)) (fst (bl_children table)) visited out) (\<lambda>(visited', out').
        bind_outcome (advance at next) (\<lambda>at'. tables_loop buf stop at' visited' out')))
      else Done (visited, out))"
  by auto
termination
  by (relation "measure (\<lambda>(buf, stop, at, visited, out). stop - at)") (auto simp: advance_def split: if_splits)

function infos_loop :: "bytes \<Rightarrow> nat \<Rightarrow> nat \<Rightarrow> nat \<Rightarrow> pe_version \<Rightarrow> pe_version outcome" where
  "infos_loop buf stop at visited out =
     (if at < stop then
        bind_outcome (block buf at stop) (\<lambda>(info, next).
        bind_outcome (plus_w 64 visited 1) (\<lambda>visited.
        bind_outcome
          (if bl_key info = u_of ''StringFileInfo''
           then tables_loop buf (snd (bl_children info)) (fst (bl_children info)) visited out
           else Done (visited, out)) (\<lambda>(visited', out').
        bind_outcome (advance at next) (\<lambda>at'. infos_loop buf stop at' visited' out'))))
      else Done out)"
  by auto
termination
  by (relation "measure (\<lambda>(buf, stop, at, visited, out). stop - at)") (auto simp: advance_def split: if_splits)

declare utf16z_loop.simps [simp del] strings_loop.simps [simp del] tables_loop.simps [simp del] infos_loop.simps [simp del]

definition fixed_version :: "bytes \<Rightarrow> ustring option outcome" where
  "fixed_version val =
     (if length val \<ge> 52 then
        let v = Fields_le val in
        bind_outcome (f_u32 v 0) (\<lambda>sig.
        if sig = FIXED_FILE_INFO_SIGNATURE then
          bind_outcome (f_u32 v 16) (\<lambda>ms. bind_outcome (f_u32 v 20) (\<lambda>ls.
          Done (Some (u_of (dec (ms div 65536) @ ''.'' @ dec (ms mod 65536) @ ''.'' @
            dec (ls div 65536) @ ''.'' @ dec (ls mod 65536))))))
        else Done None)
      else Done None)"

definition parse_version_info :: "bytes \<Rightarrow> pe_version outcome" where
  "parse_version_info buf =
     bind_outcome (block buf 0 (length buf)) (\<lambda>(root, _).
     if bl_key root \<noteq> u_of ''VS_VERSION_INFO'' then Err (MalformedData ''version root'')
     else bind_outcome (fixed_version (bl_value root)) (\<lambda>fixed.
       infos_loop buf (snd (bl_children root)) (fst (bl_children root)) 0
         (empty_version\<lparr>fixed_product_version := fixed\<rparr>)))"

section \<open>The resource directory\<close>

fun scan_entries :: "fields \<Rightarrow> nat option \<Rightarrow> nat list \<Rightarrow> nat option outcome" where
  "scan_entries l want [] = Done None"
| "scan_entries l want (i # is) =
     bind_outcome (times_w 64 i 8) (\<lambda>at.
     bind_outcome (f_u32 l at) (\<lambda>name.
     bind_outcome (plus_w 64 at 4) (\<lambda>target_at.
     bind_outcome (f_u32 l target_at) (\<lambda>target.
     if (case want of Some w \<Rightarrow> name < 2 ^ 31 \<and> name = w | None \<Rightarrow> True) then Done (Some target)
     else scan_entries l want is))))"

text \<open>\<open>rel.checked_add(n).is_none_or(|end| end > res_size)\<close> on \<open>u32\<close>.\<close>

definition beyond :: "nat \<Rightarrow> nat \<Rightarrow> nat \<Rightarrow> bool" where
  "beyond rel n res_size \<longleftrightarrow> rel + n \<ge> 2 ^ 32 \<or> rel + n > res_size"

definition dir_entry :: "os_env \<Rightarrow> nat \<Rightarrow> nat \<Rightarrow> nat \<Rightarrow> nat option \<Rightarrow> nat option parser" where
  "dir_entry E base res_size rel want =
     (if beyond rel 16 res_size then ret (Err (MalformedData ''resource directory''))
      else
        bind_parser (ret (plus_w 64 base rel)) (\<lambda>at.
        bind_parser (read_at E at 16) (\<lambda>head.
        let h = Fields_le head in
        bind_parser (ret (f_u16 h 12)) (\<lambda>named.
        bind_parser (ret (f_u16 h 14)) (\<lambda>ids.
        bind_parser (ret (plus_w 64 named ids)) (\<lambda>n.
        if n = 0 then ret (Done None)
        else if n > MAX_DIR_ENTRIES then ret (Err (MalformedData ''resource directory''))
        else
          bind_parser (ret (times_w 64 n 8)) (\<lambda>len.
          if len \<ge> 2 ^ 32 then ret (Err TooMuchData)
          else
            bind_parser (ret (plus_w 32 rel 16)) (\<lambda>list_at.
            if beyond list_at len res_size then ret (Err (MalformedData ''resource directory''))
            else
              bind_parser (ret (plus_w 64 at 16)) (\<lambda>at.
              bind_parser (read_at E at len) (\<lambda>lst.
              ret (scan_entries (Fields_le lst) want [0..<n])))))))))))"

text \<open>The levels of the walk from \<open>level\<close> on; the result is the last \<open>rel\<close>, \<open>None\<close> when an entry is missing.\<close>

fun walk_levels :: "os_env \<Rightarrow> nat \<Rightarrow> nat \<Rightarrow> nat \<Rightarrow> nat list \<Rightarrow> nat option parser" where
  "walk_levels E base res_size rel [] = ret (Done (Some rel))"
| "walk_levels E base res_size rel (level # levels) =
     bind_parser (dir_entry E base res_size rel (if level = 0 then Some RT_VERSION else None)) (\<lambda>t.
     case t of
       None \<Rightarrow> ret (Done None)
     | Some target \<Rightarrow>
         let is_dir = (target \<ge> 2 ^ 31)
         in if (level < 2 \<and> \<not> is_dir) \<or> (level = 2 \<and> is_dir) then ret (Err (MalformedData ''resource tree''))
            else walk_levels E base res_size (target mod 2 ^ 31) levels)"

definition version_resource :: "os_env \<Rightarrow> pe_section list \<Rightarrow> nat \<Rightarrow> nat \<Rightarrow> pe_version option parser" where
  "version_resource E secs res_rva res_size =
     (case rva_to_offset secs res_rva of
        None \<Rightarrow> ret (Err (MalformedData ''resource rva''))
      | Some base \<Rightarrow>
          bind_parser (walk_levels E base res_size 0 [0, 1, 2]) (\<lambda>t.
          case t of
            None \<Rightarrow> ret (Done None)
          | Some rel \<Rightarrow>
              if beyond rel 16 res_size then ret (Err (MalformedData ''resource data entry''))
              else
                bind_parser (ret (plus_w 64 base rel)) (\<lambda>entry_at.
                bind_parser (read_at E entry_at 16) (\<lambda>entry.
                let e = Fields_le entry in
                bind_parser (ret (f_u32 e 0)) (\<lambda>data_rva.
                bind_parser (ret (f_u32 e 4)) (\<lambda>n.
                if n > MAX_VERSION_RESOURCE then ret (Err (MalformedData ''version resource too large''))
                else
                  (case rva_to_offset secs data_rva of
                     None \<Rightarrow> ret (Err (MalformedData ''version rva''))
                   | Some at \<Rightarrow>
                       bind_parser (read_at E at n) (\<lambda>data.
                       ret (bind_outcome (parse_version_info data) (\<lambda>v. Done (Some v)))))))))))"

section \<open>The file\<close>

fun read_sections :: "fields \<Rightarrow> nat list \<Rightarrow> pe_section list outcome" where
  "read_sections t [] = Done []"
| "read_sections t (i # is) =
     bind_outcome (times_w 64 i 40) (\<lambda>b.
     bind_outcome (bind_outcome (plus_w 64 b 8) (f_u32 t)) (\<lambda>vsize.
     bind_outcome (bind_outcome (plus_w 64 b 12) (f_u32 t)) (\<lambda>vaddr.
     bind_outcome (bind_outcome (plus_w 64 b 16) (f_u32 t)) (\<lambda>rsize.
     bind_outcome (bind_outcome (plus_w 64 b 20) (f_u32 t)) (\<lambda>rptr.
     bind_outcome (read_sections t is) (\<lambda>ss.
     Done (\<lparr>virtual_address = vaddr, virtual_size = vsize, raw_size = rsize, raw_pointer = rptr\<rparr> # ss)))))))"

definition data_directory :: "fields \<Rightarrow> nat \<Rightarrow> nat \<Rightarrow> nat \<Rightarrow> (nat \<times> nat) outcome" where
  "data_directory opt dirs_at dir_count i =
     (if i \<ge> dir_count then Done (0, 0)
      else
        bind_outcome (bind_outcome (times_w 64 i 8) (plus_w 64 dirs_at)) (\<lambda>at.
        bind_outcome (f_u32 opt at) (\<lambda>rva.
        bind_outcome (bind_outcome (plus_w 64 at 4) (f_u32 opt)) (\<lambda>sz. Done (rva, sz)))))"

definition pe_file_facts :: "os_env \<Rightarrow> pe_facts parser" where
  "pe_file_facts E =
     bind_parser (read_at E 0 64) (\<lambda>dos.
     if \<not> starts_with dos (str_bytes ''MZ'') then ret (Err (MalformedData ''dos header''))
     else
       bind_parser (ret (f_u32 (Fields_le dos) 0x3c)) (\<lambda>pe_at.
       bind_parser (read_at E pe_at 24) (\<lambda>coff.
       if \<not> starts_with coff (str_bytes ''PE'' @ [0, 0]) then ret (Err (MalformedData ''pe signature''))
       else
         let c = Fields_le coff in
         bind_parser (ret (f_u16 c 6)) (\<lambda>sections.
         bind_parser (ret (f_u16 c 20)) (\<lambda>opt_size.
         if sections > MAX_SECTIONS then ret (Err (MalformedData ''section count''))
         else
           bind_parser (ret (plus_w 64 pe_at 24)) (\<lambda>opt_at.
           bind_parser (read_at E opt_at opt_size) (\<lambda>opt.
           let p = Fields_le opt in
           bind_parser (ret (f_u16 p 0)) (\<lambda>magic.
           if magic \<noteq> 0x10b \<and> magic \<noteq> 0x20b then ret (Err (MalformedData ''optional header magic''))
           else
             let (count_at, dirs_at) = (if magic = 0x10b then (92, 96) else (108, 112)) in
             bind_parser (ret (f_u32 p count_at)) (\<lambda>n.
             let dir_count = min n 16 in
             bind_parser (ret (data_directory p dirs_at dir_count DIR_RESOURCE)) (\<lambda>(res_rva, res_size).
             bind_parser (ret (data_directory p dirs_at dir_count DIR_SECURITY)) (\<lambda>(_, cert_size).
             bind_parser (ret (plus_w 64 opt_at opt_size)) (\<lambda>table_at.
             bind_parser (ret (times_w 64 sections 40)) (\<lambda>table_len.
             bind_parser (read_at E table_at table_len) (\<lambda>table.
             bind_parser (ret (read_sections (Fields_le table) [0..<sections])) (\<lambda>secs.
             bind_parser
               (if res_rva \<noteq> 0 \<and> res_size \<noteq> 0 then version_resource E secs res_rva res_size else ret (Done None)) (\<lambda>v.
             ret (Done \<lparr>version = v, has_certificate_table = (cert_size > 0)\<rparr>)))))))))))))))))"

section \<open>No input makes the parser panic\<close>

lemma utf16z_no_panic [simp]: "utf16z buf off \<noteq> Panic"
proof -
  have "utf16z_loop buf at units \<noteq> Panic" for at units
  proof (induction buf at units rule: utf16z_loop.induct)
    case (1 buf at units)
    then show ?case
      by (subst utf16z_loop.simps) (auto simp: outcome_simps dest: f_u16_Done split: if_splits)
  qed
  then show ?thesis by (auto simp: utf16z_def outcome_simps)
qed

text \<open>A block stays inside the range it was parsed from, so every slice it takes is in range.\<close>

lemma block_no_panic:
  assumes "stop \<le> length buf" and "length buf < 2 ^ 62"
  shows "block buf off stop \<noteq> Panic"
proof -
  have "index_range buf 0 e \<noteq> Panic" "index_range buf (min a e) (min (saturating_w 64 (min a e + n)) e) \<noteq> Panic"
    if "e \<le> stop" for a e n
    using that assms by (auto simp: index_range_def saturating_w_def min_def)
  moreover have "off + 6 < 2 ^ 64" if "f_u16 (Fields_le buf) off = Done v" for v
    using f_u16_Done [OF that] assms(2) by (simp add: Fields_le_def)
  ultimately show ?thesis
    unfolding block_def Let_def by (auto simp: outcome_simps split: if_splits prod.splits)
qed

lemma block_Done:
  assumes "block buf off stop = Done (b, next)"
  shows "snd (bl_children b) \<le> stop" "next \<le> stop"
  using assms unfolding block_def Let_def by (auto simp: outcome_simps split: if_splits)

lemma strings_loop_no_panic:
  "stop \<le> length buf \<Longrightarrow> length buf < 2 ^ 62 \<Longrightarrow> visited < 2 ^ 63 \<Longrightarrow> strings_loop buf stop at visited out \<noteq> Panic"
proof (induction buf stop at visited out rule: strings_loop.induct)
  case (1 buf stop at visited out)
  then show ?case
    using block_no_panic [of stop buf at]
    by (subst strings_loop.simps) (auto simp: outcome_simps advance_def MAX_BLOCKS_def split: if_splits prod.splits)
qed

text \<open>The count of visited blocks grows by at most one per turn of the outermost loop beyond its limit.\<close>

lemma strings_loop_visited: "strings_loop buf stop at visited out = Done (v, out') \<Longrightarrow> v \<le> max visited MAX_BLOCKS"
proof (induction buf stop at visited out rule: strings_loop.induct)
  case (1 buf stop at visited out)
  from "1.prems" show ?case
    by (subst (asm) strings_loop.simps) (auto simp: outcome_simps split: if_splits prod.splits dest!: "1.IH")
qed

lemma tables_loop_visited: "tables_loop buf stop at visited out = Done (v, out') \<Longrightarrow> v \<le> max visited MAX_BLOCKS"
proof (induction buf stop at visited out rule: tables_loop.induct)
  case (1 buf stop at visited out)
  show ?case
  proof (cases "at < stop")
    case True
    with "1.prems" obtain t nx u w where step: "block buf at stop = Done (t, nx)"
        "strings_loop buf (snd (bl_children t)) (fst (bl_children t)) visited out = Done (u, w)"
        "advance at nx = Done nx" "tables_loop buf stop nx u w = Done (v, out')"
      by (subst (asm) tables_loop.simps) (auto simp: outcome_simps advance_def split: if_splits)
    have "v \<le> max u MAX_BLOCKS" using "1.IH" [OF True step(1) refl step(2) refl step(3,4)] .
    with strings_loop_visited [OF step(2)] show ?thesis by simp
  qed (use "1.prems" in \<open>simp add: tables_loop.simps\<close>)
qed

lemma tables_loop_no_panic:
  "stop \<le> length buf \<Longrightarrow> length buf < 2 ^ 62 \<Longrightarrow> visited < 2 ^ 63 \<Longrightarrow> tables_loop buf stop at visited out \<noteq> Panic"
proof (induction buf stop at visited out rule: tables_loop.induct)
  case (1 buf stop at visited out)
  have inner: "strings_loop buf (snd (bl_children t)) a visited w \<noteq> Panic" if "block buf at stop = Done (t, nx)" for t nx a w
    using block_Done(1) [OF that] "1.prems" by (intro strings_loop_no_panic) simp_all
  have count: "v < 2 ^ 63" if "strings_loop buf e a visited w = Done (v, w')" for e a w v w'
    using strings_loop_visited [OF that] "1.prems" by (simp add: MAX_BLOCKS_def)
  show ?case
    using 1 inner count block_no_panic [of stop buf at]
    by (subst tables_loop.simps) (auto simp: outcome_simps advance_def split: if_splits prod.splits)
qed

lemma infos_loop_no_panic:
  "stop \<le> length buf \<Longrightarrow> length buf < 2 ^ 62 \<Longrightarrow> visited \<le> MAX_BLOCKS + at \<Longrightarrow> infos_loop buf stop at visited out \<noteq> Panic"
proof (induction buf stop at visited out rule: infos_loop.induct)
  case (1 buf stop at visited out)
  show ?case
  proof (cases "at < stop")
    case True
    then have small: "visited + 1 < 2 ^ 63" using "1.prems" by (simp add: MAX_BLOCKS_def)
    have inner: "tables_loop buf (snd (bl_children t)) a (visited + 1) w \<noteq> Panic" if "block buf at stop = Done (t, nx)" for t nx a w
      using block_Done(1) [OF that] "1.prems" small by (intro tables_loop_no_panic) simp_all
    have count: "v \<le> MAX_BLOCKS + at'" if "tables_loop buf e a (visited + 1) w = Done (v, w')" "at < at'" for e a w v w' at'
      using tables_loop_visited [OF that(1)] that(2) "1.prems"(3) by simp
    show ?thesis
      using 1 inner count small block_no_panic [of stop buf at]
      by (subst infos_loop.simps) (auto simp: outcome_simps advance_def split: if_splits prod.splits)
  qed (simp add: infos_loop.simps)
qed

lemma parse_version_info_no_panic:
  assumes "length buf < 2 ^ 62"
  shows "parse_version_info buf \<noteq> Panic"
proof -
  have "infos_loop buf (snd (bl_children t)) a 0 w \<noteq> Panic" if "block buf 0 (length buf) = Done (t, nx)" for t nx a w
    using block_Done(1) [OF that] assms by (intro infos_loop_no_panic) simp_all
  moreover have "fixed_version val \<noteq> Panic" for val
    by (auto simp: fixed_version_def Let_def outcome_simps split: if_splits)
  ultimately show ?thesis
    using block_no_panic [of "length buf" buf 0] assms
    by (auto simp: parse_version_info_def outcome_simps split: if_splits prod.splits)
qed

lemma scan_entries_no_panic: "\<forall>i\<in>set is. i < 2 ^ 32 \<Longrightarrow> scan_entries l want is \<noteq> Panic"
  by (induction "is") (auto simp: outcome_simps split: if_splits)

lemma read_sections_no_panic: "\<forall>i\<in>set is. i < 2 ^ 32 \<Longrightarrow> read_sections t is \<noteq> Panic"
  by (induction "is") (auto simp: outcome_simps)

lemma data_directory_no_panic: "i < 16 \<Longrightarrow> dirs_at < 2 ^ 32 \<Longrightarrow> data_directory p dirs_at n i \<noteq> Panic"
  by (auto simp: data_directory_def outcome_simps)

text \<open>The sections come from 32-bit fields, so every file offset of an address is below \<open>2 ^ 33\<close>.\<close>

definition section_ok :: "pe_section \<Rightarrow> bool" where
  "section_ok s \<longleftrightarrow> raw_size s < 2 ^ 32 \<and> raw_pointer s < 2 ^ 32"

lemma read_sections_ok: "read_sections t is = Done ss \<Longrightarrow> list_all section_ok ss"
  by (induction "is" arbitrary: ss) (auto simp: outcome_simps section_ok_def dest: f_u32_Done)

lemma rva_to_offset_bound: "list_all section_ok ss \<Longrightarrow> rva_to_offset ss rva = Some base \<Longrightarrow> base < 2 ^ 33"
  by (induction ss) (auto simp: section_ok_def Let_def split: if_splits)

lemma scan_entries_Done: "scan_entries l want is = Done (Some t) \<Longrightarrow> t < 2 ^ 32"
  by (induction "is") (auto simp: outcome_simps dest: f_u32_Done split: if_splits)

lemma safe_dir_entry:
  assumes "base < 2 ^ 33"
  shows "safe E (dir_entry E base res_size rel want)"
  unfolding dir_entry_def Let_def
  by (intro safe_intros)
    (use assms in \<open>auto simp: outcome_simps beyond_def MAX_DIR_ENTRIES_def scan_entries_no_panic dest!: field_bounds\<close>)

lemma safe_walk_levels:
  assumes "base < 2 ^ 33"
  shows "safe E (walk_levels E base res_size rel levels)"
proof (induction levels arbitrary: rel)
  case (Cons level levels)
  then show ?case
    unfolding walk_levels.simps Let_def by (intro safe_intros safe_dir_entry assms) simp_all
qed (simp add: safe_ret)

lemma safe_version_resource:
  assumes "list_all section_ok secs"
  shows "safe E (version_resource E secs res_rva res_size)"
proof -
  have "parse_version_info data \<noteq> Panic" if "read_at E at n s = (Done data, s')" "\<not> n > MAX_VERSION_RESOURCE" for at n s s' data
    using read_at_Done(2) [OF that(1)] that(2) by (intro parse_version_info_no_panic) (simp add: MAX_VERSION_RESOURCE_def)
  then show ?thesis
    unfolding version_resource_def Let_def
    by (intro safe_intros safe_walk_levels)
      (auto simp: outcome_simps beyond_def dest: rva_to_offset_bound [OF assms])
qed

lemma safe_pe_file_facts: "safe E (pe_file_facts E)"
  unfolding pe_file_facts_def Let_def
  by (intro safe_intros safe_version_resource)
    (auto simp: outcome_simps MAX_SECTIONS_def DIR_RESOURCE_def DIR_SECURITY_def data_directory_no_panic read_sections_no_panic
      dest!: field_bounds read_sections_ok split: if_splits)

section \<open>Properties\<close>

text \<open>
  C38. No PE file makes the parser panic, loop, read outside the file or overrun its budgets. For every
  file content, announced length, limits, clock and read failure the parser returns facts or an error:
  every slice of a version block is in range and no unchecked sum or product overflows. The file is only read; every read lies
  within the announced length and starts right after the clock was seen before the deadline; and the bytes requested from the
  file add up to at most the byte budget of the limits.
\<close>

theorem pe_file_facts_safe:
  "let (r, s') = pe_file_facts E (Source_new data len (Budget_new E l c) c') in
     r \<noteq> Panic \<and> src_inner s' = data \<and> read_total (src_reads s') \<le> max_metadata_bytes l \<and>
     list_all (read_ok E len (os_now E c + time_budget l)) (src_reads s')"
proof -
  obtain r s' where run: "pe_file_facts E (Source_new data len (Budget_new E l c) c') = (r, s')" by fastforce
  show ?thesis using safe_run [OF safe_pe_file_facts run] by (simp add: run)
qed

end
