(* ===== verification/Jwks.thy ===== *)
theory Jwks
  imports Composite
begin

text \<open>
  \<open>crates/ferro-svid/src/jwks.rs\<close> and \<open>crl.rs\<close>, the signing side of \<open>issue.rs\<close> they rest on, and the key
  registry of \<open>crates/cmis/src/state.rs\<close>: composite JWKs, the signed revocation list that travels in
  the JWK set, and the set the server publishes. The JSON codec of \<open>serde_json\<close> is the record
  \<open>crl_codec\<close>; \<open>sha256\<close> and the X.509 trust anchor are arguments. Strings are ASCII.
\<close>

section \<open>JWKs\<close>

definition COMPOSITE_KTY :: string where
  "COMPOSITE_KTY = ''FERROGATE-COMPOSITE''"

definition SVID_ALG :: string where
  "SVID_ALG = COMPOSITE_JOSE_ALG"

definition child_signing_kid :: "prims \<Rightarrow> (bytes \<Rightarrow> bytes) \<Rightarrow> composite_public_key \<Rightarrow> string" where
  "child_signing_kid P sha256 pk = ''host-'' @ hex_encode P (take 8 (sha256 (pk_to_concat_bytes pk)))"

record jwk =
  jwk_kty :: string
  jwk_alg :: string
  jwk_kid :: string
  jwk_use :: string
  jwk_public :: string
  jwk_created :: "int option"

definition jwk_from_public_key :: "prims \<Rightarrow> string \<Rightarrow> composite_public_key \<Rightarrow> jwk" where
  "jwk_from_public_key P kid pk =
     \<lparr>jwk_kty = COMPOSITE_KTY, jwk_alg = SVID_ALG, jwk_kid = kid, jwk_use = ''sig'',
      jwk_public = b64url_encode P (pk_to_concat_bytes pk), jwk_created = None\<rparr>"

definition jwk_from_public_key_at :: "prims \<Rightarrow> string \<Rightarrow> composite_public_key \<Rightarrow> int \<Rightarrow> jwk" where
  "jwk_from_public_key_at P kid pk created = (jwk_from_public_key P kid pk)\<lparr>jwk_created := Some created\<rparr>"

definition jwk_to_public_key :: "prims \<Rightarrow> jwk \<Rightarrow> (string, composite_public_key) result" where
  "jwk_to_public_key P k =
     and_then (map_err (\<lambda>e. ''jwk pub base64url: '' @ e) (b64url_decode P (jwk_public k))) (\<lambda>bs.
     map_err (\<lambda>e. ''jwk pub: '' @ CompositeError_display e) (pk_from_concat_bytes P bs))"

section \<open>Revocation lists\<close>

definition CRL_SIGNING_CONTEXT :: bytes where
  "CRL_SIGNING_CONTEXT = str_bytes ''ferrogate-crl-v1''"

definition CRL_MAX_AGE_SECS :: int where
  "CRL_MAX_AGE_SECS = 300"

definition MAX_TTL_SECS :: int where
  "MAX_TTL_SECS = 30 * 24 * 3600"

definition CRL_ENTRY_TTL_SECS :: int where
  "CRL_ENTRY_TTL_SECS = MAX_TTL_SECS"

datatype RevocationTarget =
    Svid string
  | Host string

record crl_entry =
  ce_target :: RevocationTarget
  ce_reason :: string
  ce_revoked_at :: int
  ce_expires_at :: int

definition CrlEntry_new :: "RevocationTarget \<Rightarrow> string \<Rightarrow> int \<Rightarrow> crl_entry" where
  "CrlEntry_new target reason now =
     \<lparr>ce_target = target, ce_reason = reason, ce_revoked_at = now,
      ce_expires_at = saturating_add_i64 now CRL_ENTRY_TTL_SECS\<rparr>"

record crl_body =
  cb_issued_at :: int
  cb_number :: u64
  cb_entries :: "crl_entry list"

text \<open>\<open>eq_ignore_ascii_case\<close>.\<close>

definition ascii_lower :: "char \<Rightarrow> char" where
  "ascii_lower c = (let n = (of_char c :: nat) in if 65 \<le> n \<and> n \<le> 90 then char_of (n + 32) else c)"

definition eq_ignore_ascii_case :: "string \<Rightarrow> string \<Rightarrow> bool" where
  "eq_ignore_ascii_case a b \<longleftrightarrow> map ascii_lower a = map ascii_lower b"

text \<open>The subtraction of \<open>age\<close> is the operator of the language: it wraps in a release build.\<close>

definition crl_age :: "crl_body \<Rightarrow> int \<Rightarrow> int" where
  "crl_age body now = wrapping_sub_i64 now (cb_issued_at body)"

definition is_fresh :: "crl_body \<Rightarrow> int \<Rightarrow> int \<Rightarrow> bool" where
  "is_fresh body now leeway_secs =
     (let age = crl_age body now in age \<le> CRL_MAX_AGE_SECS \<and> age \<ge> - leeway_secs)"

definition revokes_svid :: "crl_body \<Rightarrow> string \<Rightarrow> bool" where
  "revokes_svid body cert_sha_hex =
     list_ex (\<lambda>e. case ce_target e of Svid s \<Rightarrow> eq_ignore_ascii_case s cert_sha_hex | Host _ \<Rightarrow> False) (cb_entries body)"

definition revokes_host :: "crl_body \<Rightarrow> string \<Rightarrow> bool" where
  "revokes_host body spiffe_id =
     list_ex (\<lambda>e. case ce_target e of Svid _ \<Rightarrow> False | Host s \<Rightarrow> s = spiffe_id) (cb_entries body)"

record signed_crl =
  sc_body :: crl_body
  sc_signer_kid :: string
  sc_signature_b64 :: string

record jwk_set =
  js_keys :: "jwk list"
  js_crl :: "signed_crl option"
  js_x509_bundle :: "string option"

datatype CrlError =
    CrlJson string
  | CrlSign CompositeError
  | UnknownKid string
  | BadKey string
  | BadSignature string

record crl_codec =
  crl_to_vec :: "crl_body \<Rightarrow> (string, bytes) result"
  jwks_to_string :: "jwk_set \<Rightarrow> (string, string) result"
  jwks_from_str :: "string \<Rightarrow> (string, jwk_set) result"

definition canonical_json :: "crl_codec \<Rightarrow> crl_body \<Rightarrow> (CrlError, bytes) result" where
  "canonical_json J body = map_err CrlJson (crl_to_vec J body)"

definition jwk_find :: "jwk_set \<Rightarrow> string \<Rightarrow> jwk option" where
  "jwk_find js kid = List.find (\<lambda>k. jwk_kid k = kid) (js_keys js)"

definition SignedCrl_sign ::
  "prims \<Rightarrow> crl_codec \<Rightarrow> bytes \<Rightarrow> crl_body \<Rightarrow> string \<Rightarrow> composite_secret_key \<Rightarrow> (CrlError, signed_crl) result" where
  "SignedCrl_sign P J rnd body signer_kid signer =
     and_then (canonical_json J body) (\<lambda>bs.
     and_then (map_err CrlSign (composite_sign P rnd signer CRL_SIGNING_CONTEXT bs)) (\<lambda>sig.
     Inr \<lparr>sc_body = body, sc_signer_kid = signer_kid,
          sc_signature_b64 = b64url_encode P (sig_to_concat_bytes sig)\<rparr>))"

definition SignedCrl_verify :: "prims \<Rightarrow> crl_codec \<Rightarrow> signed_crl \<Rightarrow> jwk_set \<Rightarrow> (CrlError, crl_body) result" where
  "SignedCrl_verify P J sc jwks =
     and_then (ok_or (UnknownKid (sc_signer_kid sc)) (jwk_find jwks (sc_signer_kid sc))) (\<lambda>k.
     and_then (map_err BadKey (jwk_to_public_key P k)) (\<lambda>pk.
     and_then (map_err (\<lambda>e. BadSignature (''base64url: '' @ e)) (b64url_decode P (sc_signature_b64 sc))) (\<lambda>sig_bytes.
     and_then (map_err (\<lambda>e. BadSignature (CompositeError_display e)) (sig_from_concat_bytes sig_bytes)) (\<lambda>sig.
     and_then (canonical_json J (sc_body sc)) (\<lambda>payload.
     and_then (map_err (\<lambda>e. BadSignature (CompositeError_display e))
       (composite_verify P pk CRL_SIGNING_CONTEXT payload sig)) (\<lambda>_.
     Inr (sc_body sc)))))))"

section \<open>JWK sets\<close>

definition jwks_single :: "jwk \<Rightarrow> jwk_set" where
  "jwks_single k = \<lparr>js_keys = [k], js_crl = None, js_x509_bundle = None\<rparr>"

definition with_x509_bundle :: "prims \<Rightarrow> bytes \<Rightarrow> jwk_set \<Rightarrow> jwk_set" where
  "with_x509_bundle P bundle_der js = js\<lparr>js_x509_bundle := Some (b64url_encode P bundle_der)\<rparr>"

text \<open>\<open>created.unwrap_or(i64::MIN)\<close>.\<close>

definition created_or_min :: "jwk \<Rightarrow> int" where
  "created_or_min k = (case jwk_created k of None \<Rightarrow> - (2 ^ 63) | Some c \<Rightarrow> c)"

text \<open>\<open>max_by_key\<close> keeps the later of two equal elements; the key \<open>(created, Reverse(i))\<close> of a later
  element is at least the key of the best so far only if it was created later.\<close>

fun preferred_from :: "jwk \<Rightarrow> nat \<Rightarrow> nat \<Rightarrow> jwk list \<Rightarrow> jwk" where
  "preferred_from best bi i [] = best"
| "preferred_from best bi i (k # ks) =
     (if created_or_min best < created_or_min k \<or> created_or_min best = created_or_min k \<and> i \<le> bi
      then preferred_from k i (Suc i) ks else preferred_from best bi (Suc i) ks)"

definition jwks_preferred :: "jwk_set \<Rightarrow> jwk option" where
  "jwks_preferred js = (case js_keys js of [] \<Rightarrow> None | k # ks \<Rightarrow> Some (preferred_from k 0 1 ks))"

section \<open>The issuer and its published keys\<close>

record issuer =
  is_secret :: composite_secret_key
  is_public :: composite_public_key
  is_kid :: string
  is_trust_domain :: string

text \<open>The variant of \<open>IssueError\<close> that signing a list can return.\<close>

datatype IssueError = Crl CrlError

definition Issuer_new ::
  "composite_secret_key \<Rightarrow> composite_public_key \<Rightarrow> string \<Rightarrow> string \<Rightarrow> issuer" where
  "Issuer_new secret public kid trust_domain =
     \<lparr>is_secret = secret, is_public = public, is_kid = kid, is_trust_domain = trust_domain\<rparr>"

definition Issuer_from_seed :: "prims \<Rightarrow> bytes \<Rightarrow> string \<Rightarrow> string \<Rightarrow> issuer" where
  "Issuer_from_seed P seed kid trust_domain =
     (let (secret, public) = from_seed P seed in Issuer_new secret public kid trust_domain)"

text \<open>\<open>x509_ca\<close> is the outcome of building the X.509 trust anchor.\<close>

definition issuer_jwks :: "prims \<Rightarrow> (string, bytes) result \<Rightarrow> issuer \<Rightarrow> jwk_set" where
  "issuer_jwks P x509_ca iss =
     (let js = jwks_single (jwk_from_public_key P (is_kid iss) (is_public iss))
      in case x509_ca of Inr der \<Rightarrow> with_x509_bundle P der js | Inl _ \<Rightarrow> js)"

definition sign_crl ::
  "prims \<Rightarrow> crl_codec \<Rightarrow> bytes \<Rightarrow> issuer \<Rightarrow> crl_body \<Rightarrow> (IssueError, signed_crl) result" where
  "sign_crl P J rnd iss body = map_err Crl (SignedCrl_sign P J rnd body (is_kid iss) (is_secret iss))"

record key_registry =
  kr_published_keys :: "jwk list"
  kr_extra_roots :: "jwk list"

fun refresh_created :: "string \<Rightarrow> int \<Rightarrow> jwk list \<Rightarrow> jwk list" where
  "refresh_created kid created [] = []"
| "refresh_created kid created (k # ks) =
     (if jwk_kid k = kid then k\<lparr>jwk_created := Some created\<rparr> # ks else k # refresh_created kid created ks)"

definition register_root_key ::
  "prims \<Rightarrow> composite_public_key \<Rightarrow> string \<Rightarrow> int \<Rightarrow> key_registry \<Rightarrow> key_registry" where
  "register_root_key P pk kid created r =
     (if list_ex (\<lambda>k. jwk_kid k = kid) (kr_extra_roots r)
      then r\<lparr>kr_extra_roots := refresh_created kid created (kr_extra_roots r)\<rparr>
      else r\<lparr>kr_extra_roots := kr_extra_roots r @ [jwk_from_public_key_at P kid pk created]\<rparr>)"

definition register_child_key ::
  "prims \<Rightarrow> (bytes \<Rightarrow> bytes) \<Rightarrow> composite_public_key \<Rightarrow> key_registry \<Rightarrow> key_registry" where
  "register_child_key P sha256 pk r =
     (let kid = child_signing_kid P sha256 pk
      in if list_ex (\<lambda>k. jwk_kid k = kid) (kr_published_keys r) then r
         else r\<lparr>kr_published_keys := kr_published_keys r @ [jwk_from_public_key P kid pk]\<rparr>)"

definition published_jwks ::
  "prims \<Rightarrow> (string, bytes) result \<Rightarrow> key_registry \<Rightarrow> signed_crl option \<Rightarrow> jwk_set" where
  "published_jwks P x509_ca r crl =
     (let (issuer_root, child_keys) = (case kr_published_keys r of [] \<Rightarrow> ([], []) | k # ks \<Rightarrow> ([k], ks));
          roots = sort_key (\<lambda>k. - created_or_min k) (issuer_root @ kr_extra_roots r);
          js = \<lparr>js_keys = roots @ child_keys, js_crl = crl, js_x509_bundle = None\<rparr>
      in case x509_ca of Inr der \<Rightarrow> with_x509_bundle P der js | Inl _ \<Rightarrow> js)"

end
