(* ===== verification/Revocation.thy ===== *)
theory Revocation
  imports Jwks
begin

text \<open>
  Revocation end to end: the working set and the publisher of \<open>crates/cmis/src/state.rs\<close>
  (\<open>crl_publisher.rs\<close> calls \<open>publish_crl\<close> on a timer), the administrative calls of \<open>service.rs\<close>, and the
  cache, the puller and the gate of the host agent (\<open>crates/mia/src/helper/crl.rs\<close>). The outcome of the
  authorization layer, the clock, the rows of the replicated store and whether the audit log accepts
  an event are arguments of the call.
\<close>

section \<open>The server's working set\<close>

datatype revocation_event =
    SvidRevoked string bytes string
  | HostRevoked string string string
  | HostUnrevoked string string string "bytes option"

record cmis =
  cmis_issuer :: issuer
  cmis_registry :: key_registry
  cmis_entries :: "crl_entry list"
  cmis_number :: u64
  cmis_published_crl :: "signed_crl option"
  cmis_audit :: "revocation_event list"

fun upsert_entry :: "crl_entry \<Rightarrow> crl_entry list \<Rightarrow> crl_entry list" where
  "upsert_entry e [] = [e]"
| "upsert_entry e (x # xs) = (if ce_target x = ce_target e then e # xs else x # upsert_entry e xs)"

definition revoke :: "RevocationTarget \<Rightarrow> string \<Rightarrow> int \<Rightarrow> cmis \<Rightarrow> cmis" where
  "revoke target reason now st =
     st\<lparr>cmis_entries := upsert_entry (CrlEntry_new target reason now) (cmis_entries st)\<rparr>"

definition keep_digest :: "string \<Rightarrow> int \<Rightarrow> string \<Rightarrow> crl_entry list \<Rightarrow> crl_entry list" where
  "keep_digest reason now cert_sha es =
     (if list_ex (\<lambda>e. ce_target e = Svid cert_sha) es then es
      else es @ [CrlEntry_new (Svid cert_sha) reason now])"

definition state_unrevoke_host :: "string \<Rightarrow> string list \<Rightarrow> int \<Rightarrow> cmis \<Rightarrow> bool \<times> cmis" where
  "state_unrevoke_host spiffe_id keep_revoked now st =
     (case List.find (\<lambda>e. ce_target e = Host spiffe_id) (cmis_entries st) of
        None \<Rightarrow> (False, st)
      | Some h \<Rightarrow>
          (True, st\<lparr>cmis_entries := filter (\<lambda>e. ce_target e \<noteq> Host spiffe_id)
             (fold (keep_digest (ce_reason h) now) keep_revoked (cmis_entries st))\<rparr>))"

definition is_host_revoked :: "cmis \<Rightarrow> string \<Rightarrow> bool" where
  "is_host_revoked st spiffe_id =
     list_ex (\<lambda>e. case ce_target e of Svid _ \<Rightarrow> False | Host s \<Rightarrow> s = spiffe_id) (cmis_entries st)"

definition is_revoked :: "cmis \<Rightarrow> string \<Rightarrow> string \<Rightarrow> bool" where
  "is_revoked st spiffe_id svid_cert_sha =
     list_ex (\<lambda>e. case ce_target e of Host s \<Rightarrow> s = spiffe_id | Svid c \<Rightarrow> eq_ignore_ascii_case c svid_cert_sha)
       (cmis_entries st)"

text \<open>\<open>rnd\<close> is the randomness of the signature. The sequence number wraps in a release build.\<close>

definition publish_crl :: "prims \<Rightarrow> crl_codec \<Rightarrow> bytes \<Rightarrow> int \<Rightarrow> cmis \<Rightarrow> (IssueError, u64) result \<times> cmis" where
  "publish_crl P J rnd now st =
     (let entries = filter (\<lambda>e. ce_expires_at e > now) (cmis_entries st);
          number = cmis_number st + 1;
          st1 = st\<lparr>cmis_entries := entries, cmis_number := number\<rparr>;
          body = \<lparr>cb_issued_at = now, cb_number = number, cb_entries = entries\<rparr>
      in case sign_crl P J rnd (cmis_issuer st) body of
           Inl e \<Rightarrow> (Inl e, st1)
         | Inr sc \<Rightarrow> (Inr number, st1\<lparr>cmis_published_crl := Some sc\<rparr>))"

section \<open>The administrative calls\<close>

datatype Status =
    InvalidArgument string
  | Unavailable string
  | Unauthorized string

definition publish_crl_now :: "prims \<Rightarrow> crl_codec \<Rightarrow> bytes \<Rightarrow> int \<Rightarrow> cmis \<Rightarrow> (Status, u64) result \<times> cmis" where
  "publish_crl_now P J rnd now st =
     map_prod (map_err (\<lambda>_. Unavailable ''issuer temporarily unavailable'')) id (publish_crl P J rnd now st)"

record issued =
  iss_spiffe_id :: string
  iss_jws :: string
  iss_leaf_der :: "bytes option"

definition cert_sha_of :: "prims \<Rightarrow> bytes \<Rightarrow> string" where
  "cert_sha_of P bs = hex_encode P (sha384 P bs)"

definition paired_x509_cert_sha :: "prims \<Rightarrow> issued list \<Rightarrow> string \<Rightarrow> string option" where
  "paired_x509_cert_sha P records jws_cert_sha =
     map_option (cert_sha_of P)
       (Option.bind (List.find (\<lambda>r. cert_sha_of P (str_bytes (iss_jws r)) = jws_cert_sha) records) iss_leaf_der)"

definition parse_cert_sha :: "(string \<Rightarrow> (string, bytes) result) \<Rightarrow> string \<Rightarrow> (Status, bytes) result" where
  "parse_cert_sha hex_decode s =
     and_then (map_err (\<lambda>_. InvalidArgument ''cert_sha is not hex'') (hex_decode (trim s))) (\<lambda>bs.
     if length bs = 48 then Inr bs else Inl (InvalidArgument ''cert_sha must be 48 bytes (SHA-384)''))"

definition revocation_reason :: "string \<Rightarrow> string" where
  "revocation_reason raw = (let t = trim raw in if t = [] then ''unspecified'' else take 64 t)"

definition MAX_SPIFFE_ID_LEN :: nat where
  "MAX_SPIFFE_ID_LEN = 2048"

text \<open>An event handed to the audit log; \<open>accepted\<close> is the log's answer.\<close>

definition audit_record :: "bool \<Rightarrow> revocation_event \<Rightarrow> cmis \<Rightarrow> cmis" where
  "audit_record accepted ev st = (if accepted then st\<lparr>cmis_audit := cmis_audit st @ [ev]\<rparr> else st)"

definition audit_record_strict :: "bool \<Rightarrow> revocation_event \<Rightarrow> cmis \<Rightarrow> (Status, unit) result \<times> cmis" where
  "audit_record_strict accepted ev st =
     (if accepted then (Inr (), st\<lparr>cmis_audit := cmis_audit st @ [ev]\<rparr>)
      else (Inl (Unavailable ''audit log unavailable''), st))"

definition revoke_svid ::
  "prims \<Rightarrow> crl_codec \<Rightarrow> (string \<Rightarrow> (string, bytes) result) \<Rightarrow> bytes \<Rightarrow> int \<Rightarrow> (Status, string) result \<Rightarrow>
   issued list \<Rightarrow> bool \<Rightarrow> string \<Rightarrow> string \<Rightarrow> cmis \<Rightarrow> (Status, u64) result \<times> cmis" where
  "revoke_svid P J hex_decode rnd now auth records accepted cert_sha_req reason_req st =
     (case auth of Inl e \<Rightarrow> (Inl e, st)
      | Inr admin \<Rightarrow>
        (case parse_cert_sha hex_decode cert_sha_req of Inl e \<Rightarrow> (Inl e, st)
         | Inr cert_bytes \<Rightarrow>
           let cert_sha = hex_encode P cert_bytes;
               reason = revocation_reason reason_req;
               st1 = audit_record accepted (SvidRevoked admin cert_bytes reason) (revoke (Svid cert_sha) reason now st);
               st2 = (case paired_x509_cert_sha P records cert_sha of
                        None \<Rightarrow> st1
                      | Some leaf_sha \<Rightarrow> revoke (Svid leaf_sha) reason now st1)
           in publish_crl_now P J rnd now st2))"

definition revoke_host ::
  "prims \<Rightarrow> crl_codec \<Rightarrow> bytes \<Rightarrow> int \<Rightarrow> (Status, string) result \<Rightarrow> bool \<Rightarrow> string \<Rightarrow> string \<Rightarrow>
   cmis \<Rightarrow> (Status, u64) result \<times> cmis" where
  "revoke_host P J rnd now auth accepted spiffe_id reason_req st =
     (case auth of Inl e \<Rightarrow> (Inl e, st)
      | Inr admin \<Rightarrow>
        if spiffe_id = [] then (Inl (InvalidArgument ''empty spiffe_id''), st)
        else let reason = revocation_reason reason_req
             in publish_crl_now P J rnd now
                  (audit_record accepted (HostRevoked admin spiffe_id reason) (revoke (Host spiffe_id) reason now st)))"

text \<open>The digests that stay revoked: the stored SVID and its X.509 pair.\<close>

definition stored_digests :: "prims \<Rightarrow> issued option \<Rightarrow> string list" where
  "stored_digests P record =
     (case record of None \<Rightarrow> [] | Some r \<Rightarrow> [cert_sha_of P (str_bytes (iss_jws r))]) @
     (case Option.bind record iss_leaf_der of None \<Rightarrow> [] | Some der \<Rightarrow> [cert_sha_of P der])"

text \<open>\<open>found\<close> is the answer of \<open>lookup_checked\<close>: a failed read, no record, or the record of the host.\<close>

definition unrevoke_host ::
  "prims \<Rightarrow> crl_codec \<Rightarrow> bytes \<Rightarrow> int \<Rightarrow> (Status, string) result \<Rightarrow> (unit, issued option) result \<Rightarrow> bool \<Rightarrow>
   string \<Rightarrow> string \<Rightarrow> cmis \<Rightarrow> (Status, bool \<times> u64) result \<times> cmis" where
  "unrevoke_host P J rnd now auth found accepted spiffe_id reason_req st =
     (case auth of Inl e \<Rightarrow> (Inl e, st)
      | Inr admin \<Rightarrow>
        if spiffe_id = [] then (Inl (InvalidArgument ''empty spiffe_id''), st)
        else if length spiffe_id > MAX_SPIFFE_ID_LEN then (Inl (InvalidArgument ''spiffe_id too long''), st)
        else if \<not> is_host_revoked st spiffe_id then (Inr (False, 0), st)
        else case found of Inl _ \<Rightarrow> (Inl (Unavailable ''store_unavailable''), st)
        | Inr record \<Rightarrow>
          let reason = revocation_reason reason_req;
              svid_cert = map_option (\<lambda>r. sha384 P (str_bytes (iss_jws r))) record
          in case audit_record_strict accepted (HostUnrevoked spiffe_id reason admin svid_cert) st of
               (Inl e, st1) \<Rightarrow> (Inl e, st1)
             | (Inr _, st1) \<Rightarrow>
                 (case state_unrevoke_host spiffe_id (stored_digests P record) now st1 of (existed, st2) \<Rightarrow>
                    map_prod (\<lambda>r. and_then r (\<lambda>number. Inr (existed, number))) id (publish_crl_now P J rnd now st2)))"

definition jwks_rpc :: "prims \<Rightarrow> crl_codec \<Rightarrow> (string, bytes) result \<Rightarrow> cmis \<Rightarrow> (string, string) result" where
  "jwks_rpc P J x509_ca st =
     map_err (\<lambda>_. ''jwks encode'')
       (jwks_to_string J (published_jwks P x509_ca (cmis_registry st) (cmis_published_crl st)))"

section \<open>The agent's cache\<close>

definition CRL_FRESHNESS_LEEWAY_SECS :: int where
  "CRL_FRESHNESS_LEEWAY_SECS = 60"

datatype CrlGate = GateOk | Stale | Revoked

type_synonym crl_cache = "crl_body option"

definition crl_gate :: "crl_cache \<Rightarrow> string \<Rightarrow> string \<Rightarrow> int \<Rightarrow> CrlGate" where
  "crl_gate cache parent_cert_sha_hex host_spiffe_id now =
     (case cache of
        None \<Rightarrow> Stale
      | Some body \<Rightarrow>
          if \<not> is_fresh body now CRL_FRESHNESS_LEEWAY_SECS then Stale
          else if revokes_svid body parent_cert_sha_hex \<or> revokes_host body host_spiffe_id then Revoked
          else GateOk)"

datatype CrlIngestError = MalformedJwks string | Absent | Verify CrlError

datatype CrlRefreshError = Transport string | Ingest CrlIngestError

definition ingest :: "prims \<Rightarrow> crl_codec \<Rightarrow> string \<Rightarrow> (CrlIngestError, crl_body) result" where
  "ingest P J jwks_json =
     and_then (map_err MalformedJwks (jwks_from_str J jwks_json)) (\<lambda>jwks.
     and_then (ok_or Absent (js_crl jwks)) (\<lambda>sc.
     map_err Verify (SignedCrl_verify P J sc jwks)))"

text \<open>\<open>reply\<close> is the answer to the \<open>JWKS\<close> call: a transport failure or the document.\<close>

definition refresh_once ::
  "prims \<Rightarrow> crl_codec \<Rightarrow> (string, string) result \<Rightarrow> crl_cache \<Rightarrow> (CrlRefreshError, u64) result \<times> crl_cache" where
  "refresh_once P J reply cache =
     (case and_then (map_err Transport reply) (\<lambda>jwks_json. map_err Ingest (ingest P J jwks_json)) of
        Inl e \<Rightarrow> (Inl e, cache)
      | Inr body \<Rightarrow> (Inr (cb_number body), Some body))"

definition puller :: "prims \<Rightarrow> crl_codec \<Rightarrow> (string, string) result list \<Rightarrow> crl_cache \<Rightarrow> crl_cache" where
  "puller P J replies cache = fold (\<lambda>reply c. snd (refresh_once P J reply c)) replies cache"

section \<open>Runs of the server\<close>

text \<open>One call, or one turn of the publisher loop, with the time and the randomness of its signature.\<close>

datatype cmis_call =
    CallRevokeSvid "(Status, string) result" "issued list" bool string string
  | CallRevokeHost "(Status, string) result" bool string string
  | CallUnrevokeHost "(Status, string) result" "(unit, issued option) result" bool string string
  | PublishTick

type_synonym timed_call = "int \<times> bytes \<times> cmis_call"

fun cmis_step :: "prims \<Rightarrow> crl_codec \<Rightarrow> (string \<Rightarrow> (string, bytes) result) \<Rightarrow> timed_call \<Rightarrow> cmis \<Rightarrow> cmis" where
  "cmis_step P J X (now, rnd, CallRevokeSvid auth records ok s r) st = snd (revoke_svid P J X rnd now auth records ok s r st)"
| "cmis_step P J X (now, rnd, CallRevokeHost auth ok s r) st = snd (revoke_host P J rnd now auth ok s r st)"
| "cmis_step P J X (now, rnd, CallUnrevokeHost auth found ok s r) st = snd (unrevoke_host P J rnd now auth found ok s r st)"
| "cmis_step P J X (now, rnd, PublishTick) st = snd (publish_crl P J rnd now st)"

text \<open>The lists in force after each step of a run.\<close>

fun published_bodies ::
  "prims \<Rightarrow> crl_codec \<Rightarrow> (string \<Rightarrow> (string, bytes) result) \<Rightarrow> timed_call list \<Rightarrow> cmis \<Rightarrow> crl_body list" where
  "published_bodies P J X [] st = (case cmis_published_crl st of None \<Rightarrow> [] | Some sc \<Rightarrow> [sc_body sc])"
| "published_bodies P J X (c # cs) st =
     (case cmis_published_crl st of None \<Rightarrow> [] | Some sc \<Rightarrow> [sc_body sc]) @
     published_bodies P J X cs (cmis_step P J X c st)"

text \<open>The targets a call revokes when it is authorized and well formed.\<close>

fun call_targets :: "prims \<Rightarrow> (string \<Rightarrow> (string, bytes) result) \<Rightarrow> cmis_call \<Rightarrow> RevocationTarget set" where
  "call_targets P X (CallRevokeSvid (Inr _) records ok s r) =
     (case parse_cert_sha X s of
        Inl _ \<Rightarrow> {}
      | Inr bs \<Rightarrow> {Svid (hex_encode P bs)} \<union> Svid ` set_option (paired_x509_cert_sha P records (hex_encode P bs)))"
| "call_targets P X (CallRevokeHost (Inr _) ok s r) = (if s = [] then {} else {Host s})"
| "call_targets P X _ = {}"

text \<open>What an entry for a target matches: a parent digest and a host id.\<close>

fun target_hits :: "RevocationTarget \<Rightarrow> string \<Rightarrow> string \<Rightarrow> bool" where
  "target_hits (Svid c) cert_sha spiffe_id = eq_ignore_ascii_case c cert_sha"
| "target_hits (Host s) cert_sha spiffe_id = (s = spiffe_id)"

fun lifts :: "RevocationTarget \<Rightarrow> cmis_call \<Rightarrow> bool" where
  "lifts (Host s) (CallUnrevokeHost _ _ _ s' _) = (s' = s)"
| "lifts _ _ = False"

section \<open>A revocation stays in force\<close>

text \<open>
  The proof follows one target. \<open>revoked_until X\<close>: the working set holds an entry for it that does
  not expire before \<open>X\<close>. A list is \<open>faithful\<close> when it was issued no later than the revocation, or so
  late that the entry has expired, or when it names the target.
\<close>

definition revoked_until :: "RevocationTarget \<Rightarrow> int \<Rightarrow> crl_entry list \<Rightarrow> bool" where
  "revoked_until tgt X es \<longleftrightarrow> (\<exists>e\<in>set es. ce_target e = tgt \<and> X \<le> ce_expires_at e)"

definition faithful :: "RevocationTarget \<Rightarrow> int \<Rightarrow> int \<Rightarrow> crl_body \<Rightarrow> bool" where
  "faithful tgt t0 X body \<longleftrightarrow>
     cb_issued_at body \<le> t0 \<or> X \<le> cb_issued_at body \<or> (\<exists>e\<in>set (cb_entries body). ce_target e = tgt)"

definition revocation_inv :: "RevocationTarget \<Rightarrow> int \<Rightarrow> int \<Rightarrow> int \<Rightarrow> cmis \<Rightarrow> bool" where
  "revocation_inv tgt t0 X clock st \<longleftrightarrow>
     (revoked_until tgt X (cmis_entries st) \<or> X \<le> clock) \<and>
     (\<forall>sc. cmis_published_crl st = Some sc \<longrightarrow> faithful tgt t0 X (sc_body sc))"

definition issued_by :: "int \<Rightarrow> cmis \<Rightarrow> bool" where
  "issued_by t0 st \<longleftrightarrow> (\<forall>sc. cmis_published_crl st = Some sc \<longrightarrow> cb_issued_at (sc_body sc) \<le> t0)"

lemma set_upsert_entry: "e \<in> set (upsert_entry e es)"
  by (induction es) auto

lemma upsert_entry_other: "x \<in> set es \<Longrightarrow> ce_target x \<noteq> ce_target e \<Longrightarrow> x \<in> set (upsert_entry e es)"
  by (induction es) auto

lemma CrlEntry_new_simps [simp]:
  "ce_target (CrlEntry_new t r now) = t"
  "ce_expires_at (CrlEntry_new t r now) = saturating_add_i64 now CRL_ENTRY_TTL_SECS"
  "ce_reason (CrlEntry_new t r now) = r" "ce_revoked_at (CrlEntry_new t r now) = now"
  by (simp_all add: CrlEntry_new_def)

lemma revoked_until_upsert_new:
  "X \<le> saturating_add_i64 now CRL_ENTRY_TTL_SECS \<Longrightarrow> revoked_until tgt X (upsert_entry (CrlEntry_new tgt r now) es)"
  unfolding revoked_until_def using set_upsert_entry [of "CrlEntry_new tgt r now" es] by force

lemma revoked_until_upsert:
  assumes "revoked_until tgt X es" and "X \<le> saturating_add_i64 now CRL_ENTRY_TTL_SECS"
  shows "revoked_until tgt X (upsert_entry (CrlEntry_new t r now) es)"
proof (cases "t = tgt")
  case True
  with assms(2) show ?thesis by (simp add: revoked_until_upsert_new)
next
  case False
  with assms(1) show ?thesis
    unfolding revoked_until_def by (metis CrlEntry_new_simps(1) upsert_entry_other)
qed

lemma set_keep_digests: "set es \<subseteq> set (fold (keep_digest r now) ks es)"
  by (induction ks arbitrary: es) (fastforce simp: keep_digest_def)+

lemma revoked_until_unrevoke:
  assumes "revoked_until tgt X (cmis_entries st)" and "tgt \<noteq> Host s"
  shows "revoked_until tgt X (cmis_entries (snd (state_unrevoke_host s ks now st)))"
  using assms set_keep_digests
  by (fastforce simp: state_unrevoke_host_def revoked_until_def split: option.splits)

lemma revoke_frame [simp]:
  "cmis_entries (revoke t r now st) = upsert_entry (CrlEntry_new t r now) (cmis_entries st)"
  "cmis_published_crl (revoke t r now st) = cmis_published_crl st"
  by (simp_all add: revoke_def)

lemma audit_record_frame [simp]:
  "cmis_entries (audit_record ok ev st) = cmis_entries st"
  "cmis_published_crl (audit_record ok ev st) = cmis_published_crl st"
  by (simp_all add: audit_record_def)

lemma state_unrevoke_host_published [simp]:
  "cmis_published_crl (snd (state_unrevoke_host s ks now st)) = cmis_published_crl st"
  by (simp add: state_unrevoke_host_def split: option.splits)

lemma snd_publish_crl_now [simp]: "snd (publish_crl_now P J rnd now st) = snd (publish_crl P J rnd now st)"
  by (simp add: publish_crl_now_def)

lemma sign_crl_body: "sign_crl P J rnd iss body = Inr sc \<Longrightarrow> sc_body sc = body"
  by (auto simp: sign_crl_def SignedCrl_sign_def result_simps)

lemma publish_crl_cases:
  "snd (publish_crl P J rnd now st) =
     st\<lparr>cmis_entries := filter (\<lambda>e. ce_expires_at e > now) (cmis_entries st), cmis_number := cmis_number st + 1\<rparr> \<or>
   (\<exists>sc. snd (publish_crl P J rnd now st) =
       st\<lparr>cmis_entries := filter (\<lambda>e. ce_expires_at e > now) (cmis_entries st), cmis_number := cmis_number st + 1,
          cmis_published_crl := Some sc\<rparr> \<and>
     sc_body sc = \<lparr>cb_issued_at = now, cb_number = cmis_number st + 1,
       cb_entries = filter (\<lambda>e. ce_expires_at e > now) (cmis_entries st)\<rparr>)"
  by (auto simp: publish_crl_def Let_def sign_crl_body split: sum.splits)

lemma revocation_inv_mono: "revocation_inv tgt t0 X c st \<Longrightarrow> c \<le> c' \<Longrightarrow> revocation_inv tgt t0 X c' st"
  by (auto simp: revocation_inv_def)

lemma revocation_inv_publish:
  assumes "revocation_inv tgt t0 X now st"
  shows "revocation_inv tgt t0 X now (snd (publish_crl P J rnd now st))"
proof -
  have keep: "revoked_until tgt X (filter (\<lambda>e. ce_expires_at e > now) (cmis_entries st)) \<or> X \<le> now"
    using assms by (force simp: revocation_inv_def revoked_until_def)
  then have "faithful tgt t0 X b" if "cb_issued_at b = now"
    "cb_entries b = filter (\<lambda>e. ce_expires_at e > now) (cmis_entries st)" for b
    using that by (auto simp: faithful_def revoked_until_def)
  with keep assms publish_crl_cases [of P J rnd now st] show ?thesis
    by (auto simp: revocation_inv_def)
qed

lemma revocation_inv_revoke:
  assumes "revocation_inv tgt t0 X c st" and "X \<le> saturating_add_i64 now CRL_ENTRY_TTL_SECS"
  shows "revocation_inv tgt t0 X c (revoke t r now st)"
  using assms by (auto simp: revocation_inv_def revoked_until_upsert)

lemma revocation_inv_audit [simp]:
  "revocation_inv tgt t0 X c (audit_record ok ev st) = revocation_inv tgt t0 X c st"
  by (simp add: revocation_inv_def)

lemma revocation_inv_unrevoke:
  "revocation_inv tgt t0 X c st \<Longrightarrow> tgt \<noteq> Host s \<Longrightarrow>
   revocation_inv tgt t0 X c (snd (state_unrevoke_host s ks now st))"
  by (auto simp: revocation_inv_def revoked_until_unrevoke)

lemma unrevoke_host_cases:
  "snd (unrevoke_host P J rnd now auth found ok s r st) = st \<or>
   (\<exists>ks ev. snd (unrevoke_host P J rnd now auth found ok s r st) =
     snd (publish_crl P J rnd now (snd (state_unrevoke_host s ks now (audit_record True ev st)))))"
  by (cases auth; cases found; cases ok)
    (auto simp: unrevoke_host_def audit_record_strict_def audit_record_def Let_def case_prod_beta)

lemma revocation_inv_step:
  assumes "revocation_inv tgt t0 X c st" and "c \<le> now" and "X \<le> saturating_add_i64 now CRL_ENTRY_TTL_SECS"
    and "\<not> lifts tgt call"
  shows "revocation_inv tgt t0 X now (cmis_step P J H (now, rnd, call) st)"
proof -
  note inv = revocation_inv_mono [OF assms(1,2)]
  show ?thesis
  proof (cases call)
    case (CallRevokeSvid auth records ok s r)
    with inv assms(3) show ?thesis
      by (auto simp: revoke_svid_def Let_def revocation_inv_publish revocation_inv_revoke split: sum.splits option.splits)
  next
    case (CallRevokeHost auth ok s r)
    with inv assms(3) show ?thesis
      by (auto simp: revoke_host_def Let_def revocation_inv_publish revocation_inv_revoke split: sum.splits)
  next
    case (CallUnrevokeHost auth found ok s r)
    with assms(4) have "tgt \<noteq> Host s" by auto
    with inv CallUnrevokeHost show ?thesis
      using unrevoke_host_cases [of P J rnd now auth found ok s r st]
      by (auto simp: revocation_inv_publish revocation_inv_unrevoke)
  next
    case PublishTick
    with inv show ?thesis by (simp add: revocation_inv_publish)
  qed
qed

text \<open>The call that revokes establishes the invariant.\<close>

lemma revocation_inv_start:
  assumes "tgt \<in> call_targets P H call" and "issued_by t0 st"
  shows "revocation_inv tgt t0 (saturating_add_i64 t0 CRL_ENTRY_TTL_SECS) t0 (cmis_step P J H (t0, rnd, call) st)"
    (is "revocation_inv _ _ ?X _ _")
proof -
  have new: "revocation_inv g t0 ?X t0 (revoke g r t0 st')" if "cmis_published_crl st' = cmis_published_crl st" for g r st'
    using assms(2) that by (auto simp: issued_by_def revocation_inv_def revoked_until_upsert_new faithful_def)
  show ?thesis
    using assms(1)
  proof (induction P H call rule: call_targets.induct)
    case (1 P H admin records ok s r)
    then show ?case
      by (auto simp: revoke_svid_def Let_def new revocation_inv_publish revocation_inv_revoke
          split: sum.splits option.splits)
  next
    case (2 P H admin ok s r)
    then show ?case
      by (auto simp: revoke_host_def Let_def new intro!: revocation_inv_publish split: if_splits)
  qed auto
qed

text \<open>Before the call every list in force is old.\<close>

lemma publish_crl_issued:
  assumes "issued_by t0 st" and "now \<le> t0"
  shows "issued_by t0 (snd (publish_crl P J rnd now st))"
  using assms publish_crl_cases [of P J rnd now st] by (auto simp: issued_by_def)

lemma cmis_step_issued:
  assumes "issued_by t0 st" and "now \<le> t0"
  shows "issued_by t0 (cmis_step P J H (now, rnd, call) st)"
proof -
  have pub: "issued_by t0 (snd (publish_crl P J rnd now st'))"
    if "cmis_published_crl st' = cmis_published_crl st" for st'
  proof (rule publish_crl_issued [OF _ assms(2)])
    show "issued_by t0 st'" using assms(1) unfolding issued_by_def that .
  qed
  show ?thesis
  proof (cases call)
    case (CallRevokeSvid auth records ok s r)
    then show ?thesis
      using assms(1) by (simp add: pub revoke_svid_def Let_def split: sum.splits option.splits)
  next
    case (CallRevokeHost auth ok s r)
    then show ?thesis
      using assms(1) by (simp add: pub revoke_host_def Let_def split: sum.splits)
  next
    case (CallUnrevokeHost auth found ok s r)
    then show ?thesis
      using unrevoke_host_cases [of P J rnd now auth found ok s r st]
      by (elim disjE exE) (simp_all add: pub assms(1))
  next
    case PublishTick
    then show ?thesis by (simp add: pub)
  qed
qed

lemma published_bodies_after:
  assumes "revocation_inv tgt t0 (saturating_add_i64 t0 CRL_ENTRY_TTL_SECS) c st" and "t0 \<le> c"
    and "sorted (c # map fst es)" and "\<forall>(t, rnd, call)\<in>set es. \<not> lifts tgt call"
    and "body \<in> set (published_bodies P J H es st)"
  shows "faithful tgt t0 (saturating_add_i64 t0 CRL_ENTRY_TTL_SECS) body"
  using assms
proof (induction es arbitrary: st c)
  case Nil
  then show ?case by (auto simp: revocation_inv_def split: option.splits)
next
  case (Cons e es)
  obtain t rnd call where e: "e = (t, rnd, call)" by (cases e)
  have "revocation_inv tgt t0 (saturating_add_i64 t0 CRL_ENTRY_TTL_SECS) t (cmis_step P J H e st)"
    unfolding e using Cons.prems e
    by (intro revocation_inv_step) (auto intro: saturating_add_i64_mono)
  then show ?case
    using Cons.prems Cons.IH [of t "cmis_step P J H e st"] e
    by (auto simp: revocation_inv_def split: option.splits)
qed

lemma published_bodies_run:
  assumes "es = pre @ (t0, rnd, call) # post" and "sorted (map fst es)"
    and "tgt \<in> call_targets P H call" and "\<forall>(t, rnd, call)\<in>set post. \<not> lifts tgt call"
    and "issued_by t0 st"
    and "body \<in> set (published_bodies P J H es st)"
  shows "faithful tgt t0 (saturating_add_i64 t0 CRL_ENTRY_TTL_SECS) body"
  using assms
proof (induction pre arbitrary: es st)
  case Nil
  note inv = revocation_inv_start [OF Nil.prems(3,5), of J rnd]
  show ?case
    using Nil.prems published_bodies_after [OF inv, of post body]
    by (auto simp: issued_by_def faithful_def split: option.splits)
next
  case (Cons e pre)
  obtain t r c where e: "e = (t, r, c)" by (cases e)
  have "t \<le> t0" using Cons.prems(1,2) e by (auto simp: sorted_append)
  note old = cmis_step_issued [OF Cons.prems(5) this, of P J H r c]
  show ?case
    using Cons.prems Cons.IH [OF refl _ Cons.prems(3,4) old] e
    by (auto simp: issued_by_def faithful_def split: option.splits)
qed

section \<open>What the agent accepts\<close>

text \<open>
  What unforgeability means for the documents an agent received: a list whose signature verifies
  under any key of its document carries the bytes of a list the server signed.
\<close>

definition lists_unforged :: "prims \<Rightarrow> crl_codec \<Rightarrow> crl_body list \<Rightarrow> (string, string) result list \<Rightarrow> bool" where
  "lists_unforged P J bodies replies \<longleftrightarrow>
     (\<forall>json doc sc k pk sig_bytes sig payload.
        Inr json \<in> set replies \<longrightarrow> jwks_from_str J json = Inr doc \<longrightarrow> js_crl doc = Some sc \<longrightarrow>
        k \<in> set (js_keys doc) \<longrightarrow> jwk_to_public_key P k = Inr pk \<longrightarrow>
        b64url_decode P (sc_signature_b64 sc) = Inr sig_bytes \<longrightarrow> sig_from_concat_bytes sig_bytes = Inr sig \<longrightarrow>
        crl_to_vec J (sc_body sc) = Inr payload \<longrightarrow>
        composite_verify P pk CRL_SIGNING_CONTEXT payload sig = Inr () \<longrightarrow>
        (\<exists>body\<in>set bodies. crl_to_vec J body = Inr payload))"

definition crl_json_injective :: "crl_codec \<Rightarrow> bool" where
  "crl_json_injective J \<longleftrightarrow> (\<forall>b b' x. crl_to_vec J b = Inr x \<longrightarrow> crl_to_vec J b' = Inr x \<longrightarrow> b = b')"

lemma SignedCrl_verify_Inr:
  "SignedCrl_verify P J sc doc = Inr body \<longleftrightarrow> body = sc_body sc \<and>
     (\<exists>k pk sig_bytes sig payload. jwk_find doc (sc_signer_kid sc) = Some k \<and> jwk_to_public_key P k = Inr pk \<and>
        b64url_decode P (sc_signature_b64 sc) = Inr sig_bytes \<and> sig_from_concat_bytes sig_bytes = Inr sig \<and>
        crl_to_vec J (sc_body sc) = Inr payload \<and> composite_verify P pk CRL_SIGNING_CONTEXT payload sig = Inr ())"
  by (auto simp: SignedCrl_verify_def canonical_json_def result_simps)

lemma ingest_Inr:
  "ingest P J json = Inr body \<longleftrightarrow>
     (\<exists>doc sc. jwks_from_str J json = Inr doc \<and> js_crl doc = Some sc \<and> SignedCrl_verify P J sc doc = Inr body)"
  by (auto simp: ingest_def result_simps)

lemma refresh_once_cache:
  "snd (refresh_once P J reply c) = Some body \<longleftrightarrow>
     (\<exists>json. reply = Inr json \<and> ingest P J json = Inr body) \<or>
     c = Some body \<and> \<not> (\<exists>json b. reply = Inr json \<and> ingest P J json = Inr b)"
  by (cases reply) (auto simp: refresh_once_def result_simps split: sum.splits)

lemma puller_cache:
  "puller P J replies c = Some body \<Longrightarrow> c = Some body \<or> (\<exists>json. Inr json \<in> set replies \<and> ingest P J json = Inr body)"
proof (induction replies arbitrary: c)
  case Nil
  then show ?case by (simp add: puller_def)
next
  case (Cons r rs)
  have "puller P J rs (snd (refresh_once P J r c)) = Some body"
    using Cons.prems by (simp add: puller_def)
  from Cons.IH [OF this] show ?case
    unfolding refresh_once_cache by auto
qed

lemma jwk_find_mem: "jwk_find doc kid = Some k \<Longrightarrow> k \<in> set (js_keys doc)"
  unfolding jwk_find_def by (metis find_Some_iff nth_mem)

lemma ingest_published:
  assumes "lists_unforged P J bodies replies" and "crl_json_injective J"
    and "Inr json \<in> set replies" and "ingest P J json = Inr body"
  shows "body \<in> set bodies"
proof -
  obtain doc sc k pk sig_bytes sig payload where *: "jwks_from_str J json = Inr doc" "js_crl doc = Some sc"
    "body = sc_body sc" "jwk_find doc (sc_signer_kid sc) = Some k" "jwk_to_public_key P k = Inr pk"
    "b64url_decode P (sc_signature_b64 sc) = Inr sig_bytes" "sig_from_concat_bytes sig_bytes = Inr sig"
    "crl_to_vec J (sc_body sc) = Inr payload" "composite_verify P pk CRL_SIGNING_CONTEXT payload sig = Inr ()"
    using assms(4) unfolding ingest_Inr SignedCrl_verify_Inr by blast
  have "\<exists>b\<in>set bodies. crl_to_vec J b = Inr payload"
    using assms(1,3) * jwk_find_mem [OF *(4)] unfolding lists_unforged_def by blast
  then show ?thesis
    using assms(2) *(3,8) unfolding crl_json_injective_def by blast
qed

lemma crl_gate_hit:
  assumes "e \<in> set (cb_entries body)" and "target_hits (ce_target e) cert_sha spiffe_id"
  shows "crl_gate (Some body) cert_sha spiffe_id now \<noteq> GateOk"
  using assms
  by (cases "ce_target e") (auto simp: crl_gate_def revokes_svid_def revokes_host_def list_ex_iff)

lemma crl_gate_old:
  assumes "0 \<le> now" "i64_range now" "0 \<le> cb_issued_at body" "i64_range (cb_issued_at body)"
    and "cb_issued_at body + CRL_MAX_AGE_SECS < now \<or> now + CRL_FRESHNESS_LEEWAY_SECS < cb_issued_at body"
  shows "crl_gate (Some body) cert_sha spiffe_id now = Stale"
  using assms by (auto simp: crl_gate_def is_fresh_def crl_age_def wrapping_sub_i64_nonneg)

text \<open>The times of the lists in force are times of the run.\<close>

lemma publish_crl_time:
  "cmis_published_crl (snd (publish_crl P J rnd now st)) = Some sc \<Longrightarrow>
   cb_issued_at (sc_body sc) = now \<or> cmis_published_crl st = Some sc"
  using publish_crl_cases [of P J rnd now st] by auto

lemma cmis_step_time:
  assumes "cmis_published_crl (cmis_step P J H (now, rnd, call) st) = Some sc"
  shows "cb_issued_at (sc_body sc) = now \<or> cmis_published_crl st = Some sc"
proof (cases call)
  case (CallUnrevokeHost auth found ok s r)
  then show ?thesis
    using assms unrevoke_host_cases [of P J rnd now auth found ok s r st]
    by (auto dest!: publish_crl_time)
qed (use assms in \<open>auto simp: revoke_svid_def revoke_host_def Let_def
      dest!: publish_crl_time split: sum.splits option.splits if_splits\<close>)

lemma published_bodies_time:
  "body \<in> set (published_bodies P J H es st) \<Longrightarrow>
   cb_issued_at body \<in> fst ` set es \<or> (\<exists>sc. cmis_published_crl st = Some sc \<and> body = sc_body sc)"
proof (induction es arbitrary: st)
  case Nil
  then show ?case by (cases "cmis_published_crl st") auto
next
  case (Cons e es)
  obtain t rnd call where e: "e = (t, rnd, call)" by (cases e)
  show ?case
    using Cons.prems Cons.IH [of "cmis_step P J H e st"] cmis_step_time [of P J H t rnd call st] e
    by (cases "cmis_published_crl st") auto
qed


section \<open>Honest documents\<close>

datatype registry_op =
    AddRoot composite_public_key string int
  | AddChild composite_public_key

fun registry_step :: "prims \<Rightarrow> (bytes \<Rightarrow> bytes) \<Rightarrow> registry_op \<Rightarrow> key_registry \<Rightarrow> key_registry" where
  "registry_step P sha256 (AddRoot pk kid created) r = register_root_key P pk kid created r"
| "registry_step P sha256 (AddChild pk) r = register_child_key P sha256 pk r"

definition registry_new :: "prims \<Rightarrow> (string, bytes) result \<Rightarrow> issuer \<Rightarrow> key_registry" where
  "registry_new P x509_ca iss = \<lparr>kr_published_keys = js_keys (issuer_jwks P x509_ca iss), kr_extra_roots = []\<rparr>"

text \<open>The issuer key stays first among the published keys, and no other root takes its key id.\<close>

definition registry_inv :: "prims \<Rightarrow> issuer \<Rightarrow> key_registry \<Rightarrow> bool" where
  "registry_inv P iss r \<longleftrightarrow>
     (\<exists>ks. kr_published_keys r = jwk_from_public_key P (is_kid iss) (is_public iss) # ks) \<and>
     (\<forall>k\<in>set (kr_extra_roots r). jwk_kid k \<noteq> is_kid iss)"

lemma registry_inv_new: "registry_inv P iss (registry_new P x509_ca iss)"
  by (simp add: registry_inv_def registry_new_def issuer_jwks_def jwks_single_def with_x509_bundle_def Let_def
      split: sum.splits)

lemma refresh_created_kids: "jwk_kid ` set (refresh_created kid c ks) = jwk_kid ` set ks"
  by (induction ks) auto

lemma registry_inv_step:
  assumes "registry_inv P iss r" and "case op of AddRoot pk kid c \<Rightarrow> kid \<noteq> is_kid iss | AddChild _ \<Rightarrow> True"
  shows "registry_inv P iss (registry_step P sha256 op r)"
proof (cases op)
  case (AddRoot pk kid c)
  have kids: "(\<forall>k\<in>set ks. jwk_kid k \<noteq> x) \<longleftrightarrow> x \<notin> jwk_kid ` set ks" for ks and x :: string
    by auto
  show ?thesis
    using assms AddRoot unfolding registry_inv_def kids
    by (auto simp: register_root_key_def refresh_created_kids jwk_from_public_key_at_def jwk_from_public_key_def)
next
  case (AddChild pk)
  with assms(1) show ?thesis
    by (auto simp: registry_inv_def register_child_key_def Let_def)
qed

lemma registry_inv_run:
  assumes "\<forall>pk kid c. AddRoot pk kid c \<in> set ops \<longrightarrow> kid \<noteq> is_kid iss"
  shows "registry_inv P iss (fold (registry_step P sha256) ops (registry_new P x509_ca iss))"
proof -
  have "registry_inv P iss (fold (registry_step P sha256) ops r)" if "registry_inv P iss r" for r
    using that assms
  proof (induction ops arbitrary: r)
    case (Cons op ops)
    have "registry_inv P iss (registry_step P sha256 op r)"
      using Cons.prems by (intro registry_inv_step) (auto split: registry_op.splits)
    then show ?case using Cons.IH Cons.prems(2) by (metis fold_simps(2) list.set_intros(2))
  qed simp
  then show ?thesis by (simp add: registry_inv_new)
qed

lemma published_jwks_issuer:
  assumes "registry_inv P iss r"
  shows "jwk_find (published_jwks P x509_ca r crl) (is_kid iss) =
    Some (jwk_from_public_key P (is_kid iss) (is_public iss))"
proof -
  let ?k = "jwk_from_public_key P (is_kid iss) (is_public iss)"
  obtain ks where ks: "kr_published_keys r = ?k # ks" using assms by (auto simp: registry_inv_def)
  let ?roots = "sort_key (\<lambda>k. - created_or_min k) (?k # kr_extra_roots r)"
  have keys: "js_keys (published_jwks P x509_ca r crl) = ?roots @ ks"
    by (simp add: published_jwks_def ks with_x509_bundle_def Let_def split: sum.splits)
  have "List.find (\<lambda>k. jwk_kid k = is_kid iss) ?roots = Some ?k"
    using assms by (intro find_unique) (auto simp: registry_inv_def jwk_from_public_key_def set_insort_key)
  then show ?thesis unfolding jwk_find_def keys find_append by simp
qed

lemma published_jwks_crl [simp]: "js_crl (published_jwks P x509_ca r crl) = crl"
  by (simp add: published_jwks_def with_x509_bundle_def Let_def split: sum.splits prod.splits)

lemma jwk_roundtrip:
  assumes "prims_ok P" and "composite_key_ok P pk"
  shows "jwk_to_public_key P (jwk_from_public_key P kid pk) = Inr pk"
  using assms by (simp add: jwk_to_public_key_def jwk_from_public_key_def prims_ok_def pk_concat_roundtrip)

lemma SignedCrl_roundtrip:
  assumes P: "prims_ok P" and k: "from_seed P seed = (sk, pk)" "composite_key_ok P pk"
    and s: "SignedCrl_sign P J rnd body kid sk = Inr sc"
    and f: "jwk_find doc kid = Some (jwk_from_public_key P kid pk)"
  shows "SignedCrl_verify P J sc doc = Inr body"
proof -
  obtain payload sig where *: "crl_to_vec J body = Inr payload"
    "composite_sign P rnd sk CRL_SIGNING_CONTEXT payload = Inr sig"
    "sc = \<lparr>sc_body = body, sc_signer_kid = kid, sc_signature_b64 = b64url_encode P (sig_to_concat_bytes sig)\<rparr>"
    using s by (auto simp: SignedCrl_sign_def canonical_json_def result_simps)
  note len = composite_sign_lengths [OF P k(1) *(2)]
  have "b64url_decode P (b64url_encode P (sig_to_concat_bytes sig)) = Inr (sig_to_concat_bytes sig)"
    using P by (simp add: prims_ok_def)
  then show ?thesis
    unfolding SignedCrl_verify_Inr *(3)
    using f len *(1) jwk_roundtrip [OF P k(2)] sig_concat_roundtrip [OF len(1,2)] by auto
qed

text \<open>The gate on a fresh list answers as the server's own check.\<close>

lemma crl_gate_fresh:
  assumes "0 \<le> t" "i64_range t" "0 \<le> cb_issued_at body" "i64_range (cb_issued_at body)"
    and "cb_issued_at body - CRL_FRESHNESS_LEEWAY_SECS \<le> t" "t \<le> cb_issued_at body + CRL_MAX_AGE_SECS"
    and "cb_entries body = cmis_entries st"
  shows "crl_gate (Some body) cert_sha spiffe_id t = (if is_revoked st spiffe_id cert_sha then Revoked else GateOk)"
proof -
  have "is_fresh body t CRL_FRESHNESS_LEEWAY_SECS"
    using assms(1-6) by (simp add: is_fresh_def crl_age_def wrapping_sub_i64_nonneg)
  moreover have "revokes_svid body cert_sha \<or> revokes_host body spiffe_id \<longleftrightarrow> is_revoked st spiffe_id cert_sha"
  proof -
    have "list_ex (\<lambda>e. case ce_target e of Svid s \<Rightarrow> eq_ignore_ascii_case s cert_sha | Host _ \<Rightarrow> False) es \<or>
        list_ex (\<lambda>e. case ce_target e of Svid _ \<Rightarrow> False | Host s \<Rightarrow> s = spiffe_id) es \<longleftrightarrow>
        list_ex (\<lambda>e. case ce_target e of Host s \<Rightarrow> s = spiffe_id | Svid c \<Rightarrow> eq_ignore_ascii_case c cert_sha) es" for es
    proof (induction es)
      case (Cons e es)
      then show ?case by (cases "ce_target e") auto
    qed simp
    then show ?thesis by (simp add: revokes_svid_def revokes_host_def is_revoked_def assms(7))
  qed
  ultimately show ?thesis by (simp add: crl_gate_def)
qed

text \<open>
  C14. A successful publication reaches an agent that fetches it. Whatever roots and host keys were
  registered before, short of another root under the issuer's own key id, the document served after
  \<open>publish_crl\<close> is accepted and replaces the cache, and for the following 300 seconds, with a minute of
  clock skew, the gate of the agent answers exactly as \<open>is_revoked\<close> on the server.
\<close>

theorem crl_pull_takes_effect:
  assumes "prims_ok P" and "cmis_issuer st = Issuer_from_seed P seed kid trust_domain"
    and "composite_key_ok P (snd (from_seed P seed))"
    and "cmis_registry st = fold (registry_step P sha256) ops (registry_new P x509_ca (cmis_issuer st))"
    and "\<forall>pk k c. AddRoot pk k c \<in> set ops \<longrightarrow> k \<noteq> kid"
    and "publish_crl P J rnd now st = (Inr n, st')" and "jwks_rpc P J x509_ca st' = Inr json"
    and "\<And>doc. jwks_to_string J doc = Inr json \<Longrightarrow> jwks_from_str J json = Inr doc"
    and "0 \<le> now" "i64_range now" "0 \<le> t" "i64_range t"
    and "now - CRL_FRESHNESS_LEEWAY_SECS \<le> t" "t \<le> now + CRL_MAX_AGE_SECS"
  shows "fst (refresh_once P J (Inr json) cache) = Inr n \<and>
    crl_gate (snd (refresh_once P J (Inr json) cache)) cert_sha spiffe_id t =
      (if is_revoked st' spiffe_id cert_sha then Revoked else GateOk)"
proof -
  obtain sk pk where k: "from_seed P seed = (sk, pk)" by fastforce
  have iss: "is_kid (cmis_issuer st) = kid" "is_secret (cmis_issuer st) = sk" "is_public (cmis_issuer st) = pk"
    by (simp_all add: assms(2) Issuer_from_seed_def Issuer_new_def k)
  let ?body = "\<lparr>cb_issued_at = now, cb_number = n, cb_entries = cmis_entries st'\<rparr>"
  obtain sc where sc: "sign_crl P J rnd (cmis_issuer st) ?body = Inr sc" "cmis_published_crl st' = Some sc"
    "cmis_registry st' = cmis_registry st"
    using assms(6) by (auto simp: publish_crl_def Let_def split: sum.splits)
  let ?doc = "published_jwks P x509_ca (cmis_registry st') (Some sc)"
  have "registry_inv P (cmis_issuer st) (cmis_registry st')"
    unfolding sc(3) assms(4) using assms(5) iss(1) by (intro registry_inv_run) simp
  then have "jwk_find ?doc kid = Some (jwk_from_public_key P kid pk)"
    using published_jwks_issuer [of P "cmis_issuer st"] by (simp add: iss)
  then have "SignedCrl_verify P J sc ?doc = Inr ?body"
    using SignedCrl_roundtrip [OF assms(1) k, of J rnd ?body kid sc] sc(1) assms(3)
    by (simp add: k sign_crl_def iss map_err_Inr_iff)
  moreover have "jwks_from_str J json = Inr ?doc"
    using assms(7,8) by (simp add: jwks_rpc_def sc(2) map_err_Inr_iff)
  ultimately have "ingest P J json = Inr ?body"
    unfolding ingest_Inr by (intro exI [of _ ?doc] exI [of _ sc]) simp
  then have "refresh_once P J (Inr json) cache = (Inr n, Some ?body)"
    by (simp add: refresh_once_def)
  moreover have "crl_gate (Some ?body) cert_sha spiffe_id t =
      (if is_revoked st' spiffe_id cert_sha then Revoked else GateOk)"
    using assms(9-14) by (intro crl_gate_fresh) simp_all
  ultimately show ?thesis by simp
qed

text \<open>
  C39. The signature is checked against keys of the same document. For every key pair whatsoever, a
  document that lists the public half under some key id and carries a list signed by the secret half
  is accepted, with or without any key of the server in it.
\<close>

theorem crl_self_signed_accepted:
  assumes "prims_ok P" and "from_seed P seed = (sk, pk)" and "composite_key_ok P pk"
    and "SignedCrl_sign P J rnd body kid sk = Inr sc"
    and "jwks_from_str J json = Inr doc" and "js_crl doc = Some sc"
    and "js_keys doc = jwk_from_public_key P kid pk # others"
  shows "refresh_once P J (Inr json) cache = (Inr (cb_number body), Some body)"
proof -
  have "jwk_find doc kid = Some (jwk_from_public_key P kid pk)"
    by (simp add: jwk_find_def assms(7) jwk_from_public_key_def)
  from SignedCrl_roundtrip [OF assms(1-4) this]
  have "ingest P J json = Inr body"
    using assms(5,6) unfolding ingest_Inr by blast
  then show ?thesis by (simp add: refresh_once_def)
qed

section \<open>Lifting a revocation\<close>

lemma keep_digests_mem:
  "d \<in> set ks \<Longrightarrow> \<exists>e\<in>set (fold (keep_digest r now) ks es). ce_target e = Svid d"
proof (induction ks arbitrary: es)
  case (Cons k ks)
  show ?case
  proof (cases "d = k")
    case True
    then have "\<exists>e\<in>set (keep_digest r now k es). ce_target e = Svid d"
      by (auto simp: keep_digest_def list_ex_iff)
    then show ?thesis using set_keep_digests [of "keep_digest r now k es" r now ks] by auto
  next
    case False
    with Cons show ?thesis by simp
  qed
qed simp

lemma keep_digests_expiry:
  assumes "\<forall>e\<in>set es. now < ce_expires_at e" and "now < saturating_add_i64 now CRL_ENTRY_TTL_SECS"
  shows "\<forall>e\<in>set (fold (keep_digest r now) ks es). now < ce_expires_at e"
  using assms(1)
proof (induction ks arbitrary: es)
  case (Cons k ks)
  have "\<forall>e\<in>set (keep_digest r now k es). now < ce_expires_at e"
    using Cons.prems assms(2) by (auto simp: keep_digest_def)
  from Cons.IH [OF this] show ?case by simp
qed simp


text \<open>
  Revoking by the digest of the X.509 certificate leaves the JWS of the same attestation usable: the
  pair is looked up by the digest of the JWS only.
\<close>

lemma is_revoked_upsert:
  "is_revoked (revoke t r now st) spiffe_id d \<Longrightarrow> is_revoked st spiffe_id d \<or> target_hits t d spiffe_id"
proof -
  have "list_ex Q (upsert_entry e es) \<Longrightarrow> list_ex Q es \<or> Q e" for Q e es
    by (induction es) (auto split: if_splits)
  then show "is_revoked (revoke t r now st) spiffe_id d \<Longrightarrow> is_revoked st spiffe_id d \<or> target_hits t d spiffe_id"
    unfolding is_revoked_def revoke_frame by (cases t) fastforce+
qed

lemma is_revoked_publish: "is_revoked (snd (publish_crl P J rnd now st)) s d \<Longrightarrow> is_revoked st s d"
  using publish_crl_cases [of P J rnd now st] by (auto simp: is_revoked_def list_ex_iff)

theorem revoke_leaf_leaves_jws:
  assumes "\<forall>r\<in>set records. cert_sha_of P (str_bytes (iss_jws r)) \<noteq> cert_sha_of P leaf"
    and "parse_cert_sha H req = Inr (sha384 P leaf)"
    and "\<not> is_revoked st spiffe_id jws_sha" and "\<not> eq_ignore_ascii_case (cert_sha_of P leaf) jws_sha"
  shows "\<not> is_revoked (snd (revoke_svid P J H rnd now (Inr admin) records accepted req reason st)) spiffe_id jws_sha"
proof -
  have none: "paired_x509_cert_sha P records (hex_encode P (sha384 P leaf)) = None"
  proof -
    have "List.find (\<lambda>r. cert_sha_of P (str_bytes (iss_jws r)) = cert_sha_of P leaf) records = None"
      using assms(1) by (simp add: find_None_iff)
    then show ?thesis by (simp add: paired_x509_cert_sha_def cert_sha_of_def)
  qed
  have a: "is_revoked (audit_record ok ev s') spiffe_id jws_sha = is_revoked s' spiffe_id jws_sha" for ok ev s'
    by (simp add: is_revoked_def)
  show ?thesis
    using assms(3,4) none
    by (auto simp: revoke_svid_def assms(2) Let_def a cert_sha_of_def dest!: is_revoked_publish is_revoked_upsert)
qed

section \<open>Witnesses\<close>

definition toy_issuer :: issuer where
  "toy_issuer = Issuer_from_seed key_prims [1] ''root'' ''td''"

definition toy_cmis :: "(string, bytes) result \<Rightarrow> cmis" where
  "toy_cmis x509_ca = \<lparr>cmis_issuer = toy_issuer,
     cmis_registry = fold (registry_step key_prims id) [AddChild (snd (toy_root 2))] (registry_new key_prims x509_ca toy_issuer),
     cmis_entries = [], cmis_number = 0, cmis_published_crl = None, cmis_audit = []\<rparr>"

definition toy_body :: crl_body where
  "toy_body = \<lparr>cb_issued_at = 1400, cb_number = 2, cb_entries = [CrlEntry_new (Host ''h'') ''stolen'' 1000]\<rparr>"

text \<open>A codec that encodes one list only, and one that encodes every list alike; both answer every
  document text with the same document.\<close>

definition one_codec :: "jwk_set \<Rightarrow> crl_codec" where
  "one_codec doc = \<lparr>crl_to_vec = (\<lambda>b. if b = toy_body then Inr [7] else Inl ''''),
     jwks_to_string = (\<lambda>_. Inl ''''), jwks_from_str = (\<lambda>_. Inr doc)\<rparr>"

definition any_codec :: "jwk_set \<Rightarrow> crl_codec" where
  "any_codec doc = \<lparr>crl_to_vec = (\<lambda>_. Inr [7]),
     jwks_to_string = (\<lambda>d. if d = doc then Inr ''doc'' else Inl ''''), jwks_from_str = (\<lambda>_. Inr doc)\<rparr>"

text \<open>With these primitives every encodable list can be signed.\<close>

definition toy_crl :: "composite_secret_key \<Rightarrow> string \<Rightarrow> crl_body \<Rightarrow> signed_crl" where
  "toy_crl sk kid body = projr (SignedCrl_sign key_prims (any_codec (jwks_single (jwk_from_public_key key_prims kid (snd (toy_root 1)))))
     [] body kid sk)"

lemma toy_crl: "crl_to_vec J body = Inr [7] \<Longrightarrow> SignedCrl_sign key_prims J [] body kid sk = Inr (toy_crl sk kid body)"
  by (simp add: toy_crl_def any_codec_def SignedCrl_sign_def canonical_json_def composite_sign_def Let_def key_prims_def
      toy_prims_def)

lemma toy_sign_crl:
  "crl_to_vec J body = Inr [7] \<Longrightarrow> sign_crl key_prims J [] iss body = Inr (toy_crl (is_secret iss) (is_kid iss) body)"
  by (simp add: sign_crl_def toy_crl)

lemma toy_crl_body: "sc_body (toy_crl sk kid body) = body"
  using sign_crl_body [OF toy_sign_crl [of "any_codec undefined" body "\<lparr>is_secret = sk, is_public = undefined, is_kid = kid,
    is_trust_domain = []\<rparr>"]] by (simp add: any_codec_def)

lemmas ttl_simps = saturating_add_i64_def CRL_ENTRY_TTL_SECS_def MAX_TTL_SECS_def

lemma toy_reason: "revocation_reason ''stolen'' = ''stolen''"
  by (simp add: revocation_reason_def trim_def ascii_space_def Let_def)

definition toy_run :: "timed_call list" where
  "toy_run = [(1000, [], CallRevokeHost (Inr ''admin'') True ''h'' ''stolen''), (1400, [], PublishTick)]"

lemma toy_run_published: "toy_body \<in> set (published_bodies key_prims (one_codec doc) H toy_run (toy_cmis c))"
proof -
  let ?J = "one_codec doc"
  define st1 where "st1 = cmis_step key_prims ?J H (1000, [], CallRevokeHost (Inr ''admin'') True ''h'' ''stolen'') (toy_cmis c)"
  have fail: "sign_crl key_prims ?J rnd iss b = Inl (Crl (CrlJson ''''))" if "b \<noteq> toy_body" for rnd iss b
    using that by (simp add: sign_crl_def SignedCrl_sign_def canonical_json_def one_codec_def)
  have st1: "cmis_entries st1 = [CrlEntry_new (Host ''h'') ''stolen'' 1000]" "cmis_number st1 = 1"
    "cmis_published_crl st1 = None"
    unfolding st1_def
    by (simp_all add: revoke_host_def Let_def publish_crl_def fail toy_body_def toy_cmis_def toy_reason audit_record_def
        revoke_def ttl_simps)
  have "sign_crl key_prims ?J [] (cmis_issuer st1) toy_body =
      Inr (toy_crl (is_secret (cmis_issuer st1)) (is_kid (cmis_issuer st1)) toy_body)" (is "_ = Inr ?sc")
    by (rule toy_sign_crl) (simp add: one_codec_def)
  then have "cmis_published_crl (cmis_step key_prims ?J H (1400, [], PublishTick) st1) = Some ?sc"
    by (simp add: publish_crl_def Let_def st1 toy_body_def ttl_simps)
  then show ?thesis by (simp add: toy_run_def st1_def [symmetric] toy_crl_body del: cmis_step.simps)
qed

text \<open>A document of the server with a given list.\<close>

definition toy_doc :: "crl_body \<Rightarrow> jwk_set" where
  "toy_doc body = published_jwks key_prims (Inl '''') (cmis_registry (toy_cmis (Inl ''''))) (Some (toy_crl (fst (toy_root 1)) ''root'' body))"

lemma toy_issuer_fields: "is_kid toy_issuer = ''root''" "is_public toy_issuer = snd (toy_root 1)"
  "is_secret toy_issuer = fst (toy_root 1)"
  by (simp_all add: toy_issuer_def Issuer_from_seed_def Issuer_new_def toy_root_def split: prod.splits)

lemma toy_doc_ingest:
  assumes "crl_to_vec J body = Inr [7]" and "jwks_from_str J json = Inr (toy_doc body)"
  shows "ingest key_prims J json = Inr body"
proof -
  obtain sk pk where k: "toy_root 1 = (sk, pk)" by fastforce
  have "registry_inv key_prims toy_issuer (cmis_registry (toy_cmis (Inl '''')))"
    unfolding toy_cmis_def cmis.select_convs by (rule registry_inv_run) simp
  from published_jwks_issuer [OF this]
  have "jwk_find (toy_doc body) ''root'' = Some (jwk_from_public_key key_prims ''root'' pk)"
    by (simp add: toy_doc_def toy_issuer_fields k)
  then have "SignedCrl_verify key_prims J (toy_crl sk ''root'' body) (toy_doc body) = Inr body"
    using SignedCrl_roundtrip [OF key_prims_ok _ _ toy_crl [OF assms(1)], of "[1]" sk pk] k toy_root_ok [of 1]
    by (simp add: toy_root_def)
  with assms(2) show ?thesis
    unfolding ingest_Inr by (auto simp: toy_doc_def k)
qed


theorem crl_pull_takes_effect_witness:
  "let body = \<lparr>cb_issued_at = 1400, cb_number = 1, cb_entries = []\<rparr>; J = any_codec (toy_doc body) in
     crl_gate (snd (refresh_once key_prims J (Inr ''doc'') None)) ''d'' ''h'' 1500 = GateOk"
proof -
  let ?st = "toy_cmis (Inl '''')" and ?body = "\<lparr>cb_issued_at = 1400, cb_number = 1, cb_entries = []\<rparr>"
  let ?J = "any_codec (toy_doc ?body)"
  let ?st' = "?st\<lparr>cmis_number := 1, cmis_published_crl := Some (toy_crl (fst (toy_root 1)) ''root'' ?body)\<rparr>"
  have "sign_crl key_prims ?J [] toy_issuer ?body = Inr (toy_crl (fst (toy_root 1)) ''root'' ?body)"
    using toy_sign_crl [of ?J ?body toy_issuer] by (simp add: any_codec_def toy_issuer_fields)
  then have pub: "publish_crl key_prims ?J [] 1400 ?st = (Inr 1, ?st')"
    by (simp add: publish_crl_def Let_def toy_cmis_def)
  have rpc: "jwks_rpc key_prims ?J (Inl '''') ?st' = Inr ''doc''"
    by (simp add: jwks_rpc_def any_codec_def toy_doc_def toy_cmis_def)
  have "crl_gate (snd (refresh_once key_prims ?J (Inr ''doc'') None)) ''d'' ''h'' 1500 =
       (if is_revoked ?st' ''h'' ''d'' then Revoked else GateOk)"
  proof (rule crl_pull_takes_effect [OF key_prims_ok _ _ _ _ pub rpc, THEN conjunct2])
    show "cmis_issuer ?st = Issuer_from_seed key_prims [1] ''root'' ''td''" by (simp add: toy_cmis_def toy_issuer_def)
    show "composite_key_ok key_prims (snd (from_seed key_prims [1]))" using toy_root_ok [of 1] by (simp add: toy_root_def)
    show "cmis_registry ?st = fold (registry_step key_prims id) [AddChild (snd (toy_root 2))]
        (registry_new key_prims (Inl '''') (cmis_issuer ?st))" by (simp add: toy_cmis_def)
    show "jwks_from_str ?J ''doc'' = Inr doc" if "jwks_to_string ?J doc = Inr ''doc''" for doc
      using that by (simp add: any_codec_def split: if_splits)
  qed (simp_all add: i64_range_def CRL_MAX_AGE_SECS_def CRL_FRESHNESS_LEEWAY_SECS_def)
  then show ?thesis by (simp add: Let_def is_revoked_def toy_cmis_def)
qed

definition self_signed_doc :: jwk_set where
  "self_signed_doc = \<lparr>js_keys = [jwk_from_public_key key_prims ''host-9'' (snd (toy_root 9))],
     js_crl = Some (toy_crl (fst (toy_root 9)) ''host-9'' toy_body), js_x509_bundle = None\<rparr>"

theorem crl_self_signed_accepted_witness:
  "refresh_once key_prims (any_codec self_signed_doc) (Inr ''doc'') None = (Inr 2, Some toy_body)"
proof -
  let ?J = "any_codec self_signed_doc"
  have s: "SignedCrl_sign key_prims ?J [] toy_body ''host-9'' (fst (toy_root 9)) =
      Inr (toy_crl (fst (toy_root 9)) ''host-9'' toy_body)"
    by (rule toy_crl) (simp add: any_codec_def)
  have k: "from_seed key_prims [9] = (fst (toy_root 9), snd (toy_root 9))" by (simp add: toy_root_def)
  have "cb_number toy_body = 2" by (simp add: toy_body_def)
  then show ?thesis
    using crl_self_signed_accepted [OF key_prims_ok k toy_root_ok s, of "''doc''" self_signed_doc "[]" None]
    by (simp add: any_codec_def self_signed_doc_def)
qed

definition revoked_cmis :: cmis where
  "revoked_cmis = (toy_cmis (Inl ''''))\<lparr>cmis_entries := [CrlEntry_new (Host ''h'') ''stolen'' 1000]\<rparr>"


end
