(* ===== verification/Throttle.thy ===== *)
theory Throttle
  imports Composite
begin

text \<open>
  Login throttling: \<open>crates/cmis/src/admin/throttle.rs\<close>, the table \<open>admin_login_throttle\<close> and its
  statements in \<open>crates/ferro-raft/src/admin.rs\<close>, the operations of \<open>admin/state.rs\<close> on it, and the part of
  \<open>Login\<close> in \<open>admin/service.rs\<close> that consults and updates it. The table is a map from key hashes to rows;
  the SQL statements are what SQLite documents for them. Attempts that share a key run one at a time,
  as \<open>serialize\<close> arranges on a node.
\<close>

section \<open>Locks\<close>

definition RESET_AFTER_SECS :: int where
  "RESET_AFTER_SECS = 24 * 3600"

datatype KeyKind = Ip | IpDevice | Account

fun KeyKind_code :: "KeyKind \<Rightarrow> int" where
  "KeyKind_code Ip = 1"
| "KeyKind_code IpDevice = 2"
| "KeyKind_code Account = 3"

fun KeyKind_label :: "KeyKind \<Rightarrow> string" where
  "KeyKind_label Ip = ''ip''"
| "KeyKind_label IpDevice = ''ip_device''"
| "KeyKind_label Account = ''account''"

definition lock_secs :: "KeyKind \<Rightarrow> int \<Rightarrow> int" where
  "lock_secs kind failures =
     (let (t1, t2, t3, step) = (case kind of Account \<Rightarrow> (9, 15, 21, 6) | _ \<Rightarrow> (3, 5, 7, 2))
      in if failures = t1 then 60
         else if failures = t2 then 900
         else if failures \<ge> t3 \<and> (failures - t3) mod step = 0 then 3600
         else 0)"

record throttle_row =
  tr_key_hash :: bytes
  tr_key_kind :: int
  tr_failures :: int
  tr_locked_until :: int
  tr_last_failure_at :: int

definition register_failure :: "throttle_row option \<Rightarrow> bytes \<Rightarrow> KeyKind \<Rightarrow> int \<Rightarrow> throttle_row" where
  "register_failure prev key_hash kind now =
     (let live = (case prev of
                    Some r \<Rightarrow> if saturating_sub_i64 now (tr_last_failure_at r) < RESET_AFTER_SECS then Some r else None
                  | None \<Rightarrow> None);
          failures = saturating_add_i64 (case live of None \<Rightarrow> 0 | Some r \<Rightarrow> tr_failures r) 1;
          lock = lock_secs kind failures;
          previous_lock = (case live of None \<Rightarrow> 0 | Some r \<Rightarrow> tr_locked_until r);
          locked_until = (if lock > 0 then max previous_lock (saturating_add_i64 now lock) else previous_lock)
      in \<lparr>tr_key_hash = key_hash, tr_key_kind = KeyKind_code kind, tr_failures = failures,
          tr_locked_until = locked_until, tr_last_failure_at = now\<rparr>)"

text \<open>\<open>u64::try_from(locked_until - now).unwrap_or(0)\<close>; the subtraction wraps in a release build.\<close>

definition locked_for :: "throttle_row \<Rightarrow> int \<Rightarrow> nat option" where
  "locked_for row now =
     (if tr_locked_until row > now
      then let d = wrapping_sub_i64 (tr_locked_until row) now in Some (if 0 \<le> d then nat d else 0)
      else None)"

section \<open>The table\<close>

type_synonym throttle_table = "bytes \<rightharpoonup> throttle_row"

definition admin_throttle :: "bytes \<Rightarrow> throttle_table \<Rightarrow> throttle_row option" where
  "admin_throttle key_hash tbl = tbl key_hash"

definition admin_put_throttle :: "throttle_row \<Rightarrow> throttle_table \<Rightarrow> throttle_table" where
  "admin_put_throttle row tbl = tbl(tr_key_hash row \<mapsto> row)"

text \<open>The upsert keeps the stored kind of an existing row.\<close>

definition admin_throttle_increment ::
  "bytes \<Rightarrow> int \<Rightarrow> int \<Rightarrow> int \<Rightarrow> throttle_table \<Rightarrow> throttle_row \<times> throttle_table" where
  "admin_throttle_increment key_hash key_kind now reset_after_secs tbl =
     (let row = (case tbl key_hash of
                   None \<Rightarrow> \<lparr>tr_key_hash = key_hash, tr_key_kind = key_kind, tr_failures = 1, tr_locked_until = 0,
                            tr_last_failure_at = now\<rparr>
                 | Some r \<Rightarrow>
                     r\<lparr>tr_failures := (if tr_last_failure_at r \<le> now - reset_after_secs then 1 else tr_failures r + 1),
                       tr_locked_until := (if tr_last_failure_at r \<le> now - reset_after_secs then 0 else tr_locked_until r),
                       tr_last_failure_at := now\<rparr>)
      in (row, tbl(key_hash \<mapsto> row)))"

definition admin_throttle_lock :: "bytes \<Rightarrow> int \<Rightarrow> throttle_table \<Rightarrow> throttle_table" where
  "admin_throttle_lock key_hash until tbl =
     (case tbl key_hash of
        None \<Rightarrow> tbl
      | Some r \<Rightarrow> tbl(key_hash \<mapsto> r\<lparr>tr_locked_until := max (tr_locked_until r) until\<rparr>))"

definition admin_clear_throttle :: "bytes \<Rightarrow> throttle_table \<Rightarrow> throttle_table" where
  "admin_clear_throttle key_hash tbl = tbl(key_hash := None)"

section \<open>The operations of the admin state\<close>

text \<open>A key is its kind and its hash. \<open>mac\<close> is the keyed hash of the key ring.\<close>

type_synonym throttle_key = "KeyKind \<times> bytes"

definition throttle_key :: "(string \<Rightarrow> bytes list \<Rightarrow> bytes) \<Rightarrow> KeyKind \<Rightarrow> bytes \<Rightarrow> bytes" where
  "throttle_key mac kind v = mac ''throttle-v1'' [be 8 (nat (KeyKind_code kind)), v]"

text \<open>\<open>readable\<close> and \<open>writable\<close> say which statements of the replicated store succeed.\<close>

fun throttle_wait_loop ::
  "(bytes \<Rightarrow> bool) \<Rightarrow> int \<Rightarrow> throttle_table \<Rightarrow> throttle_key list \<Rightarrow> nat option \<Rightarrow> (string, nat option) result" where
  "throttle_wait_loop readable now tbl [] wait = Inr wait"
| "throttle_wait_loop readable now tbl ((kind, hash) # ks) wait =
     (if \<not> readable hash then Inl ''store_unavailable''
      else throttle_wait_loop readable now tbl ks
        (case Option.bind (admin_throttle hash tbl) (\<lambda>r. locked_for r now) of
           None \<Rightarrow> wait
         | Some w \<Rightarrow> Some (case wait of None \<Rightarrow> w | Some cur \<Rightarrow> max cur w)))"

definition throttle_wait ::
  "(bytes \<Rightarrow> bool) \<Rightarrow> int \<Rightarrow> throttle_table \<Rightarrow> throttle_key list \<Rightarrow> (string, nat option) result" where
  "throttle_wait readable now tbl keys = throttle_wait_loop readable now tbl keys None"

definition throttle_failure_key ::
  "(bytes \<Rightarrow> bool \<times> bool) \<Rightarrow> int \<Rightarrow> throttle_key \<Rightarrow> throttle_table \<times> int \<Rightarrow> throttle_table \<times> int" where
  "throttle_failure_key writable now key acc =
     (let (kind, hash) = key; (tbl, applied) = acc
      in if \<not> fst (writable hash) then (tbl, applied)
         else let (row, tbl1) = admin_throttle_increment hash (KeyKind_code kind) now RESET_AFTER_SECS tbl;
                  lock = lock_secs kind (tr_failures row);
                  tbl2 = (if lock > 0 \<and> snd (writable hash)
                          then admin_throttle_lock hash (saturating_add_i64 now lock) tbl1 else tbl1)
              in (tbl2, if lock > 0 then max applied lock else applied))"

definition throttle_failure ::
  "(bytes \<Rightarrow> bool \<times> bool) \<Rightarrow> int \<Rightarrow> throttle_key list \<Rightarrow> throttle_table \<Rightarrow> throttle_table \<times> int" where
  "throttle_failure writable now keys tbl = fold (throttle_failure_key writable now) keys (tbl, 0)"

definition throttle_clear :: "(bytes \<Rightarrow> bool) \<Rightarrow> throttle_key list \<Rightarrow> throttle_table \<Rightarrow> throttle_table" where
  "throttle_clear deletable keys tbl =
     fold (\<lambda>(kind, hash) t. if deletable hash then admin_clear_throttle hash t else t) keys tbl"

section \<open>The throttling of a login\<close>

text \<open>
  One attempt: the keys it presents, whether its device token is valid, whether its nonce was redeemed
  and whether account, password and second factor were verified.
\<close>

record attempt =
  at_now :: int
  at_ip :: bytes
  at_device :: bytes
  at_account :: bytes
  at_device_ok :: bool
  at_nonce_ok :: bool
  at_verified :: bool

definition attempt_keys :: "attempt \<Rightarrow> throttle_key list" where
  "attempt_keys a =
     (if at_device_ok a then [(IpDevice, at_device a)] else [(Ip, at_ip a), (Account, at_account a)])"

datatype login_outcome =
    LoginThrottled nat
  | StoreUnavailable string
  | InvalidCredentials int
  | LoggedIn

definition login_failed :: "(bytes \<Rightarrow> bool \<times> bool) \<Rightarrow> attempt \<Rightarrow> throttle_table \<Rightarrow> login_outcome \<times> throttle_table" where
  "login_failed writable a tbl =
     (let counted = filter (\<lambda>(kind, _). at_nonce_ok a \<or> kind \<noteq> Account) (attempt_keys a);
          (tbl1, lock) = throttle_failure writable (at_now a) counted tbl
      in (InvalidCredentials lock, tbl1))"

definition login_succeeded :: "(bytes \<Rightarrow> bool) \<Rightarrow> attempt \<Rightarrow> throttle_table \<Rightarrow> login_outcome \<times> throttle_table" where
  "login_succeeded deletable a tbl =
     (let clear = (Account, at_account a) # (if at_device_ok a then [(IpDevice, at_device a)] else [])
      in (LoggedIn, throttle_clear deletable clear tbl))"

definition login_throttling ::
  "(bytes \<Rightarrow> bool) \<Rightarrow> (bytes \<Rightarrow> bool \<times> bool) \<Rightarrow> (bytes \<Rightarrow> bool) \<Rightarrow> attempt \<Rightarrow> throttle_table \<Rightarrow>
   login_outcome \<times> throttle_table" where
  "login_throttling readable writable deletable a tbl =
     (case throttle_wait readable (at_now a) tbl (attempt_keys a) of
        Inl e \<Rightarrow> (StoreUnavailable e, tbl)
      | Inr (Some wait) \<Rightarrow> (LoginThrottled wait, tbl)
      | Inr None \<Rightarrow> if \<not> at_verified a then login_failed writable a tbl else login_succeeded deletable a tbl)"

lemmas login_throttling_defs = login_throttling_def login_failed_def login_succeeded_def

section \<open>Equivalence with the reference rule\<close>

text \<open>\<open>register_failure\<close> is the rule as a pure function of a row; the server applies it as an upsert followed
  by an update, so that concurrent failures are not lost. On rows in range the two agree.\<close>

definition row_ok :: "KeyKind \<Rightarrow> bytes \<Rightarrow> throttle_row \<Rightarrow> bool" where
  "row_ok kind hash r \<longleftrightarrow> tr_key_hash r = hash \<and> tr_key_kind r = KeyKind_code kind \<and>
     0 \<le> tr_failures r \<and> tr_failures r < 2 ^ 63 - 1 \<and> 0 \<le> tr_last_failure_at r \<and> i64_range (tr_last_failure_at r)"

lemma saturating_sub_in_range: "0 \<le> a \<Longrightarrow> 0 \<le> b \<Longrightarrow> i64_range a \<Longrightarrow> i64_range b \<Longrightarrow> saturating_sub_i64 a b = a - b"
  by (simp add: saturating_sub_i64_def i64_range_def)

lemma lock_secs_cases: "lock_secs kind f \<in> {0, 60, 900, 3600}"
  by (simp add: lock_secs_def Let_def split: KeyKind.splits)

text \<open>
  C40. Counting a failure in the replicated table is the rule of \<open>register_failure\<close>. When the store
  answers, one failure on a key leaves exactly the row that \<open>register_failure\<close> computes from the
  previous row, every other key unchanged, and the reported lock is the longest so far.
\<close>

theorem throttle_failure_refines_rule:
  assumes "\<forall>r. tbl hash = Some r \<longrightarrow> row_ok kind hash r" and "0 \<le> now" "i64_range now" "0 \<le> applied"
  shows "throttle_failure_key (\<lambda>_. (True, True)) now (kind, hash) (tbl, applied) =
    (admin_put_throttle (register_failure (tbl hash) hash kind now) tbl,
     max applied (lock_secs kind (tr_failures (register_failure (tbl hash) hash kind now))))"
proof (cases "tbl hash")
  case None
  then show ?thesis
    using lock_secs_cases [of kind 1] assms(4)
    by (auto simp: throttle_failure_key_def admin_throttle_increment_def admin_throttle_lock_def admin_put_throttle_def
        register_failure_def Let_def saturating_add_i64_def [of 0 1])
next
  case (Some r)
  then have r: "row_ok kind hash r" using assms(1) by blast
  have reset: "saturating_sub_i64 now (tr_last_failure_at r) < RESET_AFTER_SECS \<longleftrightarrow>
      \<not> tr_last_failure_at r \<le> now - RESET_AFTER_SECS"
    using saturating_sub_in_range [of now "tr_last_failure_at r"] r assms(2,3) by (auto simp: row_ok_def)
  have inc: "saturating_add_i64 (tr_failures r) 1 = tr_failures r + 1"
    using r by (simp add: row_ok_def saturating_add_i64_def)
  show ?thesis
    using Some r reset inc assms(4) lock_secs_cases [of kind 1] lock_secs_cases [of kind "tr_failures r + 1"]
    by (auto simp: throttle_failure_key_def admin_throttle_increment_def admin_throttle_lock_def admin_put_throttle_def
        register_failure_def Let_def row_ok_def saturating_add_i64_def [of 0 1])
qed


section \<open>How fast one can guess\<close>

fun third_threshold :: "KeyKind \<Rightarrow> int" where
  "third_threshold Account = 21"
| "third_threshold _ = 7"

fun per_lock :: "KeyKind \<Rightarrow> int" where
  "per_lock Account = 6"
| "per_lock _ = 2"

text \<open>How many more failures a counter allows before the next lock of an hour.\<close>

definition free_failures :: "KeyKind \<Rightarrow> int \<Rightarrow> int" where
  "free_failures kind f =
     (if f < third_threshold kind then third_threshold kind - f
      else if (f - third_threshold kind) mod per_lock kind = 0 then 0
      else per_lock kind - (f - third_threshold kind) mod per_lock kind)"

definition counts_on :: "KeyKind \<Rightarrow> bytes \<Rightarrow> attempt \<Rightarrow> bool" where
  "counts_on kind hash a \<longleftrightarrow> (kind, hash) \<in> set (attempt_keys a) \<and> (at_nonce_ok a \<or> kind \<noteq> Account)"

fun is_invalid :: "login_outcome \<Rightarrow> bool" where
  "is_invalid (InvalidCredentials _) = True"
| "is_invalid _ = False"

text \<open>The failed guesses of a run that were evaluated and counted on a key, with the store available.\<close>

abbreviation login_step :: "attempt \<Rightarrow> throttle_table \<Rightarrow> login_outcome \<times> throttle_table" where
  "login_step \<equiv> login_throttling (\<lambda>_. True) (\<lambda>_. (True, True)) (\<lambda>_. True)"

fun guesses :: "KeyKind \<Rightarrow> bytes \<Rightarrow> attempt list \<Rightarrow> throttle_table \<Rightarrow> int" where
  "guesses kind hash [] tbl = 0"
| "guesses kind hash (a # as) tbl =
     (if counts_on kind hash a \<and> is_invalid (fst (login_step a tbl)) then 1 else 0) +
     guesses kind hash as (snd (login_step a tbl))"

text \<open>A hash that an attempt presents under this kind only, and does not clear.\<close>

definition apart :: "KeyKind \<Rightarrow> bytes \<Rightarrow> attempt \<Rightarrow> bool" where
  "apart kind hash a \<longleftrightarrow>
     (at_ip a = hash \<longrightarrow> kind = Ip) \<and> (at_device a = hash \<longrightarrow> kind = IpDevice) \<and> (at_account a = hash \<longrightarrow> kind = Account) \<and>
     (at_verified a \<longrightarrow> kind = Ip \<or> (kind, hash) \<notin> set (attempt_keys a) \<and> at_account a \<noteq> hash)"

definition row_inv :: "KeyKind \<Rightarrow> throttle_row \<Rightarrow> int \<Rightarrow> bool" where
  "row_inv kind r clock \<longleftrightarrow> 1 \<le> tr_failures r \<and> tr_last_failure_at r \<le> clock \<and>
     (free_failures kind (tr_failures r) = 0 \<longrightarrow> tr_last_failure_at r + 3600 \<le> tr_locked_until r)"

lemma free_failures_nonneg: "0 \<le> free_failures kind f"
  by (cases kind) (auto simp: free_failures_def intro: order.strict_implies_order)

lemma free_failures_zero: "free_failures kind f = 0 \<longleftrightarrow> third_threshold kind \<le> f \<and> (f - third_threshold kind) mod per_lock kind = 0"
proof -
  have "x mod per_lock kind < per_lock kind" for x by (cases kind) auto
  then show ?thesis by (auto simp: free_failures_def) (metis less_irrefl)
qed

lemma mod_succ_int:
  fixes x m :: int
  assumes "0 < m"
  shows "(x + 1) mod m = (if x mod m = m - 1 then 0 else x mod m + 1)"
proof -
  have "(x + 1) mod m = (x mod m + 1) mod m" by (simp add: mod_add_left_eq)
  moreover have "0 \<le> x mod m" "x mod m < m" using assms by simp_all
  ultimately show ?thesis by (auto simp: mod_pos_pos_trivial)
qed

lemma free_failures_succ:
  "free_failures kind (f + 1) = (if free_failures kind f = 0 then per_lock kind - 1 else free_failures kind f - 1)"
proof (cases "f < third_threshold kind")
  case True
  then show ?thesis by (cases "f + 1 = third_threshold kind") (auto simp: free_failures_def)
next
  case False
  have p: "1 < per_lock kind" by (cases kind) auto
  define m where "m = (f - third_threshold kind) mod per_lock kind"
  have m: "0 \<le> m" "m < per_lock kind" using p by (simp_all add: m_def)
  have s: "(f + 1 - third_threshold kind) mod per_lock kind = (if m = per_lock kind - 1 then 0 else m + 1)"
    using mod_succ_int [of "per_lock kind" "f - third_threshold kind"] p by (simp add: m_def algebra_simps)
  show ?thesis
    using False p m unfolding free_failures_def s m_def [symmetric] by auto
qed

lemma lock_at_zero: "free_failures kind f = 0 \<Longrightarrow> lock_secs kind f = 3600"
  unfolding free_failures_zero by (cases kind) (auto simp: lock_secs_def Let_def)


lemma throttle_wait_unlocked:
  assumes "throttle_wait (\<lambda>_. True) now tbl keys = Inr None" and "(kind, hash) \<in> set keys" and "tbl hash = Some r"
  shows "tr_locked_until r \<le> now"
proof -
  have some: "throttle_wait_loop (\<lambda>_. True) now tbl ks (Some w) \<noteq> Inr None" for ks w
  proof (induction ks arbitrary: w)
    case (Cons k ks)
    then show ?case by (cases k) (auto split: option.splits)
  qed simp
  have "throttle_wait_loop (\<lambda>_. True) now tbl ks None = Inr None \<Longrightarrow> (kind, hash) \<in> set ks \<Longrightarrow> tr_locked_until r \<le> now" for ks
  proof (induction ks)
    case (Cons k ks)
    then show ?case
      using some assms(3) by (cases k) (auto simp: admin_throttle_def locked_for_def Let_def split: option.splits if_splits)
  qed simp
  with assms(1,2) show ?thesis by (simp add: throttle_wait_def)
qed

definition counted_row :: "KeyKind \<Rightarrow> int \<Rightarrow> throttle_row \<Rightarrow> throttle_row option \<Rightarrow> bool" where
  "counted_row kind now r' prev \<longleftrightarrow> tr_last_failure_at r' = now \<and>
     (free_failures kind (tr_failures r') = 0 \<longrightarrow> now + 3600 \<le> tr_locked_until r') \<and>
     (case prev of None \<Rightarrow> tr_failures r' = 1
      | Some r \<Rightarrow> tr_failures r' = (if tr_last_failure_at r \<le> now - RESET_AFTER_SECS then 1 else tr_failures r + 1))"

lemma throttle_failure_key_self:
  assumes "now + 3600 < 2 ^ 63" and "0 \<le> now"
  shows "\<exists>r'. fst (throttle_failure_key (\<lambda>_. (True, True)) now (kind, hash) (tbl, ap)) hash = Some r' \<and>
    counted_row kind now r' (tbl hash)"
  using assms lock_at_zero [of kind]
  by (cases "tbl hash")
    (auto simp: throttle_failure_key_def admin_throttle_increment_def admin_throttle_lock_def counted_row_def Let_def
      saturating_add_i64_def)

lemma throttle_failure_key_other:
  "hash' \<noteq> hash \<Longrightarrow> fst (throttle_failure_key w now (kind, hash) (tbl, ap)) hash' = tbl hash'"
  by (auto simp: throttle_failure_key_def admin_throttle_increment_def admin_throttle_lock_def Let_def split: option.splits)


text \<open>One attempt, seen from one key.\<close>

lemma login_step_key:
  assumes "apart kind hash a" and "0 \<le> at_now a" "at_now a + 3600 < 2 ^ 63"
  shows "if counts_on kind hash a \<and> is_invalid (fst (login_step a tbl))
    then (\<exists>r'. snd (login_step a tbl) hash = Some r' \<and> counted_row kind (at_now a) r' (tbl hash)) \<and>
      (\<forall>r. tbl hash = Some r \<longrightarrow> tr_locked_until r \<le> at_now a)
    else snd (login_step a tbl) hash = tbl hash"
proof (cases "throttle_wait (\<lambda>_. True) (at_now a) tbl (attempt_keys a) = Inr None \<and> \<not> at_verified a")
  case True
  note self = throttle_failure_key_self [OF assms(3,2)] and other = throttle_failure_key_other
  have invalid: "is_invalid (fst (login_step a tbl))" and
    tbl': "snd (login_step a tbl) = fst (throttle_failure (\<lambda>_. (True, True)) (at_now a)
      (filter (\<lambda>(kind, _). at_nonce_ok a \<or> kind \<noteq> Account) (attempt_keys a)) tbl)"
    using True by (auto simp: login_throttling_defs Let_def split: prod.splits)
  have unlocked: "tr_locked_until r \<le> at_now a" if "counts_on kind hash a" "tbl hash = Some r" for r
    using throttle_wait_unlocked True that by (auto simp: counts_on_def)
  let ?row = "fst (throttle_failure (\<lambda>_. (True, True)) (at_now a)
      (filter (\<lambda>(kind, _). at_nonce_ok a \<or> kind \<noteq> Account) (attempt_keys a)) tbl) hash"
  have "if counts_on kind hash a then \<exists>r'. ?row = Some r' \<and> counted_row kind (at_now a) r' (tbl hash) else ?row = tbl hash"
  proof (cases "at_device_ok a")
    case True
    then show ?thesis
      using assms(1) self [of kind hash tbl 0] other [of hash "at_device a"]
      by (auto simp: attempt_keys_def counts_on_def throttle_failure_def apart_def)
  next
    case False
    obtain t1 ap1 where one: "throttle_failure_key (\<lambda>_. (True, True)) (at_now a) (Ip, at_ip a) (tbl, 0) = (t1, ap1)"
      by fastforce
    then have t1: "t1 h = tbl h" if "h \<noteq> at_ip a" for h
      using other [OF that, of "\<lambda>_. (True, True)" "at_now a" Ip tbl 0] by simp
    have t1': "\<exists>r'. t1 (at_ip a) = Some r' \<and> counted_row Ip (at_now a) r' (tbl (at_ip a))"
      using self [of Ip "at_ip a" tbl 0] one by simp
    have t2: "fst (throttle_failure_key (\<lambda>_. (True, True)) (at_now a) (Account, at_account a) (t1, ap1)) h = t1 h"
      if "h \<noteq> at_account a" for h
      using other [OF that] by blast
    have t2': "\<exists>r'. fst (throttle_failure_key (\<lambda>_. (True, True)) (at_now a) (Account, at_account a) (t1, ap1)) (at_account a) = Some r' \<and>
        counted_row Account (at_now a) r' (t1 (at_account a))"
      using self by blast
    show ?thesis
      using assms(1) False one t1 t1' t2 t2'
      by (cases kind) (auto simp: attempt_keys_def counts_on_def throttle_failure_def apart_def)
  qed
  with invalid unlocked show ?thesis unfolding tbl' by auto
next
  case False
  then have "\<not> is_invalid (fst (login_step a tbl))"
    by (auto simp: login_throttling_defs Let_def split: sum.splits option.splits)
  moreover have "snd (login_step a tbl) hash = tbl hash"
    using False assms(1)
    by (cases "at_device_ok a") (auto simp: login_throttling_defs Let_def throttle_clear_def admin_clear_throttle_def apart_def attempt_keys_def
        split: sum.splits option.splits)
  ultimately show ?thesis by simp
qed


lemma per_lock_bounds: "2 \<le> per_lock kind" "3600 * third_threshold kind \<le> per_lock kind * RESET_AFTER_SECS"
  by (cases kind; simp add: RESET_AFTER_SECS_def)+

lemma free_failures_one: "free_failures kind 1 = third_threshold kind - 1"
  by (cases kind) (simp_all add: free_failures_def)

text \<open>The cost of one counted failure: the failures still free, and the time since the last one.\<close>

lemma counted_row_cost:
  assumes "counted_row kind now r' (Some r)" and "row_inv kind r now" and "tr_locked_until r \<le> now"
  shows "3600 * (1 + free_failures kind (tr_failures r')) \<le>
    3600 * free_failures kind (tr_failures r) + per_lock kind * (now - tr_last_failure_at r)"
proof -
  let ?d = "now - tr_last_failure_at r"
  have d: "0 \<le> ?d" using assms(2) by (simp add: row_inv_def)
  consider "RESET_AFTER_SECS \<le> ?d" "tr_failures r' = 1"
    | "tr_failures r' = tr_failures r + 1" "free_failures kind (tr_failures r) = 0" "3600 \<le> ?d"
    | "tr_failures r' = tr_failures r + 1" "free_failures kind (tr_failures r) \<noteq> 0"
    using assms by (fastforce simp: counted_row_def row_inv_def split: if_splits)
  then show ?thesis
  proof cases
    case 1
    have "per_lock kind * RESET_AFTER_SECS \<le> per_lock kind * ?d"
      using 1(1) per_lock_bounds(1) [of kind] by (intro mult_left_mono) auto
    with 1(2) per_lock_bounds(2) [of kind] free_failures_nonneg [of kind "tr_failures r"] show ?thesis
      by (simp add: free_failures_one)
  next
    case 2
    have "per_lock kind * 3600 \<le> per_lock kind * ?d"
      using 2(3) per_lock_bounds(1) [of kind] by (intro mult_left_mono) auto
    with 2 show ?thesis by (simp add: free_failures_succ)
  next
    case 3
    have "0 \<le> per_lock kind * ?d" using d per_lock_bounds(1) [of kind] by simp
    with 3 show ?thesis by (simp add: free_failures_succ)
  qed
qed

lemma counted_row_inv:
  assumes "counted_row kind now r' prev" and "\<forall>r. prev = Some r \<longrightarrow> row_inv kind r now"
  shows "row_inv kind r' now"
  using assms by (cases prev) (auto simp: counted_row_def row_inv_def)

definition attempts_between :: "int \<Rightarrow> int \<Rightarrow> attempt list \<Rightarrow> bool" where
  "attempts_between t0 t1 as \<longleftrightarrow>
     sorted (map at_now as) \<and> (\<forall>a\<in>set as. t0 \<le> at_now a \<and> at_now a \<le> t1)"

lemma guesses_bound:
  assumes "attempts_between t0 t1 as" and "\<forall>a\<in>set as. apart kind hash a" and "0 \<le> t0" "t1 + 3600 < 2 ^ 63" "t0 \<le> t1"
    and "\<forall>r. tbl hash = Some r \<longrightarrow> row_inv kind r t0"
  shows "3600 * guesses kind hash as tbl \<le>
    (case tbl hash of
       None \<Rightarrow> 3600 * third_threshold kind + per_lock kind * (t1 - t0)
     | Some r \<Rightarrow> 3600 * free_failures kind (tr_failures r) + per_lock kind * (t1 - tr_last_failure_at r))"
  using assms
proof (induction as arbitrary: t0 tbl)
  case Nil
  have "0 \<le> per_lock kind" using per_lock_bounds(1) [of kind] by simp
  moreover have "0 \<le> third_threshold kind" by (cases kind) simp_all
  ultimately show ?case
    using Nil.prems free_failures_nonneg [of kind] by (auto simp: row_inv_def split: option.splits)
next
  case (Cons a as)
  let ?tbl = "snd (login_step a tbl)" and ?now = "at_now a"
  have now: "t0 \<le> ?now" "?now \<le> t1" "0 \<le> ?now" "?now + 3600 < 2 ^ 63"
    using Cons.prems by (auto simp: attempts_between_def)
  have rest: "attempts_between ?now t1 as"
    using Cons.prems(1) by (auto simp: attempts_between_def)
  have old: "\<forall>r. tbl hash = Some r \<longrightarrow> row_inv kind r ?now"
    using Cons.prems(6) now(1) by (auto simp: row_inv_def)
  have apart: "apart kind hash a" "\<forall>a\<in>set as. apart kind hash a" using Cons.prems(2) by simp_all
  note step = login_step_key [OF apart(1) now(3,4), of tbl]
  note IH = Cons.IH [OF rest apart(2) now(3) Cons.prems(4) now(2)]
  have slow: "per_lock kind * (t1 - ?now) \<le> per_lock kind * (t1 - t0)"
    using now(1) per_lock_bounds(1) [of kind] by (intro mult_left_mono) auto
  show ?case
  proof (cases "counts_on kind hash a \<and> is_invalid (fst (login_step a tbl))")
    case True
    then obtain r' where r': "?tbl hash = Some r'" "counted_row kind ?now r' (tbl hash)"
      "\<forall>r. tbl hash = Some r \<longrightarrow> tr_locked_until r \<le> ?now"
      using step by auto
    then have inv: "row_inv kind r' ?now" using counted_row_inv old by blast
    have last: "tr_last_failure_at r' = ?now" using r'(2) by (simp add: counted_row_def)
    have g: "3600 * guesses kind hash as ?tbl \<le> 3600 * free_failures kind (tr_failures r') + per_lock kind * (t1 - ?now)"
      using IH [of ?tbl] inv r'(1) last by simp
    show ?thesis
    proof (cases "tbl hash")
      case None
      then show ?thesis
        using g r'(2) True slow by (simp add: counted_row_def free_failures_one)
    next
      case (Some r)
      then show ?thesis
        using g True counted_row_cost [of kind ?now r' r] r'(2,3) old by (simp add: algebra_simps)
    qed
  next
    case False
    then have same: "?tbl hash = tbl hash" using step by (auto split: if_splits)
    then have "3600 * guesses kind hash as ?tbl \<le>
      (case tbl hash of
         None \<Rightarrow> 3600 * third_threshold kind + per_lock kind * (t1 - ?now)
       | Some r \<Rightarrow> 3600 * free_failures kind (tr_failures r) + per_lock kind * (t1 - tr_last_failure_at r))"
      using IH [of ?tbl] old by simp
    then show ?thesis
      using False slow by (cases "tbl hash") auto
  qed
qed


section \<open>Witnesses\<close>

theorem throttle_failure_refines_rule_witness:
  "let r = \<lparr>tr_key_hash = [1], tr_key_kind = 1, tr_failures = 2, tr_locked_until = 0, tr_last_failure_at = 90\<rparr> in
   throttle_failure_key (\<lambda>_. (True, True)) 100 (Ip, [1]) ([[1] \<mapsto> r], 0) =
     ([[1] \<mapsto> r\<lparr>tr_failures := 3, tr_locked_until := 160, tr_last_failure_at := 100\<rparr>], 60)"
  using throttle_failure_refines_rule [of "[[1] \<mapsto> \<lparr>tr_key_hash = [1], tr_key_kind = 1, tr_failures = 2,
      tr_locked_until = 0, tr_last_failure_at = 90\<rparr>]" "[1]" Ip 100 0]
  by (simp add: Let_def row_ok_def i64_range_def register_failure_def lock_secs_def saturating_add_i64_def
      saturating_sub_i64_def RESET_AFTER_SECS_def admin_put_throttle_def)

definition toy_attempt :: "int \<Rightarrow> bytes \<Rightarrow> attempt" where
  "toy_attempt now account = \<lparr>at_now = now, at_ip = [1], at_device = [2], at_account = account, at_device_ok = False,
     at_nonce_ok = True, at_verified = False\<rparr>"


end
