(* ===== verification/Access.thy ===== *)
theory Access
  imports Composite
begin

text \<open>
  \<open>crates/cmis/src/admin/authz.rs\<close>: the permissions, and the table that says for every gRPC method how it
  is protected. A method that is missing from the table is refused.
\<close>

section \<open>Permissions\<close>

datatype Permission =
    AppRequestList
  | AppRequestRead
  | ApprovalList
  | ApprovalRead
  | HostList
  | AppRequestApprove
  | AppRequestDeny
  | ApprovalUpdate
  | ApprovalRevoke
  | AppDirectRegister
  | AccountList
  | AccountCreate
  | AccountUpdate
  | AccountDisable
  | AccountReset
  | SessionRevokeAny
  | LegacyAllowlistRead
  | LegacyAllowlistWrite
  | SvidList
  | SvidRevoke
  | PolicyEpochBump
  | SettingsAllowlistMode
  | AllowlistImport

definition Permission_ALL :: "Permission list" where
  "Permission_ALL =
     [AppRequestList, AppRequestRead, ApprovalList, ApprovalRead,
      HostList, AppRequestApprove, AppRequestDeny, ApprovalUpdate,
      ApprovalRevoke, AppDirectRegister, AccountList, AccountCreate,
      AccountUpdate, AccountDisable, AccountReset, SessionRevokeAny,
      LegacyAllowlistRead, LegacyAllowlistWrite, SvidList, SvidRevoke,
      PolicyEpochBump, SettingsAllowlistMode, AllowlistImport]"

fun Permission_as_str :: "Permission \<Rightarrow> string" where
  "Permission_as_str AppRequestList = ''app_request.list''"
| "Permission_as_str AppRequestRead = ''app_request.read''"
| "Permission_as_str ApprovalList = ''approval.list''"
| "Permission_as_str ApprovalRead = ''approval.read''"
| "Permission_as_str HostList = ''host.list''"
| "Permission_as_str AppRequestApprove = ''app_request.approve''"
| "Permission_as_str AppRequestDeny = ''app_request.deny''"
| "Permission_as_str ApprovalUpdate = ''approval.update''"
| "Permission_as_str ApprovalRevoke = ''approval.revoke''"
| "Permission_as_str AppDirectRegister = ''app.direct_register''"
| "Permission_as_str AccountList = ''account.list''"
| "Permission_as_str AccountCreate = ''account.create''"
| "Permission_as_str AccountUpdate = ''account.update''"
| "Permission_as_str AccountDisable = ''account.disable''"
| "Permission_as_str AccountReset = ''account.reset''"
| "Permission_as_str SessionRevokeAny = ''session.revoke_any''"
| "Permission_as_str LegacyAllowlistRead = ''legacy.allowlist.read''"
| "Permission_as_str LegacyAllowlistWrite = ''legacy.allowlist.write''"
| "Permission_as_str SvidList = ''svid.list''"
| "Permission_as_str SvidRevoke = ''svid.revoke''"
| "Permission_as_str PolicyEpochBump = ''policy.epoch_bump''"
| "Permission_as_str SettingsAllowlistMode = ''settings.allowlist_mode''"
| "Permission_as_str AllowlistImport = ''allowlist.import''"

definition Permission_parse :: "string \<Rightarrow> Permission option" where
  "Permission_parse s = List.find (\<lambda>p. Permission_as_str p = s) Permission_ALL"

definition VIEWERS :: string where
  "VIEWERS = ''ferrogate-viewers''"

definition APPROVERS :: string where
  "APPROVERS = ''ferrogate-approvers''"

definition ACCOUNT_ADMINS :: string where
  "ACCOUNT_ADMINS = ''ferrogate-account-admins''"

definition PLATFORM_OPERATORS :: string where
  "PLATFORM_OPERATORS = ''ferrogate-platform-operators''"

section \<open>The method table\<close>

record session_rule =
  sr_permission :: "Permission option"
  sr_step_up :: bool
  sr_allow_restricted :: bool
  sr_allow_factor_enrollment :: bool

datatype Access = Public | Host | AdminPublic | Session session_rule

definition session :: "Permission option \<Rightarrow> bool \<Rightarrow> bool \<Rightarrow> bool \<Rightarrow> Access" where
  "session permission step_up allow_restricted allow_factor_enrollment =
     Session \<lparr>sr_permission = permission, sr_step_up = step_up, sr_allow_restricted = allow_restricted,
       sr_allow_factor_enrollment = allow_factor_enrollment\<rparr>"

definition MI :: string where
  "MI = ''/ferrogate.v1.MachineIdentity/''"

definition ADMIN :: string where
  "ADMIN = ''/ferrogate.admin.v1.Admin/''"

definition METHOD_ACCESS :: "(string \<times> Access) list" where
  "METHOD_ACCESS =
    [(MI @ ''Attest'', Public),
     (MI @ ''FetchSVID'', Public),
     (MI @ ''JWKS'', Public),
     (MI @ ''GetEnrollmentKey'', Public),
     (MI @ ''GetAllowlist'', Public),
     (MI @ ''Health'', Public),
     (MI @ ''LatestSth'', Public),
     (MI @ ''InclusionProof'', Public),
     (MI @ ''ConsistencyProof'', Public),
     (MI @ ''ProposeAllowlist'', Host),
     (MI @ ''AppendAuditEvent'', Host),
     (MI @ ''SubmitAppRequest'', Host),
     (MI @ ''GetAppRequestStatus'', Host),
     (MI @ ''SyncAllowlist'', Host),
     (MI @ ''Rotate'', Host),
     (MI @ ''ListAllowlists'', session (Some LegacyAllowlistRead) False False False),
     (MI @ ''ListProposals'', session (Some LegacyAllowlistRead) False False False),
     (MI @ ''ListSvids'', session (Some SvidList) False False False),
     (MI @ ''SetAllowlist'', session (Some LegacyAllowlistWrite) True False False),
     (MI @ ''DeleteAllowlist'', session (Some LegacyAllowlistWrite) True False False),
     (MI @ ''DeleteProposal'', session (Some LegacyAllowlistWrite) True False False),
     (MI @ ''RevokeSvid'', session (Some SvidRevoke) True False False),
     (MI @ ''RevokeHost'', session (Some SvidRevoke) True False False),
     (MI @ ''UnrevokeHost'', session (Some SvidRevoke) True False False),
     (MI @ ''BumpEpoch'', session (Some PolicyEpochBump) True False False),
     (ADMIN @ ''BeginLogin'', AdminPublic),
     (ADMIN @ ''Login'', AdminPublic),
     (ADMIN @ ''BeginEnrollment'', AdminPublic),
     (ADMIN @ ''CompleteEnrollment'', AdminPublic),
     (ADMIN @ ''WhoAmI'', session None False True True),
     (ADMIN @ ''Logout'', session None False True True),
     (ADMIN @ ''ChangePassword'', session None False True True),
     (ADMIN @ ''ListMySessions'', session None False False False),
     (ADMIN @ ''RevokeSession'', session None False False False),
     (ADMIN @ ''BeginStepUp'', session None False True True),
     (ADMIN @ ''StepUp'', session None False False False),
     (ADMIN @ ''ListMyFactors'', session None False False True),
     (ADMIN @ ''BeginAddFactor'', session None True False True),
     (ADMIN @ ''CompleteAddFactor'', session None False False True),
     (ADMIN @ ''RemoveFactor'', session None False False False),
     (ADMIN @ ''ListAdminAccounts'', session (Some AccountList) False False False),
     (ADMIN @ ''ListAdminGroups'', session (Some AccountList) False False False),
     (ADMIN @ ''CreateAdminAccount'', session (Some AccountCreate) False False False),
     (ADMIN @ ''UpdateAdminAccount'', session (Some AccountUpdate) False False False),
     (ADMIN @ ''SetAdminAccountState'', session (Some AccountDisable) False False False),
     (ADMIN @ ''ResetAdminCredentials'', session (Some AccountReset) False False False),
     (ADMIN @ ''ListAppRequests'', session (Some AppRequestList) False False False),
     (ADMIN @ ''GetAppRequest'', session (Some AppRequestRead) False False False),
     (ADMIN @ ''ListApprovals'', session (Some ApprovalList) False False False),
     (ADMIN @ ''GetApproval'', session (Some ApprovalRead) False False False),
     (ADMIN @ ''ApproveAppRequest'', session (Some AppRequestApprove) True False False),
     (ADMIN @ ''DenyAppRequest'', session (Some AppRequestDeny) True False False),
     (ADMIN @ ''UpdateApproval'', session (Some ApprovalUpdate) True False False),
     (ADMIN @ ''SetLineageAutoUpdateFrozen'', session (Some ApprovalUpdate) True False False),
     (ADMIN @ ''RevokeApproval'', session (Some ApprovalRevoke) True False False),
     (ADMIN @ ''AdminRegisterApplication'', session (Some AppDirectRegister) False False False),
     (ADMIN @ ''GetAllowlistMode'', session None False False False),
     (ADMIN @ ''SetAllowlistMode'', session (Some SettingsAllowlistMode) True False False),
     (ADMIN @ ''ImportLegacyAllowlists'', session (Some AllowlistImport) True False False)]"

definition access_for :: "string \<Rightarrow> Access option" where
  "access_for path = map_option snd (List.find (\<lambda>(p, _). p = path) METHOD_ACCESS)"

end
