(* ===== verification/Admin_Session.thy ===== *)
theory Admin_Session
  imports Access "HOL-Library.List_Lexorder" "HOL-Library.Product_Lexorder"
begin

text \<open>
  Administrator sessions: \<open>crates/cmis/src/admin/session.rs\<close>, the statements on \<open>admin_sessions\<close> in
  \<open>crates/ferro-raft/src/admin.rs\<close>, the session operations of \<open>admin/state.rs\<close> and \<open>admin/service.rs\<close>, the decision
  \<open>authorize\<close> of \<open>admin/authz.rs\<close>, the guard \<open>require\<close> of the handlers and the admission of a request in
  \<open>admin/layer.rs\<close>. The table is the list of its rows; the argument \<open>up\<close> says which statements of the
  replicated store succeed. SHA-256 is the argument \<open>sha256\<close>. An address is its canonical text. All
  clock readings within one call are equal.
\<close>

section \<open>Tokens and lifetimes\<close>

definition TOKEN_PREFIX :: bytes where
  "TOKEN_PREFIX = str_bytes ''fgas_''"

definition TOKEN_LEN :: nat where
  "TOKEN_LEN = length TOKEN_PREFIX + 43"

definition MAX_IDLE_SECS :: int where
  "MAX_IDLE_SECS = 900"

definition MAX_ABSOLUTE_SECS :: int where
  "MAX_ABSOLUTE_SECS = 12 * 3600"

definition TOUCH_INTERVAL_SECS :: int where
  "TOUCH_INTERVAL_SECS = 60"

definition MAX_SESSIONS_PER_ACCOUNT :: nat where
  "MAX_SESSIONS_PER_ACCOUNT = 5"

definition MAX_STEP_UP_FAILURES :: int where
  "MAX_STEP_UP_FAILURES = 5"

definition CLIENT_TRAY :: int where
  "CLIENT_TRAY = 2"

datatype MfaMethod = Totp | WebAuthn

fun MfaMethod_code :: "MfaMethod \<Rightarrow> int" where
  "MfaMethod_code Totp = 1"
| "MfaMethod_code WebAuthn = 2"

fun MfaMethod_aal :: "MfaMethod \<Rightarrow> int" where
  "MfaMethod_aal Totp = 2"
| "MfaMethod_aal WebAuthn = 3"

datatype RevokeReason =
    Logout | ByUser | ByAdmin | IpMismatch | Idle | Absolute | Evicted | PasswordChanged | AccountDisabled
  | CredentialsReset | GroupsChanged | StepUpFailures | CertMismatch | AccountInactive | FactorRemoved

fun RevokeReason_code :: "RevokeReason \<Rightarrow> int" where
  "RevokeReason_code Logout = 1"
| "RevokeReason_code ByUser = 2"
| "RevokeReason_code ByAdmin = 3"
| "RevokeReason_code IpMismatch = 4"
| "RevokeReason_code Idle = 5"
| "RevokeReason_code Absolute = 6"
| "RevokeReason_code Evicted = 7"
| "RevokeReason_code PasswordChanged = 8"
| "RevokeReason_code AccountDisabled = 9"
| "RevokeReason_code CredentialsReset = 10"
| "RevokeReason_code GroupsChanged = 11"
| "RevokeReason_code StepUpFailures = 12"
| "RevokeReason_code CertMismatch = 13"
| "RevokeReason_code AccountInactive = 14"
| "RevokeReason_code FactorRemoved = 15"

fun RevokeReason_label :: "RevokeReason \<Rightarrow> string" where
  "RevokeReason_label Logout = ''logout''"
| "RevokeReason_label ByUser = ''revoked_by_user''"
| "RevokeReason_label ByAdmin = ''revoked_by_admin''"
| "RevokeReason_label IpMismatch = ''ip_mismatch''"
| "RevokeReason_label Idle = ''idle_timeout''"
| "RevokeReason_label Absolute = ''absolute_timeout''"
| "RevokeReason_label Evicted = ''evicted''"
| "RevokeReason_label PasswordChanged = ''password_changed''"
| "RevokeReason_label AccountDisabled = ''account_disabled''"
| "RevokeReason_label CredentialsReset = ''credentials_reset''"
| "RevokeReason_label GroupsChanged = ''groups_changed''"
| "RevokeReason_label StepUpFailures = ''step_up_failures''"
| "RevokeReason_label CertMismatch = ''client_cert_mismatch''"
| "RevokeReason_label AccountInactive = ''account_inactive''"
| "RevokeReason_label FactorRemoved = ''factor_removed''"

text \<open>\<open>raw\<close> are the 32 bytes drawn from the operating system.\<close>

definition hash_token :: "(bytes \<Rightarrow> bytes) \<Rightarrow> bytes \<Rightarrow> bytes" where
  "hash_token sha256 token = sha256 token"

definition new_token :: "prims \<Rightarrow> (bytes \<Rightarrow> bytes) \<Rightarrow> bytes \<Rightarrow> bytes \<times> bytes" where
  "new_token P sha256 raw =
     (let token = TOKEN_PREFIX @ str_bytes (b64url_encode P raw) in (token, hash_token sha256 token))"

definition is_token_char :: "u8 \<Rightarrow> bool" where
  "is_token_char b \<longleftrightarrow> (0x30 \<le> b \<and> b \<le> 0x39) \<or> (0x41 \<le> b \<and> b \<le> 0x5a) \<or> (0x61 \<le> b \<and> b \<le> 0x7a) \<or> b = 0x2d \<or> b = 0x5f"

text \<open>Every header that passes is ASCII, so the preceding check that it is UTF-8 never decides.\<close>

definition bearer_token :: "bytes \<Rightarrow> bytes option" where
  "bearer_token header =
     (let pre = str_bytes ''Bearer '' in
      if take (length pre) header \<noteq> pre then None
      else let token = drop (length pre) header
           in if length token = TOKEN_LEN \<and> take (length TOKEN_PREFIX) token = TOKEN_PREFIX \<and>
                list_all is_token_char (drop (length TOKEN_PREFIX) token)
              then Some token else None)"

definition session_ref :: "prims \<Rightarrow> bytes \<Rightarrow> string" where
  "session_ref P session_hash = hex_encode P (take 12 session_hash)"

record session_row =
  ss_hash :: bytes
  ss_admin_id :: string
  ss_created_at :: int
  ss_last_seen_at :: int
  ss_absolute_expires_at :: int
  ss_idle_timeout_secs :: int
  ss_aal :: int
  ss_mfa_at :: int
  ss_mfa_method :: int
  ss_source_ip :: string
  ss_client_cert :: "bytes option"
  ss_client_kind :: int
  ss_client_version :: "string option"
  ss_restricted :: int
  ss_revoked_at :: "int option"
  ss_revoked_reason :: "int option"
  ss_stepup_failures :: int

datatype Liveness = Live | RevokedSession | IdleSession | AbsoluteSession

definition liveness :: "session_row \<Rightarrow> int \<Rightarrow> Liveness" where
  "liveness row now =
     (if ss_revoked_at row \<noteq> None then RevokedSession
      else if now \<ge> ss_absolute_expires_at row then AbsoluteSession
      else if saturating_sub_i64 now (ss_last_seen_at row) > ss_idle_timeout_secs row then IdleSession
      else Live)"

section \<open>The database\<close>

datatype store_stmt =
    InsertSession | SelectSession bytes | SelectLive string | Touch bytes | RevokeStmt bytes | Rotate bytes
  | StepupFailed bytes | SelectAccount string | SelectGroups string | SelectPermissions string

record account_row =
  ac_admin_id :: string
  ac_state :: int
  ac_password_expires_at :: "int option"

definition ACCOUNT_ACTIVE :: int where
  "ACCOUNT_ACTIVE = 2"

datatype admin_event =
    AdminSessionRevoked string string "string option" string
  | AdminCallAuthorized string string string
  | AdminAccessDenied "string option" string string string

record admin_db =
  db_sessions :: "session_row list"
  db_accounts :: "account_row list"
  db_groups :: "string \<Rightarrow> string list"
  db_permissions :: "string \<Rightarrow> string list"
  db_audit :: "admin_event list"

definition admin_session :: "bytes \<Rightarrow> admin_db \<Rightarrow> session_row option" where
  "admin_session h db = List.find (\<lambda>r. ss_hash r = h) (db_sessions db)"

definition admin_account :: "string \<Rightarrow> admin_db \<Rightarrow> account_row option" where
  "admin_account admin_id db = List.find (\<lambda>a. ac_admin_id a = admin_id) (db_accounts db)"

text \<open>The primary key refuses a hash that is already there.\<close>

definition admin_insert_session :: "session_row \<Rightarrow> admin_db \<Rightarrow> (string, unit) result \<times> admin_db" where
  "admin_insert_session row db =
     (if admin_session (ss_hash row) db \<noteq> None then (Inl ''UNIQUE constraint failed'', db)
      else (Inr (), db\<lparr>db_sessions := db_sessions db @
        [row\<lparr>ss_revoked_at := None, ss_revoked_reason := None, ss_stepup_failures := 0\<rparr>]\<rparr>))"

definition admin_live_sessions :: "string \<Rightarrow> admin_db \<Rightarrow> session_row list" where
  "admin_live_sessions admin_id db =
     sort_key (\<lambda>r. (ss_created_at r, ss_hash r))
       (filter (\<lambda>r. ss_admin_id r = admin_id \<and> ss_revoked_at r = None) (db_sessions db))"

definition admin_touch_session :: "bytes \<Rightarrow> int \<Rightarrow> admin_db \<Rightarrow> admin_db" where
  "admin_touch_session h now db =
     db\<lparr>db_sessions := map (\<lambda>r. if ss_hash r = h then r\<lparr>ss_last_seen_at := now\<rparr> else r) (db_sessions db)\<rparr>"

definition admin_revoke_session :: "bytes \<Rightarrow> int \<Rightarrow> int \<Rightarrow> admin_db \<Rightarrow> bool \<times> admin_db" where
  "admin_revoke_session h now reason db =
     (list_ex (\<lambda>r. ss_hash r = h \<and> ss_revoked_at r = None) (db_sessions db),
      db\<lparr>db_sessions := map (\<lambda>r. if ss_hash r = h \<and> ss_revoked_at r = None
         then r\<lparr>ss_revoked_at := Some now, ss_revoked_reason := Some reason\<rparr> else r) (db_sessions db)\<rparr>)"

record mfa_verification =
  mv_at :: int
  mv_method :: int
  mv_aal :: int

definition rotate_row :: "bytes \<Rightarrow> mfa_verification option \<Rightarrow> int \<Rightarrow> session_row \<Rightarrow> session_row" where
  "rotate_row new_hash mfa restricted r =
     (let r1 = (case mfa of None \<Rightarrow> r
                | Some v \<Rightarrow> r\<lparr>ss_mfa_at := mv_at v, ss_mfa_method := mv_method v, ss_aal := mv_aal v\<rparr>)
      in r1\<lparr>ss_hash := new_hash, ss_restricted := restricted, ss_stepup_failures := 0\<rparr>)"

definition admin_rotate_session ::
  "bytes \<Rightarrow> bytes \<Rightarrow> mfa_verification option \<Rightarrow> int \<Rightarrow> admin_db \<Rightarrow> (string, bool) result \<times> admin_db" where
  "admin_rotate_session old_hash new_hash mfa restricted db =
     (if \<not> list_ex (\<lambda>r. ss_hash r = old_hash \<and> ss_revoked_at r = None) (db_sessions db) then (Inr False, db)
      else if new_hash \<noteq> old_hash \<and> admin_session new_hash db \<noteq> None then (Inl ''UNIQUE constraint failed'', db)
      else (Inr True, db\<lparr>db_sessions := map (\<lambda>r. if ss_hash r = old_hash \<and> ss_revoked_at r = None
         then rotate_row new_hash mfa restricted r else r) (db_sessions db)\<rparr>))"

definition admin_session_stepup_failed :: "bytes \<Rightarrow> admin_db \<Rightarrow> int \<times> admin_db" where
  "admin_session_stepup_failed h db =
     (let db1 = db\<lparr>db_sessions := map (\<lambda>r. if ss_hash r = h
        then r\<lparr>ss_stepup_failures := ss_stepup_failures r + 1\<rparr> else r) (db_sessions db)\<rparr>
      in (case admin_session h db1 of None \<Rightarrow> 0 | Some r \<Rightarrow> ss_stepup_failures r, db1))"

section \<open>Session operations\<close>

type_synonym store_up = "store_stmt \<Rightarrow> bool"

datatype RpcStatus =
    Unauthenticated string
  | FailedPrecondition string
  | PermissionDenied string
  | UnavailableStatus string
  | Unimplemented string

definition store_error :: RpcStatus where
  "store_error = UnavailableStatus ''store_unavailable''"

definition audit :: "admin_event \<Rightarrow> admin_db \<Rightarrow> admin_db" where
  "audit ev db = db\<lparr>db_audit := db_audit db @ [ev]\<rparr>"

definition revoke_session ::
  "prims \<Rightarrow> store_up \<Rightarrow> int \<Rightarrow> RevokeReason \<Rightarrow> string option \<Rightarrow> session_row \<Rightarrow> admin_db \<Rightarrow> admin_db" where
  "revoke_session P up now reason by_admin_id row db =
     (if \<not> up (RevokeStmt (ss_hash row)) then db
      else case admin_revoke_session (ss_hash row) now (RevokeReason_code reason) db of
        (True, db1) \<Rightarrow> audit (AdminSessionRevoked (ss_admin_id row) (session_ref P (ss_hash row)) by_admin_id
           (RevokeReason_label reason)) db1
      | (False, db1) \<Rightarrow> db1)"

definition revoke_all_sessions ::
  "prims \<Rightarrow> store_up \<Rightarrow> int \<Rightarrow> string \<Rightarrow> bytes option \<Rightarrow> RevokeReason \<Rightarrow> string option \<Rightarrow> admin_db \<Rightarrow>
   (RpcStatus, unit) result \<times> admin_db" where
  "revoke_all_sessions P up now admin_id keep reason by_admin_id db =
     (if \<not> up (SelectLive admin_id) then (Inl store_error, db)
      else (Inr (), fold (revoke_session P up now reason by_admin_id)
        (filter (\<lambda>r. keep \<noteq> Some (ss_hash r)) (admin_live_sessions admin_id db)) db))"

record peer_info =
  pe_ip :: "string option"
  pe_client_cert :: "bytes option"

definition canonical_ip :: "string option \<Rightarrow> string" where
  "canonical_ip ip = (case ip of None \<Rightarrow> '''' | Some s \<Rightarrow> s)"

record admin_config =
  cf_step_up_window_secs :: int
  cf_session_bind_ip :: bool
  cf_idle_timeout_secs :: int
  cf_absolute_lifetime_secs :: int
  cf_tray_fido2_groups :: "string list"

text \<open>\<open>get\<close> looks a variable up in the environment.\<close>

datatype config_error = NotAnInteger string string | MustNotBeNegative string

definition config_secs ::
  "(string \<Rightarrow> string option) \<Rightarrow> string \<Rightarrow> int \<Rightarrow> int \<Rightarrow> (config_error, int) result" where
  "config_secs get name default_secs max_secs =
     (case get name of
        None \<Rightarrow> Inr default_secs
      | Some v \<Rightarrow>
          and_then (ok_or (NotAnInteger name v) (parse_i64 (trim v))) (\<lambda>n.
          if n < 0 then Inl (MustNotBeNegative name) else Inr (min n max_secs)))"

definition DEFAULT_STEP_UP_WINDOW_SECS :: int where
  "DEFAULT_STEP_UP_WINDOW_SECS = 300"

definition session_limits :: "(string \<Rightarrow> string option) \<Rightarrow> admin_config \<Rightarrow> (config_error, admin_config) result" where
  "session_limits get c =
     and_then (config_secs get ''CMIS_ADMIN_STEP_UP_WINDOW_SECS'' DEFAULT_STEP_UP_WINDOW_SECS MAX_IDLE_SECS) (\<lambda>step_up.
     and_then (config_secs get ''CMIS_ADMIN_SESSION_IDLE_SECS'' MAX_IDLE_SECS MAX_IDLE_SECS) (\<lambda>idle.
     and_then (config_secs get ''CMIS_ADMIN_SESSION_ABSOLUTE_SECS'' MAX_ABSOLUTE_SECS MAX_ABSOLUTE_SECS) (\<lambda>absolute.
     Inr (c\<lparr>cf_step_up_window_secs := step_up, cf_idle_timeout_secs := max idle 60,
            cf_absolute_lifetime_secs := max absolute (max idle 60)\<rparr>))))"

text \<open>The loop that evicts: \<open>live.remove(0)\<close> while the cap is reached.\<close>

fun evict :: "prims \<Rightarrow> store_up \<Rightarrow> int \<Rightarrow> session_row list \<Rightarrow> admin_db \<Rightarrow> admin_db" where
  "evict P up now [] db = db"
| "evict P up now (oldest # live) db =
     (if length (oldest # live) \<ge> MAX_SESSIONS_PER_ACCOUNT
      then evict P up now live (revoke_session P up now Evicted None oldest db) else db)"

record verified =
  vf_method :: MfaMethod
  vf_aal :: int

definition open_session ::
  "prims \<Rightarrow> (bytes \<Rightarrow> bytes) \<Rightarrow> bytes \<Rightarrow> store_up \<Rightarrow> admin_config \<Rightarrow> int \<Rightarrow> string \<Rightarrow> peer_info \<Rightarrow> int \<times> string option \<Rightarrow>
   verified \<Rightarrow> bool \<Rightarrow> admin_db \<Rightarrow> (RpcStatus, bytes \<times> session_row) result \<times> admin_db" where
  "open_session P sha256 raw up cfg now admin_id peer client v restricted db =
     (if \<not> up (SelectLive admin_id) then (Inl store_error, db)
      else let live = filter (\<lambda>r. liveness r now = Live) (admin_live_sessions admin_id db);
               db1 = evict P up now live db;
               (token, hash) = new_token P sha256 raw;
               row = \<lparr>ss_hash = hash, ss_admin_id = admin_id, ss_created_at = now, ss_last_seen_at = now,
                 ss_absolute_expires_at = saturating_add_i64 now (cf_absolute_lifetime_secs cfg),
                 ss_idle_timeout_secs = cf_idle_timeout_secs cfg, ss_aal = vf_aal v, ss_mfa_at = now,
                 ss_mfa_method = MfaMethod_code (vf_method v), ss_source_ip = canonical_ip (pe_ip peer),
                 ss_client_cert = pe_client_cert peer, ss_client_kind = fst client, ss_client_version = snd client,
                 ss_restricted = (if restricted then 1 else 0), ss_revoked_at = None, ss_revoked_reason = None,
                 ss_stepup_failures = 0\<rparr>
           in if \<not> up InsertSession then (Inl store_error, db1)
              else case admin_insert_session row db1 of
                (Inl _, db2) \<Rightarrow> (Inl store_error, db2)
              | (Inr _, db2) \<Rightarrow> (Inr (token, row), db2))"

section \<open>The decision\<close>

record admin_context =
  cx_admin_id :: string
  cx_session_ref :: string
  cx_groups :: "string list"
  cx_permissions :: "Permission list"
  cx_aal :: int
  cx_mfa_at :: int
  cx_source_ip :: "string option"
  cx_client_kind :: int
  cx_restricted :: bool
  cx_factor_enrollment_required :: bool
  cx_session_hash :: bytes

definition cx_has :: "admin_context \<Rightarrow> Permission \<Rightarrow> bool" where
  "cx_has ctx p = List.member (cx_permissions ctx) p"

definition password_expired :: "account_row \<Rightarrow> int \<Rightarrow> bool" where
  "password_expired a now = (case ac_password_expires_at a of None \<Rightarrow> False | Some e \<Rightarrow> e \<le> now)"

definition fido2_required :: "admin_config \<Rightarrow> int \<Rightarrow> string list \<Rightarrow> bool" where
  "fido2_required cfg client_kind groups \<longleftrightarrow>
     client_kind = CLIENT_TRAY \<and> list_ex (\<lambda>g. list_ex (\<lambda>p. p = g) (cf_tray_fido2_groups cfg)) groups"

definition deny :: "admin_context option \<Rightarrow> string \<Rightarrow> session_rule \<Rightarrow> string \<Rightarrow> admin_db \<Rightarrow> admin_db" where
  "deny ctx path rule reason db =
     audit (AdminAccessDenied (map_option cx_admin_id ctx) (take 128 path)
       (case sr_permission rule of None \<Rightarrow> '''' | Some p \<Rightarrow> Permission_as_str p) reason) db"

definition require_step_up :: "admin_config \<Rightarrow> int \<Rightarrow> admin_context \<Rightarrow> (RpcStatus, unit) result" where
  "require_step_up cfg now ctx =
     (if saturating_sub_i64 now (cx_mfa_at ctx) > cf_step_up_window_secs cfg
      then Inl (FailedPrecondition ''step_up_required'') else Inr ())"

text \<open>The checks on the session itself, in the order of the code: the reason to revoke it, if any.\<close>

definition session_fault ::
  "admin_config \<Rightarrow> int \<Rightarrow> peer_info \<Rightarrow> session_row \<Rightarrow> RevokeReason option option" where
  "session_fault cfg now peer row =
     (case liveness row now of
        RevokedSession \<Rightarrow> Some None
      | IdleSession \<Rightarrow> Some (Some Idle)
      | AbsoluteSession \<Rightarrow> Some (Some Absolute)
      | Live \<Rightarrow>
          if cf_session_bind_ip cfg \<and> \<not> (pe_ip peer \<noteq> None \<and> canonical_ip (pe_ip peer) = ss_source_ip row)
          then Some (Some IpMismatch)
          else if ss_client_cert row \<noteq> None \<and> pe_client_cert peer \<noteq> ss_client_cert row
          then Some (Some CertMismatch)
          else None)"

definition make_context ::
  "prims \<Rightarrow> admin_config \<Rightarrow> int \<Rightarrow> peer_info \<Rightarrow> session_row \<Rightarrow> account_row \<Rightarrow> string list \<Rightarrow> string list \<Rightarrow> admin_context" where
  "make_context P cfg now peer row account groups perms =
     \<lparr>cx_admin_id = ac_admin_id account, cx_session_ref = session_ref P (ss_hash row), cx_groups = groups,
      cx_permissions = List.map_filter Permission_parse perms, cx_aal = ss_aal row, cx_mfa_at = ss_mfa_at row,
      cx_source_ip = pe_ip peer, cx_client_kind = ss_client_kind row,
      cx_restricted = password_expired account now,
      cx_factor_enrollment_required =
        (fido2_required cfg (ss_client_kind row) groups \<and> ss_mfa_method row \<noteq> MfaMethod_code WebAuthn),
      cx_session_hash = ss_hash row\<rparr>"

text \<open>The checks of the rule against the context; a refusal with a text to audit, or without.\<close>

definition rule_fault ::
  "admin_config \<Rightarrow> int \<Rightarrow> session_rule \<Rightarrow> admin_context \<Rightarrow> (RpcStatus \<times> string option) option" where
  "rule_fault cfg now rule ctx =
     (if cx_restricted ctx \<and> \<not> sr_allow_restricted rule
      then Some (FailedPrecondition ''password_expired'', Some ''password_expired'')
      else if cx_factor_enrollment_required ctx \<and> \<not> sr_allow_factor_enrollment rule
      then Some (FailedPrecondition ''factor_enrollment_required'', Some ''factor_enrollment_required'')
      else if (case sr_permission rule of None \<Rightarrow> False | Some p \<Rightarrow> \<not> cx_has ctx p)
      then Some (PermissionDenied ''permission_denied'', Some ''permission_denied'')
      else if sr_step_up rule
      then (case require_step_up cfg now ctx of Inl e \<Rightarrow> Some (e, None) | Inr _ \<Rightarrow> None)
      else None)"

definition session_invalid :: RpcStatus where
  "session_invalid = Unauthenticated ''session_invalid''"

definition authorize ::
  "prims \<Rightarrow> (bytes \<Rightarrow> bytes) \<Rightarrow> store_up \<Rightarrow> admin_config \<Rightarrow> int \<Rightarrow> string \<Rightarrow> session_rule \<Rightarrow> bytes option \<Rightarrow> peer_info \<Rightarrow>
   admin_db \<Rightarrow> (RpcStatus, admin_context) result \<times> admin_db" where
  "authorize P sha256 up cfg now path rule authorization peer db =
     (case Option.bind authorization bearer_token of
        None \<Rightarrow> (Inl session_invalid, db)
      | Some token \<Rightarrow>
        let hash = hash_token sha256 token in
        if \<not> up (SelectSession hash) then (Inl store_error, db)
        else case admin_session hash db of None \<Rightarrow> (Inl session_invalid, db)
        | Some row \<Rightarrow>
          case session_fault cfg now peer row of
            Some None \<Rightarrow> (Inl session_invalid, db)
          | Some (Some reason) \<Rightarrow> (Inl session_invalid, revoke_session P up now reason None row db)
          | None \<Rightarrow>
            if \<not> up (SelectAccount (ss_admin_id row)) then (Inl store_error, db)
            else case Option.bind (admin_account (ss_admin_id row) db) (\<lambda>a. if ac_state a = ACCOUNT_ACTIVE then Some a else None) of
              None \<Rightarrow> (Inl session_invalid, revoke_session P up now AccountInactive None row db)
            | Some account \<Rightarrow>
              if \<not> up (SelectGroups (ac_admin_id account)) \<or> \<not> up (SelectPermissions (ac_admin_id account))
              then (Inl store_error, db)
              else let ctx = make_context P cfg now peer row account (db_groups db (ac_admin_id account))
                     (db_permissions db (ac_admin_id account))
                   in case rule_fault cfg now rule ctx of
                        Some (e, Some reason) \<Rightarrow> (Inl e, deny (Some ctx) path rule reason db)
                      | Some (e, None) \<Rightarrow> (Inl e, db)
                      | None \<Rightarrow>
                          let db1 = (if saturating_sub_i64 now (ss_last_seen_at row) \<ge> TOUCH_INTERVAL_SECS \<and> up (Touch (ss_hash row))
                                     then admin_touch_session (ss_hash row) now db else db)
                          in (Inr ctx, audit (AdminCallAuthorized (cx_admin_id ctx) (cx_session_ref ctx) path) db1))"

definition second_factor_failed :: "prims \<Rightarrow> store_up \<Rightarrow> int \<Rightarrow> admin_context \<Rightarrow> admin_db \<Rightarrow> admin_db" where
  "second_factor_failed P up now ctx db =
     (if cx_session_hash ctx = [] \<or> \<not> up (StepupFailed (cx_session_hash ctx)) then db
      else case admin_session_stepup_failed (cx_session_hash ctx) db of (n, db1) \<Rightarrow>
        if n \<ge> MAX_STEP_UP_FAILURES \<and> up (SelectSession (cx_session_hash ctx))
        then (case admin_session (cx_session_hash ctx) db1 of
                None \<Rightarrow> db1
              | Some row \<Rightarrow> revoke_session P up now StepUpFailures None row db1)
        else db1)"

definition rotate ::
  "prims \<Rightarrow> (bytes \<Rightarrow> bytes) \<Rightarrow> bytes \<Rightarrow> store_up \<Rightarrow> admin_context \<Rightarrow> mfa_verification option \<Rightarrow> bool \<Rightarrow> admin_db \<Rightarrow>
   (RpcStatus, bytes) result \<times> admin_db" where
  "rotate P sha256 raw up ctx mfa restricted db =
     (let (token, hash) = new_token P sha256 raw in
      if \<not> up (Rotate (cx_session_hash ctx)) then (Inl store_error, db)
      else case admin_rotate_session (cx_session_hash ctx) hash mfa (if restricted then 1 else 0) db of
        (Inl _, db1) \<Rightarrow> (Inl store_error, db1)
      | (Inr rotated, db1) \<Rightarrow> if \<not> rotated then (Inl session_invalid, db1) else (Inr token, db1))"

section \<open>Admission\<close>

datatype ListenerKind = Main | Admin

record layer_config =
  ly_authz :: bool
  ly_listener :: ListenerKind
  ly_tls :: bool
  ly_legacy_admin_on_main :: bool
  ly_last_unclassified_audit :: int

definition UNCLASSIFIED_AUDIT_INTERVAL_SECS :: int where
  "UNCLASSIFIED_AUDIT_INTERVAL_SECS = 60"

definition NO_RULE :: session_rule where
  "NO_RULE = \<lparr>sr_permission = None, sr_step_up = False, sr_allow_restricted = False, sr_allow_factor_enrollment = False\<rparr>"

definition starts_with :: "string \<Rightarrow> string \<Rightarrow> bool" where
  "starts_with s pre \<longleftrightarrow> take (length pre) s = pre"

text \<open>The result is the context put into the request, if any.\<close>

definition admit ::
  "prims \<Rightarrow> (bytes \<Rightarrow> bytes) \<Rightarrow> store_up \<Rightarrow> admin_config \<Rightarrow> int \<Rightarrow> string \<Rightarrow> bytes option \<Rightarrow> peer_info \<Rightarrow> layer_config \<Rightarrow>
   admin_db \<Rightarrow> (RpcStatus, admin_context option) result \<times> layer_config \<times> admin_db" where
  "admit P sha256 up cfg now path header peer ly db =
     (case access_for path of
        None \<Rightarrow>
          let (ly1, db1) =
            (if ly_authz ly \<and> saturating_sub_i64 now (ly_last_unclassified_audit ly) \<ge> UNCLASSIFIED_AUDIT_INTERVAL_SECS
             then (ly\<lparr>ly_last_unclassified_audit := now\<rparr>, deny None path NO_RULE ''method_not_classified'' db)
             else (ly, db))
          in (Inl (PermissionDenied ''method_not_classified''), ly1, db1)
      | Some access \<Rightarrow>
          if starts_with path ADMIN \<and> ly_listener ly = Main
          then (Inl (Unimplemented ''admin_listener_only''), ly, db)
          else case access of
            Public \<Rightarrow> (Inr None, ly, db)
          | Host \<Rightarrow> (Inr None, ly, db)
          | AdminPublic \<Rightarrow>
              if \<not> ly_tls ly then (Inl (FailedPrecondition ''tls_required''), ly, db)
              else if \<not> ly_authz ly then (Inl (UnavailableStatus ''auth_unavailable''), ly, db)
              else (Inr None, ly, db)
          | Session rule \<Rightarrow>
              if \<not> ly_tls ly then (Inl (FailedPrecondition ''tls_required''), ly, db)
              else if ly_listener ly = Main \<and> \<not> ly_legacy_admin_on_main ly
              then (Inl (Unimplemented ''admin_listener_only''), ly, db)
              else if \<not> ly_authz ly then (Inl (UnavailableStatus ''auth_unavailable''), ly, db)
              else case authorize P sha256 up cfg now path rule header peer db of
                (r, db1) \<Rightarrow> (and_then r (\<lambda>ctx. Inr (Some ctx)), ly, db1))"

definition require :: "admin_context option \<Rightarrow> string \<Rightarrow> (RpcStatus, admin_context) result" where
  "require ext path =
     (case access_for path of
        Some (Session rule) \<Rightarrow>
          (case ext of
             None \<Rightarrow> Inl session_invalid
           | Some ctx \<Rightarrow>
               if (case sr_permission rule of None \<Rightarrow> False | Some p \<Rightarrow> \<not> cx_has ctx p)
               then Inl (PermissionDenied ''permission_denied'')
               else if cx_restricted ctx \<and> \<not> sr_allow_restricted rule then Inl (FailedPrecondition ''password_expired'')
               else if cx_factor_enrollment_required ctx \<and> \<not> sr_allow_factor_enrollment rule
               then Inl (FailedPrecondition ''factor_enrollment_required'')
               else Inr ctx)
      | _ \<Rightarrow> Inl (PermissionDenied ''method_not_classified''))"

section \<open>How rows evolve\<close>

text \<open>
  What every operation at time \<open>now\<close> keeps of a row: the owner, the creation and expiry times and the
  idle timeout; a revoked row stays revoked and no row comes back to life.
\<close>

definition kept :: "int \<Rightarrow> session_row \<Rightarrow> session_row \<Rightarrow> bool" where
  "kept now r r' \<longleftrightarrow>
     ss_admin_id r' = ss_admin_id r \<and> ss_created_at r' = ss_created_at r \<and>
     ss_absolute_expires_at r' = ss_absolute_expires_at r \<and> ss_idle_timeout_secs r' = ss_idle_timeout_secs r \<and>
     (ss_revoked_at r \<noteq> None \<longrightarrow> ss_revoked_at r' \<noteq> None \<and> ss_hash r' = ss_hash r) \<and>
     (liveness r' now = Live \<longrightarrow> liveness r now = Live)"

abbreviation same_rows :: "int \<Rightarrow> session_row list \<Rightarrow> session_row list \<Rightarrow> bool" where
  "same_rows now \<equiv> list_all2 (\<lambda>r r'. ss_hash r' = ss_hash r \<and> kept now r r')"

lemma kept_refl [simp]: "kept now r r"
  by (simp add: kept_def)

lemma same_rows_refl [simp]: "same_rows now S S"
  by (simp add: list.rel_refl)

lemma same_rows_trans: "same_rows now S S' \<Longrightarrow> same_rows now S' S'' \<Longrightarrow> same_rows now S S''"
  by (rule list_all2_trans [of _ _ _ S S' S'']) (auto simp: kept_def)

lemma same_rows_map: "(\<And>r. r \<in> set S \<Longrightarrow> ss_hash (f r) = ss_hash r \<and> kept now r (f r)) \<Longrightarrow> same_rows now S (map f S)"
  by (simp add: list_all2_conv_all_nth)

lemma audit_sessions [simp]: "db_sessions (audit ev db) = db_sessions db"
  by (simp add: audit_def)

lemma deny_sessions [simp]: "db_sessions (deny ctx path rule reason db) = db_sessions db"
  by (simp add: deny_def)

definition revoke_row :: "bytes \<Rightarrow> int \<Rightarrow> RevokeReason \<Rightarrow> session_row \<Rightarrow> session_row" where
  "revoke_row h now reason r =
     (if ss_hash r = h \<and> ss_revoked_at r = None
      then r\<lparr>ss_revoked_at := Some now, ss_revoked_reason := Some (RevokeReason_code reason)\<rparr> else r)"

lemma revoke_row_simps [simp]: "ss_hash (revoke_row h now reason r) = ss_hash r"
  "ss_admin_id (revoke_row h now reason r) = ss_admin_id r" "kept t r (revoke_row h now reason r)"
  by (auto simp: revoke_row_def kept_def liveness_def)

lemma revoke_row_live: "liveness (revoke_row h now reason r) t = Live \<longleftrightarrow> ss_hash r \<noteq> h \<and> liveness r t = Live"
  by (auto simp: revoke_row_def liveness_def)

lemma revoke_session_sessions:
  "db_sessions (revoke_session P up now reason by_admin row db) =
     (if up (RevokeStmt (ss_hash row)) then map (revoke_row (ss_hash row) now reason) (db_sessions db) else db_sessions db)"
  by (auto simp: revoke_session_def admin_revoke_session_def revoke_row_def split: prod.splits bool.splits)

lemma same_rows_revoke [simp]: "same_rows t (db_sessions db) (db_sessions (revoke_session P up now reason by_admin row db))"
  by (simp add: revoke_session_sessions same_rows_map)

lemma same_rows_revoke_fold:
  "same_rows t (db_sessions db) (db_sessions (fold (revoke_session P up now reason by_admin) rows db))"
proof (induction rows arbitrary: db)
  case (Cons r rs)
  show ?case using same_rows_trans [OF same_rows_revoke Cons.IH] by simp
qed simp

lemma same_rows_evict: "same_rows t (db_sessions db) (db_sessions (evict P up now live db))"
proof (induction live arbitrary: db)
  case (Cons r rs)
  show ?case using same_rows_trans [OF same_rows_revoke Cons.IH] by simp
qed simp

lemma same_rows_touch:
  assumes "admin_session h db = Some row" "liveness row now = Live" "distinct (map ss_hash (db_sessions db))"
  shows "same_rows now (db_sessions db) (db_sessions (admin_touch_session h now db))"
proof -
  have "r = row" if "r \<in> set (db_sessions db)" "ss_hash r = h" for r
  proof -
    have "row \<in> set (db_sessions db)" "ss_hash row = h"
      using assms(1) unfolding admin_session_def find_Some_iff by auto
    then show ?thesis using that assms(3) by (metis distinct_map inj_on_eq_iff)
  qed
  moreover have "kept now row (row\<lparr>ss_last_seen_at := now\<rparr>)"
    using assms(2) by (simp add: kept_def liveness_def split: if_splits)
  ultimately show ?thesis
    unfolding admin_touch_session_def by (auto intro!: same_rows_map)
qed

lemma same_rows_stepup: "same_rows now (db_sessions db) (db_sessions (snd (admin_session_stepup_failed h db)))"
proof -
  have "kept now r (r\<lparr>ss_stepup_failures := n\<rparr>)" for r n
    by (simp add: kept_def liveness_def)
  then show ?thesis
    by (simp add: admin_session_stepup_failed_def Let_def same_rows_map)
qed

lemma session_fault_None: "session_fault cfg now peer row = None \<Longrightarrow> liveness row now = Live"
  by (simp add: session_fault_def split: Liveness.splits)

lemma same_rows_authorize:
  assumes "distinct (map ss_hash (db_sessions db))"
  shows "same_rows now (db_sessions db) (db_sessions (snd (authorize P sha256 up cfg now path rule header peer db)))"
proof -
  have touch: "same_rows now (db_sessions db) (db_sessions (admin_touch_session (ss_hash row) now db))"
    if "admin_session h db = Some row" "session_fault cfg now peer row = None" for h row
  proof -
    have "ss_hash row = h" using that(1) unfolding admin_session_def find_Some_iff by auto
    then show ?thesis using same_rows_touch that assms session_fault_None by blast
  qed
  show ?thesis
    by (auto simp: authorize_def Let_def touch split: option.splits prod.splits)
qed

lemma same_rows_second_factor: "same_rows now (db_sessions db) (db_sessions (second_factor_failed P up now ctx db))"
  by (auto simp: second_factor_failed_def same_rows_stepup case_prod_beta split: option.splits
      intro: same_rows_trans [OF same_rows_stepup same_rows_revoke])

lemma same_rows_hashes: "same_rows now S S' \<Longrightarrow> map ss_hash S' = map ss_hash S"
  by (induction S S' rule: list_all2_induct) auto

section \<open>Runs\<close>

datatype session_op =
    OpOpen bytes string peer_info "int \<times> string option" verified bool
  | OpAuthorize string session_rule "bytes option" peer_info
  | OpRevoke session_row RevokeReason "string option"
  | OpRevokeAll string "bytes option" RevokeReason "string option"
  | OpSecondFactorFailed admin_context
  | OpRotate bytes admin_context "mfa_verification option" bool

fun session_step ::
  "prims \<Rightarrow> (bytes \<Rightarrow> bytes) \<Rightarrow> store_up \<Rightarrow> admin_config \<Rightarrow> int \<times> session_op \<Rightarrow> admin_db \<Rightarrow> admin_db" where
  "session_step P sha256 up cfg (now, OpOpen raw admin_id peer client v restricted) db =
     snd (open_session P sha256 raw up cfg now admin_id peer client v restricted db)"
| "session_step P sha256 up cfg (now, OpAuthorize path rule header peer) db =
     snd (authorize P sha256 up cfg now path rule header peer db)"
| "session_step P sha256 up cfg (now, OpRevoke row reason by_admin) db = revoke_session P up now reason by_admin row db"
| "session_step P sha256 up cfg (now, OpRevokeAll admin_id keep reason by_admin) db =
     snd (revoke_all_sessions P up now admin_id keep reason by_admin db)"
| "session_step P sha256 up cfg (now, OpSecondFactorFailed ctx) db = second_factor_failed P up now ctx db"
| "session_step P sha256 up cfg (now, OpRotate raw ctx mfa restricted) db =
     snd (rotate P sha256 raw up ctx mfa restricted db)"

text \<open>A step keeps the rows, gives one of them a fresh hash, or adds one row with a fresh hash.\<close>

lemma rotate_row_kept: "ss_revoked_at r = None \<Longrightarrow> kept now r (rotate_row h mfa restricted r)"
  by (auto simp: rotate_row_def kept_def liveness_def Let_def split: option.splits)

lemma rotate_row_hash [simp]: "ss_hash (rotate_row h mfa restricted r) = h"
  by (simp add: rotate_row_def Let_def)

definition renamed :: "bytes \<Rightarrow> bytes \<Rightarrow> int \<Rightarrow> session_row list \<Rightarrow> session_row list \<Rightarrow> bool" where
  "renamed old new now S S' \<longleftrightarrow> new \<notin> ss_hash ` set S \<and>
     list_all2 (\<lambda>r r'. kept now r r' \<and> ss_hash r' = (if ss_hash r = old \<and> ss_revoked_at r = None then new else ss_hash r)) S S'"

lemma admin_session_None: "admin_session h db = None \<longleftrightarrow> h \<notin> ss_hash ` set (db_sessions db)"
  by (auto simp: admin_session_def find_None_iff)

lemma rotate_cases:
  "same_rows now (db_sessions db) (db_sessions (snd (rotate P sha256 raw up ctx mfa restricted db))) \<or>
   (\<exists>old new. renamed old new now (db_sessions db) (db_sessions (snd (rotate P sha256 raw up ctx mfa restricted db))))"
proof -
  obtain token new where tok: "new_token P sha256 raw = (token, new)" by fastforce
  let ?old = "cx_session_hash ctx"
  define f where "f r = (if ss_hash r = ?old \<and> ss_revoked_at r = None then rotate_row new mfa (if restricted then 1 else 0) r else r)" for r
  have f: "kept now r (f r)" "ss_hash (f r) = (if ss_hash r = ?old \<and> ss_revoked_at r = None then new else ss_hash r)" for r
    by (simp_all add: f_def rotate_row_kept)
  have "db_sessions (snd (rotate P sha256 raw up ctx mfa restricted db)) = db_sessions db \<or>
      (new = ?old \<or> new \<notin> ss_hash ` set (db_sessions db)) \<and>
      db_sessions (snd (rotate P sha256 raw up ctx mfa restricted db)) = map f (db_sessions db)"
    by (auto simp: rotate_def tok admin_rotate_session_def admin_session_None f_def [abs_def] split: if_splits)
  then show ?thesis
  proof (elim disjE conjE)
    assume "new = ?old" "db_sessions (snd (rotate P sha256 raw up ctx mfa restricted db)) = map f (db_sessions db)"
    then show ?thesis using f same_rows_map [of "db_sessions db" f now] by simp
  next
    assume "new \<notin> ss_hash ` set (db_sessions db)"
      "db_sessions (snd (rotate P sha256 raw up ctx mfa restricted db)) = map f (db_sessions db)"
    then have "renamed ?old new now (db_sessions db) (db_sessions (snd (rotate P sha256 raw up ctx mfa restricted db)))"
      using f by (simp add: renamed_def list_all2_conv_all_nth)
    then show ?thesis by blast
  qed simp
qed

definition opened_row :: "admin_config \<Rightarrow> int \<Rightarrow> session_row \<Rightarrow> bool" where
  "opened_row cfg now r \<longleftrightarrow> ss_created_at r = now \<and> ss_revoked_at r = None \<and>
     ss_absolute_expires_at r = saturating_add_i64 now (cf_absolute_lifetime_secs cfg) \<and>
     ss_idle_timeout_secs r = cf_idle_timeout_secs cfg"

lemma open_session_cases:
  "same_rows now (db_sessions db) (db_sessions (snd (open_session P sha256 raw up cfg now admin_id peer client v restricted db))) \<or>
   (\<exists>r. opened_row cfg now r \<and> ss_admin_id r = admin_id \<and> ss_hash r \<notin> ss_hash ` set (db_sessions db) \<and> up (SelectLive admin_id) \<and>
     db_sessions (snd (open_session P sha256 raw up cfg now admin_id peer client v restricted db)) =
       db_sessions (evict P up now (filter (\<lambda>r. liveness r now = Live) (admin_live_sessions admin_id db)) db) @ [r])"
proof -
  let ?live = "filter (\<lambda>r. liveness r now = Live) (admin_live_sessions admin_id db)"
  have ev: "same_rows now (db_sessions db) (db_sessions (evict P up now ?live db))"
    by (rule same_rows_evict)
  have hashes: "ss_hash ` set (db_sessions (evict P up now ?live db)) = ss_hash ` set (db_sessions db)"
    using same_rows_hashes [OF ev] by (metis list.set_map)
  show ?thesis
    using ev
    by (auto simp: open_session_def Let_def admin_insert_session_def admin_session_None hashes opened_row_def
        split: prod.splits if_splits)
qed

lemma session_step_cases:
  assumes "distinct (map ss_hash (db_sessions db))"
  obtains (same) "same_rows now (db_sessions db) (db_sessions (session_step P sha256 up cfg (now, opr) db))"
  | (renamed) old new where "renamed old new now (db_sessions db) (db_sessions (session_step P sha256 up cfg (now, opr) db))"
  | (opened) admin_id r where "opened_row cfg now r" "ss_admin_id r = admin_id" "ss_hash r \<notin> ss_hash ` set (db_sessions db)"
      "up (SelectLive admin_id)"
      "db_sessions (session_step P sha256 up cfg (now, opr) db) =
         db_sessions (evict P up now (filter (\<lambda>r. liveness r now = Live) (admin_live_sessions admin_id db)) db) @ [r]"
proof (cases opr)
  case (OpOpen raw admin_id peer client v restricted)
  then show ?thesis
    using open_session_cases [of now db P sha256 raw up cfg admin_id peer client v restricted] that(1,3) by auto
next
  case (OpRotate raw ctx mfa restricted)
  then show ?thesis
    using rotate_cases [of now db P sha256 raw up ctx mfa restricted] that(1,2) by auto
next
  case (OpAuthorize path rule header peer)
  then show ?thesis using that(1) same_rows_authorize [OF assms] by simp
next
  case (OpRevokeAll admin_id keep reason by_admin)
  then show ?thesis using that(1) by (simp add: revoke_all_sessions_def same_rows_revoke_fold)
qed (use that(1) same_rows_second_factor in simp_all)

section \<open>Revocation is final\<close>

lemma renamed_hashes:
  assumes "renamed old new now S S'" and "distinct (map ss_hash S)"
  shows "distinct (map ss_hash S')"
proof -
  define g :: "session_row \<Rightarrow> bytes" where "g r = (if ss_hash r = old \<and> ss_revoked_at r = None then new else ss_hash r)" for r
  have "list_all2 (\<lambda>r r'. ss_hash r' = g r) S S'"
    using assms(1) unfolding renamed_def g_def by (auto elim: list_all2_mono)
  then have "map ss_hash S' = map g S"
    by (induction S S' rule: list_all2_induct) auto
  moreover have "inj_on g (set S)"
    using assms unfolding inj_on_def g_def renamed_def by (auto simp: distinct_map inj_on_def)
  ultimately show ?thesis using assms(2) by (simp add: distinct_map)
qed

lemma distinct_step:
  assumes "distinct (map ss_hash (db_sessions db))"
  shows "distinct (map ss_hash (db_sessions (session_step P sha256 up cfg (now, opr) db)))"
  using assms
proof (cases rule: session_step_cases [of db now P sha256 up cfg opr])
  case same
  show ?thesis unfolding same_rows_hashes [OF same] by (rule assms)
next
  case (renamed old new)
  then show ?thesis using assms renamed_hashes by blast
next
  case (opened admin_id r)
  let ?S = "db_sessions (evict P up now (filter (\<lambda>r. liveness r now = Live) (admin_live_sessions admin_id db)) db)"
  have h: "map ss_hash ?S = map ss_hash (db_sessions db)" by (rule same_rows_hashes [OF same_rows_evict])
  then have "ss_hash r \<notin> set (map ss_hash ?S)" using opened(3) by simp
  then show ?thesis unfolding opened(5) map_append distinct_append h using assms by simp
qed

definition revoked_hash :: "bytes \<Rightarrow> session_row list \<Rightarrow> bool" where
  "revoked_hash h S \<longleftrightarrow> (\<exists>r\<in>set S. ss_hash r = h \<and> ss_revoked_at r \<noteq> None)"

lemma revoked_hash_rel:
  assumes "list_all2 Q S S'" and "\<And>r r'. Q r r' \<Longrightarrow> kept now r r'" and "revoked_hash h S"
  shows "revoked_hash h S'"
proof -
  obtain i where i: "i < length S" "ss_hash (S ! i) = h" "ss_revoked_at (S ! i) \<noteq> None"
    using assms(3) by (auto simp: revoked_hash_def in_set_conv_nth)
  then have "Q (S ! i) (S' ! i)" "i < length S'" using assms(1) by (auto simp: list_all2_conv_all_nth)
  with i assms(2) show ?thesis unfolding revoked_hash_def kept_def by (metis nth_mem)
qed

lemma revoked_hash_step:
  assumes "distinct (map ss_hash (db_sessions db))" and "revoked_hash h (db_sessions db)"
  shows "revoked_hash h (db_sessions (session_step P sha256 up cfg (now, opr) db))"
  using assms(1)
proof (cases rule: session_step_cases [of db now P sha256 up cfg opr])
  case same
  then show ?thesis using revoked_hash_rel assms(2) by fastforce
next
  case (renamed old new)
  then show ?thesis using revoked_hash_rel assms(2) unfolding renamed_def by fastforce
next
  case (opened admin_id r)
  have "revoked_hash h (db_sessions (evict P up now (filter (\<lambda>r. liveness r now = Live) (admin_live_sessions admin_id db)) db))"
    using revoked_hash_rel [OF same_rows_evict] assms(2) by fastforce
  then show ?thesis by (auto simp: opened revoked_hash_def)
qed

lemma session_run_revoked:
  assumes "distinct (map ss_hash (db_sessions db))" and "revoked_hash h (db_sessions db)"
  shows "distinct (map ss_hash (db_sessions (fold (session_step P sha256 up cfg) ops db))) \<and>
    revoked_hash h (db_sessions (fold (session_step P sha256 up cfg) ops db))"
  using assms
proof (induction ops arbitrary: db)
  case (Cons x ops)
  obtain now opr where "x = (now, opr)" by (cases x)
  then show ?case using Cons distinct_step revoked_hash_step by simp
qed simp

lemma authorize_Inr:
  assumes "authorize P sha256 up cfg now path rule header peer db = (Inr ctx, db')"
  obtains token row account where "Option.bind header bearer_token = Some token"
    "admin_session (sha256 token) db = Some row" "session_fault cfg now peer row = None"
    "admin_account (ss_admin_id row) db = Some account" "ac_state account = ACCOUNT_ACTIVE"
    "ctx = make_context P cfg now peer row account (db_groups db (ac_admin_id account)) (db_permissions db (ac_admin_id account))"
    "rule_fault cfg now rule ctx = None"
  using assms
  by (auto simp: authorize_def hash_token_def Let_def bind_eq_Some_conv split: option.splits if_splits prod.splits)

text \<open>
  C96. A revoked session is dead for good. Over any sequence of logins, calls, revocations, step-up
  failures and token rotations, with any store failures and any clock, no call with its token is
  authorized again.
\<close>

theorem revoked_session_never_authorizes:
  assumes "distinct (map ss_hash (db_sessions db))" and "revoked_hash (sha256 token) (db_sessions db)"
    and "Option.bind header bearer_token = Some token"
  shows "\<exists>e. fst (authorize P sha256 up cfg now path rule header peer (fold (session_step P sha256 up cfg) ops db)) = Inl e"
proof (rule ccontr)
  let ?db = "fold (session_step P sha256 up cfg) ops db"
  assume "\<not> ?thesis"
  then obtain ctx db' where "authorize P sha256 up cfg now path rule header peer ?db = (Inr ctx, db')"
    by (metis old.sum.exhaust prod.collapse)
  then obtain row where row: "admin_session (sha256 token) ?db = Some row" "session_fault cfg now peer row = None"
    using assms(3) by (auto elim!: authorize_Inr)
  then have live: "ss_revoked_at row = None"
    using session_fault_None [OF row(2)] by (simp add: liveness_def split: if_splits)
  have mem: "row \<in> set (db_sessions ?db)" "ss_hash row = sha256 token"
    using row(1) unfolding admin_session_def find_Some_iff by auto
  obtain r where "r \<in> set (db_sessions ?db)" "ss_hash r = sha256 token" "ss_revoked_at r \<noteq> None"
    and d: "distinct (map ss_hash (db_sessions ?db))"
    using session_run_revoked [OF assms(1,2)] unfolding revoked_hash_def by blast
  then show False using mem live by (metis distinct_map inj_on_eq_iff)
qed

end
